(* ===== verification/Prelude.thy ===== *)
theory Prelude
  imports Main "HOL-Library.Word" "HOL-Library.Monad_Syntax"
begin

text \<open>
  Shared vocabulary of the development: names for the machine integers of the C sources,
  the convention for \<open>BUG_ON\<close> (an operation that hits it has the value \<open>None\<close>), and the
  lemmas on lists, options and words that several components use.
\<close>

unbundle bit_operations_syntax

section \<open>Machine integers\<close>

type_synonym u8 = "8 word"
type_synonym u16 = "16 word"
type_synonym u32 = "32 word"
type_synonym u64 = "64 word"

section \<open>Collections of rewrite rules\<close>

named_theorems mask_defs \<open>the sets of flags that the sources name as bit masks\<close>

section \<open>BUG checks\<close>

text \<open>\<open>BUG_ON(c)\<close>: the kernel stops when \<open>c\<close> holds. Everything after it runs only if \<open>c\<close> is false.\<close>

definition bug_on :: "bool \<Rightarrow> unit option" where
  "bug_on c = (if c then None else Some ())"

lemma bug_on_eq_Some [simp]: "bug_on c = Some u \<longleftrightarrow> \<not> c"
  by (simp add: bug_on_def)

lemma bug_on_False [simp]: "bug_on False = Some ()"
  and bug_on_True [simp]: "bug_on True = None"
  by (simp_all add: bug_on_def)

lemma bind_bug_on [simp]: "Option.bind (bug_on c) f = (if c then None else f ())"
  by (simp add: bug_on_def)

section \<open>Lists\<close>

lemma remove1_absent [simp]: "x \<notin> set xs \<Longrightarrow> remove1 x xs = xs"
  by (rule remove1_idem)

lemma distinct_nth_eq: "distinct xs \<Longrightarrow> i < length xs \<Longrightarrow> j < length xs \<Longrightarrow> xs ! i = xs ! j \<Longrightarrow> i = j"
  by (simp add: nth_eq_iff_index_eq)

lemma remove1_last: "distinct xs \<Longrightarrow> xs \<noteq> [] \<Longrightarrow> remove1 (last xs) xs = butlast xs"
  by (induction xs) auto

lemma length_takeWhile_upt:
  assumes "k \<le> n" "\<forall>i < k. P i" "k < n \<Longrightarrow> \<not> P k"
  shows "length (takeWhile P [0..<n]) = k"
proof -
  have "takeWhile P [0..<n] = take k [0..<n]"
    by (rule takeWhile_eq_take_P_nth) (use assms in auto)
  with assms(1) show ?thesis by simp
qed

text \<open>Updating one element by a function that keeps the attribute \<open>g\<close> keeps \<open>g\<close> everywhere.\<close>

lemma nth_update_attr:
  assumes "\<And>x. g (f x) = g x"
  shows "g (xs[i := f (xs ! i)] ! j) = g (xs ! j)"
  using assms by (cases "i < length xs") (auto simp: nth_list_update list_update_beyond)

section \<open>Words\<close>

lemma word_Suc_neq_0: "(w :: 'a::len word) \<noteq> -1 \<Longrightarrow> w + 1 \<noteq> 0"
  by (simp add: add_eq_0_iff2)

lemma unat_Suc_word: "(w :: 'a::len word) \<noteq> -1 \<Longrightarrow> unat (w + 1) = Suc (unat w)"
  by (metis Suc_eq_plus1 add.commute add.inverse_unique unatSuc word_Suc_neq_0)

lemma unat_word_max: "unat (- 1 :: 'a::len word) = 2 ^ LENGTH('a) - 1"
  by (simp add: unsigned_minus_1_eq_mask mask_eq_exp_minus_1)

lemma unat_Suc_less: "(a :: 'a::len word) < b \<Longrightarrow> unat (a + 1) = Suc (unat a)"
  by (metis unat_Suc_word word_order.extremum_strict)

lemma of_nat_unat_word: "of_nat (unat w) = (w :: 'a::len word)"
  by simp

lemma unat_of_nat_small: "n < 2 ^ LENGTH('a) \<Longrightarrow> unat (of_nat n :: 'a::len word) = n"
  by (simp add: unat_of_nat)

lemma unat_pred_word: "(w :: 'a::len word) \<noteq> 0 \<Longrightarrow> unat (w - 1) = unat w - 1"
  by (metis unat_gt_0 unat_minus_one)

end
