(* ===== verification/Lru_Cache.thy ===== *)
theory Lru_Cache
  imports Prelude
begin

text \<open>
  The active-set tracker of \<open>drbd/lru_cache.c\<close> and \<open>drbd/linux/lru_cache.h\<close>.

  An element pointer is the index of the element in \<open>lc_element[]\<close>. The four doubly linked
  lists are lists of such indices (head first), the hash table is the list of its collision
  chains. \<open>list_move\<close> takes an element out of the list it is on and puts it in front of
  another one; \<open>hlist_del\<close> takes it out of the chain it is on, if any. The flag word keeps
  its bit positions, since \<open>lc_try_lock\<close> compares the whole word. An operation that hits a
  \<open>BUG_ON\<close> has the value \<open>None\<close>. Labels, reference counts and the statistics keep their
  widths (\<open>unsigned\<close> is 32 bits, \<open>unsigned long\<close> 64).

  The theory ends with the invariant of the cache, its preservation by every operation, the
  meaning of the lookups, and the behaviour of the transactions.
\<close>

section \<open>Data\<close>

record lc_element =
  lc_refcnt :: u32
  lc_index :: u32
  lc_number :: u32
  lc_new_number :: u32

definition LC_FREE :: u32 where
  "LC_FREE = NOT 0"

definition LC_MAX_ACTIVE :: u32 where
  "LC_MAX_ACTIVE = push_bit 24 1"

record lru_cache =
  lc_lru :: "nat list"
  lc_free :: "nat list"
  lc_in_use :: "nat list"
  lc_to_be_changed :: "nat list"
  lc_nr_elements :: u32
  lc_max_pending_changes :: u32
  lc_pending_changes :: u32
  lc_used :: u32
  lc_hits :: u64
  lc_misses :: u64
  lc_starving :: u64
  lc_locked :: u64
  lc_changed :: u64
  lc_flags :: u64
  lc_slot :: "nat list list"
  lc_elements :: "lc_element list"

text \<open>Flag bits (\<open>__LC_PARANOIA\<close> and so on are bit numbers, \<open>LC_LOCKED\<close> is a mask).\<close>

abbreviation (input) b_LC_PARANOIA :: nat where "b_LC_PARANOIA \<equiv> 0"
abbreviation (input) b_LC_DIRTY :: nat where "b_LC_DIRTY \<equiv> 1"
abbreviation (input) b_LC_LOCKED :: nat where "b_LC_LOCKED \<equiv> 2"
abbreviation (input) b_LC_STARVING :: nat where "b_LC_STARVING \<equiv> 3"

definition LC_PARANOIA :: u64 where "LC_PARANOIA = push_bit b_LC_PARANOIA 1"
definition LC_LOCKED :: u64 where "LC_LOCKED = push_bit b_LC_LOCKED 1"

definition LC_GET_MAY_CHANGE :: u32 where "LC_GET_MAY_CHANGE = 1"
definition LC_GET_MAY_USE_UNCOMMITTED :: u32 where "LC_GET_MAY_USE_UNCOMMITTED = 2"

section \<open>Helpers: lists, chains, elements, the paranoia bit\<close>

datatype lc_list = L_lru | L_free | L_in_use | L_to_be_changed

definition list_del :: "nat \<Rightarrow> lru_cache \<Rightarrow> lru_cache" where
  "list_del i lc = lc\<lparr>lc_lru := remove1 i (lc_lru lc), lc_free := remove1 i (lc_free lc),
     lc_in_use := remove1 i (lc_in_use lc), lc_to_be_changed := remove1 i (lc_to_be_changed lc)\<rparr>"

fun list_add :: "nat \<Rightarrow> lc_list \<Rightarrow> lru_cache \<Rightarrow> lru_cache" where
  "list_add i L_lru lc = lc\<lparr>lc_lru := i # lc_lru lc\<rparr>"
| "list_add i L_free lc = lc\<lparr>lc_free := i # lc_free lc\<rparr>"
| "list_add i L_in_use lc = lc\<lparr>lc_in_use := i # lc_in_use lc\<rparr>"
| "list_add i L_to_be_changed lc = lc\<lparr>lc_to_be_changed := i # lc_to_be_changed lc\<rparr>"

fun list_of :: "lc_list \<Rightarrow> lru_cache \<Rightarrow> nat list" where
  "list_of L_lru lc = lc_lru lc"
| "list_of L_free lc = lc_free lc"
| "list_of L_in_use lc = lc_in_use lc"
| "list_of L_to_be_changed lc = lc_to_be_changed lc"

definition list_move :: "nat \<Rightarrow> lc_list \<Rightarrow> lru_cache \<Rightarrow> lru_cache" where
  "list_move i l lc = list_add i l (list_del i lc)"

definition hlist_del :: "nat \<Rightarrow> lru_cache \<Rightarrow> lru_cache" where
  "hlist_del i lc = lc\<lparr>lc_slot := map (remove1 i) (lc_slot lc)\<rparr>"

definition lc_hash_slot :: "lru_cache \<Rightarrow> u32 \<Rightarrow> nat" where
  "lc_hash_slot lc enr = unat (enr mod lc_nr_elements lc)"

definition hlist_add_head :: "nat \<Rightarrow> nat \<Rightarrow> lru_cache \<Rightarrow> lru_cache" where
  "hlist_add_head i s lc = lc\<lparr>lc_slot := (lc_slot lc)[s := i # lc_slot lc ! s]\<rparr>"

definition upd_element :: "nat \<Rightarrow> (lc_element \<Rightarrow> lc_element) \<Rightarrow> lru_cache \<Rightarrow> lru_cache" where
  "upd_element i f lc = lc\<lparr>lc_elements := (lc_elements lc)[i := f (lc_elements lc ! i)]\<rparr>"

abbreviation el :: "lru_cache \<Rightarrow> nat \<Rightarrow> lc_element" where
  "el lc i \<equiv> lc_elements lc ! i"

definition set_flag :: "nat \<Rightarrow> lru_cache \<Rightarrow> lru_cache" where
  "set_flag b lc = lc\<lparr>lc_flags := set_bit b (lc_flags lc)\<rparr>"

definition clear_flag :: "nat \<Rightarrow> lru_cache \<Rightarrow> lru_cache" where
  "clear_flag b lc = lc\<lparr>lc_flags := unset_bit b (lc_flags lc)\<rparr>"

definition test_flag :: "nat \<Rightarrow> lru_cache \<Rightarrow> bool" where
  "test_flag b lc = bit (lc_flags lc) b"

definition paranoia_entry :: "lru_cache \<Rightarrow> lru_cache option" where
  "paranoia_entry lc = do {
     bug_on (lc_nr_elements lc = 0);
     bug_on (test_flag b_LC_PARANOIA lc);
     Some (set_flag b_LC_PARANOIA lc)
   }"

abbreviation lc_return :: "lru_cache \<Rightarrow> lru_cache" where
  "lc_return \<equiv> clear_flag b_LC_PARANOIA"

definition paranoia_lc_element :: "lru_cache \<Rightarrow> nat \<Rightarrow> unit option" where
  "paranoia_lc_element lc e = bug_on (\<not> (e < length (lc_elements lc)
      \<and> lc_index (el lc e) < lc_nr_elements lc \<and> unat (lc_index (el lc e)) = e))"

section \<open>Operations\<close>

subsection \<open>Locking\<close>

text \<open>
  \<open>lc_try_lock\<close> spins while the flag word is exactly \<open>LC_PARANOIA\<close>, that is while another
  thread is inside an operation and nothing else is flagged; with no other thread it would
  never return, which is the value \<open>None\<close>.
\<close>

definition lc_try_lock :: "lru_cache \<Rightarrow> (lru_cache \<times> bool) option" where
  "lc_try_lock lc =
     (if lc_flags lc = LC_PARANOIA then None
      else if lc_flags lc = 0 then Some (lc\<lparr>lc_flags := LC_LOCKED\<rparr>, True)
      else Some (lc, False))"

definition lc_try_lock_for_transaction :: "lru_cache \<Rightarrow> lru_cache \<times> bool" where
  "lc_try_lock_for_transaction lc = (set_flag b_LC_LOCKED lc, \<not> test_flag b_LC_LOCKED lc)"

definition lc_unlock :: "lru_cache \<Rightarrow> lru_cache" where
  "lc_unlock lc = clear_flag b_LC_LOCKED (clear_flag b_LC_DIRTY lc)"

subsection \<open>Creation and reset\<close>

definition fresh_element :: "nat \<Rightarrow> lc_element" where
  "fresh_element i = \<lparr>lc_refcnt = 0, lc_index = of_nat i, lc_number = LC_FREE, lc_new_number = LC_FREE\<rparr>"

text \<open>
  \<open>lc_create\<close>: what memory allocation returns is an argument. \<open>alloc_meta\<close> says whether the
  slot array, the element array and the cache object could be allocated (in that order),
  \<open>alloc_obj i\<close> whether the \<open>i\<close>-th tracked object could. The result also lists the objects
  allocated and the objects handed back to the slab cache, so that leaks are visible.
  \<open>Create_Invalid_Access\<close> is the read of \<open>element[(unsigned)-1]\<close> that the cleanup loop does
  when the very first object cannot be allocated.
\<close>

datatype create_result =
    Created lru_cache
  | Create_Null "nat list" "nat list"
  | Create_Invalid_Access

definition first_failed :: "(nat \<Rightarrow> bool) \<Rightarrow> nat \<Rightarrow> nat" where
  "first_failed alloc_obj n = length (takeWhile alloc_obj [0..<n])"

definition cleanup_frees :: "nat \<Rightarrow> nat list" where
  "cleanup_frees k = rev [1..<k]"

definition lc_fresh :: "u32 \<Rightarrow> u32 \<Rightarrow> lru_cache" where
  "lc_fresh max_pending e_count =
     \<lparr>lc_lru = [], lc_free = rev [0..<unat e_count], lc_in_use = [], lc_to_be_changed = [],
      lc_nr_elements = e_count, lc_max_pending_changes = max_pending, lc_pending_changes = 0,
      lc_used = 0, lc_hits = 0, lc_misses = 0, lc_starving = 0, lc_locked = 0, lc_changed = 0,
      lc_flags = 0, lc_slot = replicate (unat e_count) [],
      lc_elements = map fresh_element [0..<unat e_count]\<rparr>"

definition lc_create ::
  "u32 \<Rightarrow> bool \<times> bool \<times> bool \<Rightarrow> (nat \<Rightarrow> bool) \<Rightarrow> u32 \<Rightarrow> u32 \<Rightarrow> u32 \<Rightarrow> create_result" where
  "lc_create cache_obj_size alloc_meta alloc_obj max_pending e_count e_size =
     (if cache_obj_size < e_size then Create_Null [] []
      else if e_count > LC_MAX_ACTIVE then Create_Null [] []
      else case alloc_meta of (slot_ok, element_ok, lc_ok) \<Rightarrow>
        if \<not> slot_ok \<or> \<not> element_ok \<or> \<not> lc_ok then Create_Null [] []
        else let k = first_failed alloc_obj (unat e_count) in
          if k = unat e_count then Created (lc_fresh max_pending e_count)
          else if k = 0 then Create_Invalid_Access
          else Create_Null [0..<k] (cleanup_frees k))"

definition lc_reset :: "lru_cache \<Rightarrow> lru_cache" where
  "lc_reset lc = lc\<lparr>lc_in_use := [], lc_lru := [], lc_to_be_changed := [],
     lc_free := rev [0..<unat (lc_nr_elements lc)],
     lc_used := 0, lc_hits := 0, lc_misses := 0, lc_starving := 0, lc_locked := 0, lc_changed := 0,
     lc_pending_changes := 0, lc_flags := 0,
     lc_slot := replicate (unat (lc_nr_elements lc)) [],
     lc_elements := map fresh_element [0..<unat (lc_nr_elements lc)]\<rparr>"

subsection \<open>Lookup\<close>

fun chain_find :: "lc_element list \<Rightarrow> u32 \<Rightarrow> bool \<Rightarrow> nat list \<Rightarrow> nat option" where
  "chain_find els enr include_changing [] = None"
| "chain_find els enr include_changing (e # es) =
     (if lc_new_number (els ! e) \<noteq> enr then chain_find els enr include_changing es
      else if lc_new_number (els ! e) = lc_number (els ! e) \<or> include_changing then Some e
      else None)"

definition lc_find_gen :: "lru_cache \<Rightarrow> u32 \<Rightarrow> bool \<Rightarrow> nat option option" where
  "lc_find_gen lc enr include_changing = do {
     bug_on (lc_nr_elements lc = 0);
     Some (chain_find (lc_elements lc) enr include_changing (lc_slot lc ! lc_hash_slot lc enr))
   }"

definition lc_find :: "lru_cache \<Rightarrow> u32 \<Rightarrow> nat option option" where
  "lc_find lc enr = lc_find_gen lc enr False"

definition lc_is_used :: "lru_cache \<Rightarrow> u32 \<Rightarrow> bool option" where
  "lc_is_used lc enr = do {
     e \<leftarrow> lc_find_gen lc enr True;
     Some (case e of None \<Rightarrow> False | Some i \<Rightarrow> lc_refcnt (el lc i) \<noteq> 0)
   }"

definition lc_element_by_index :: "lru_cache \<Rightarrow> u32 \<Rightarrow> nat option" where
  "lc_element_by_index lc i = do {
     bug_on (i \<ge> lc_nr_elements lc);
     bug_on (\<not> unat i < length (lc_elements lc));
     bug_on (lc_index (el lc (unat i)) \<noteq> i);
     Some (unat i)
   }"

definition lc_index_of :: "lru_cache \<Rightarrow> nat \<Rightarrow> u32 option" where
  "lc_index_of lc e = do { paranoia_lc_element lc e; Some (lc_index (el lc e)) }"

subsection \<open>Changing the set\<close>

definition lc_del :: "lru_cache \<Rightarrow> nat \<Rightarrow> lru_cache option" where
  "lc_del lc e = do {
     lc \<leftarrow> paranoia_entry lc;
     paranoia_lc_element lc e;
     bug_on (lc_refcnt (el lc e) \<noteq> 0);
     let lc = upd_element e (\<lambda>x. x\<lparr>lc_number := LC_FREE, lc_new_number := LC_FREE\<rparr>) lc;
     let lc = list_move e L_free (hlist_del e lc);
     Some (lc_return lc)
   }"

definition lc_prepare_for_change :: "lru_cache \<Rightarrow> u32 \<Rightarrow> (lru_cache \<times> nat option) option" where
  "lc_prepare_for_change lc new_number =
     (case (if lc_free lc \<noteq> [] then Some (hd (lc_free lc))
            else if lc_lru lc \<noteq> [] then Some (last (lc_lru lc)) else None) of
        None \<Rightarrow> Some (lc, None)
      | Some e \<Rightarrow> do {
          paranoia_lc_element lc e;
          let lc = upd_element e (\<lambda>x. x\<lparr>lc_new_number := new_number\<rparr>) lc;
          let lc = hlist_del e lc;
          let lc = hlist_add_head e (lc_hash_slot lc new_number) lc;
          Some (list_move e L_to_be_changed lc, Some e)
        })"

definition lc_unused_element_available :: "lru_cache \<Rightarrow> bool" where
  "lc_unused_element_available lc =
     (if lc_free lc \<noteq> [] then True else if lc_lru lc \<noteq> [] then True else False)"

definition inc_refcnt :: "nat \<Rightarrow> lru_cache \<Rightarrow> lru_cache" where
  "inc_refcnt e = upd_element e (\<lambda>x. x\<lparr>lc_refcnt := lc_refcnt x + 1\<rparr>)"

definition lc_get_change :: "lru_cache \<Rightarrow> u32 \<Rightarrow> (lru_cache \<times> nat option) option" where
  "lc_get_change lc enr = do {
     (lc, r) \<leftarrow> lc_prepare_for_change lc enr;
     case r of
       None \<Rightarrow> None
     | Some e \<Rightarrow> do {
         let lc = inc_refcnt e (clear_flag b_LC_STARVING lc);
         bug_on (lc_refcnt (el lc e) \<noteq> 1);
         let lc = lc\<lparr>lc_used := lc_used lc + 1, lc_pending_changes := lc_pending_changes lc + 1\<rparr>;
         Some (lc_return lc, Some e)
       }
   }"

definition lc_get_miss :: "lru_cache \<Rightarrow> u32 \<Rightarrow> u32 \<Rightarrow> (lru_cache \<times> nat option) option" where
  "lc_get_miss lc enr gflags =
     (let lc = lc\<lparr>lc_misses := lc_misses lc + 1\<rparr> in
      if gflags AND LC_GET_MAY_CHANGE = 0 then Some (lc_return lc, None)
      else let lc = set_flag b_LC_DIRTY lc in
        if test_flag b_LC_LOCKED lc then Some (lc_return (lc\<lparr>lc_locked := lc_locked lc + 1\<rparr>), None)
        else if \<not> lc_unused_element_available lc then Some (lc_return (set_flag b_LC_STARVING lc), None)
        else if lc_pending_changes lc \<ge> lc_max_pending_changes lc then Some (lc_return lc, None)
        else lc_get_change lc enr)"

definition lc_get_hit :: "lru_cache \<Rightarrow> nat \<Rightarrow> u32 \<Rightarrow> lru_cache \<times> nat option" where
  "lc_get_hit lc e gflags =
     (if lc_new_number (el lc e) \<noteq> lc_number (el lc e) then
        (if gflags AND LC_GET_MAY_USE_UNCOMMITTED = 0 then (lc_return lc, None)
         else (lc_return ((inc_refcnt e lc)\<lparr>lc_hits := lc_hits lc + 1\<rparr>), Some e))
      else
        let lc' = lc\<lparr>lc_hits := lc_hits lc + 1\<rparr>;
            lc'' = (if lc_refcnt (el lc' e) = 0
                    then (inc_refcnt e lc')\<lparr>lc_used := lc_used lc' + 1\<rparr> else inc_refcnt e lc')
        in (lc_return (list_move e L_in_use lc''), Some e))"

definition lc_get_gen :: "lru_cache \<Rightarrow> u32 \<Rightarrow> u32 \<Rightarrow> (lru_cache \<times> nat option) option" where
  "lc_get_gen lc enr gflags = do {
     lc \<leftarrow> paranoia_entry lc;
     if test_flag b_LC_STARVING lc
     then Some (lc_return (lc\<lparr>lc_starving := lc_starving lc + 1\<rparr>), None)
     else do {
       r \<leftarrow> lc_find_gen lc enr True;
       case r of Some e \<Rightarrow> Some (lc_get_hit lc e gflags) | None \<Rightarrow> lc_get_miss lc enr gflags
     }
   }"

definition lc_get :: "lru_cache \<Rightarrow> u32 \<Rightarrow> (lru_cache \<times> nat option) option" where
  "lc_get lc enr = lc_get_gen lc enr LC_GET_MAY_CHANGE"

definition lc_get_cumulative :: "lru_cache \<Rightarrow> u32 \<Rightarrow> (lru_cache \<times> nat option) option" where
  "lc_get_cumulative lc enr = lc_get_gen lc enr (LC_GET_MAY_CHANGE OR LC_GET_MAY_USE_UNCOMMITTED)"

definition lc_try_get :: "lru_cache \<Rightarrow> u32 \<Rightarrow> (lru_cache \<times> nat option) option" where
  "lc_try_get lc enr = lc_get_gen lc enr 0"

definition commit_element :: "nat \<Rightarrow> lru_cache \<Rightarrow> lru_cache" where
  "commit_element e lc =
     list_move e L_in_use (upd_element e (\<lambda>x. x\<lparr>lc_number := lc_new_number x\<rparr>)
       (lc\<lparr>lc_changed := lc_changed lc + 1\<rparr>))"

definition lc_committed :: "lru_cache \<Rightarrow> lru_cache option" where
  "lc_committed lc = do {
     lc \<leftarrow> paranoia_entry lc;
     let lc = fold commit_element (lc_to_be_changed lc) lc;
     Some (lc_return (lc\<lparr>lc_pending_changes := 0\<rparr>))
   }"

definition lc_put :: "lru_cache \<Rightarrow> nat \<Rightarrow> (lru_cache \<times> u32) option" where
  "lc_put lc e = do {
     lc \<leftarrow> paranoia_entry lc;
     paranoia_lc_element lc e;
     bug_on (lc_refcnt (el lc e) = 0);
     bug_on (lc_number (el lc e) \<noteq> lc_new_number (el lc e));
     let lc = upd_element e (\<lambda>x. x\<lparr>lc_refcnt := lc_refcnt x - 1\<rparr>) lc;
     let lc = (if lc_refcnt (el lc e) = 0
               then clear_flag b_LC_STARVING ((list_move e L_lru lc)\<lparr>lc_used := lc_used lc - 1\<rparr>)
               else lc);
     Some (lc_return lc, lc_refcnt (el lc e))
   }"

definition lc_set :: "lru_cache \<Rightarrow> u32 \<Rightarrow> int \<Rightarrow> lru_cache option" where
  "lc_set lc enr index =
     (if index < 0 \<or> index \<ge> uint (lc_nr_elements lc) then Some lc
      else do {
        e \<leftarrow> lc_element_by_index lc (word_of_int index);
        bug_on (lc_number (el lc e) \<noteq> lc_new_number (el lc e));
        bug_on (lc_refcnt (el lc e) \<noteq> 0);
        let lc = upd_element e (\<lambda>x. x\<lparr>lc_number := enr, lc_new_number := enr\<rparr>) lc;
        let lc = hlist_del e lc;
        if enr = LC_FREE then Some (list_move e L_free lc)
        else Some (list_move e L_lru (hlist_add_head e (lc_hash_slot lc enr) lc))
      })"

section \<open>Field rules\<close>

lemmas lc_helper_defs = list_del_def list_move_def hlist_del_def hlist_add_head_def upd_element_def
  set_flag_def clear_flag_def inc_refcnt_def lc_hash_slot_def

lemma test_flag_set [simp]: "b < 64 \<Longrightarrow> test_flag c (set_flag b lc) \<longleftrightarrow> c = b \<or> test_flag c lc"
  by (auto simp: test_flag_def set_flag_def bit_set_bit_iff)

lemma test_flag_clear [simp]: "test_flag c (clear_flag b lc) \<longleftrightarrow> c \<noteq> b \<and> test_flag c lc"
  by (auto simp: test_flag_def clear_flag_def bit_unset_bit_iff)

lemma test_flag_frame [simp]:
  "test_flag c (lc\<lparr>lc_hits := a\<rparr>) = test_flag c lc"
  "test_flag c (lc\<lparr>lc_misses := a\<rparr>) = test_flag c lc"
  "test_flag c (lc\<lparr>lc_starving := a\<rparr>) = test_flag c lc"
  "test_flag c (lc\<lparr>lc_locked := a\<rparr>) = test_flag c lc"
  "test_flag c (lc\<lparr>lc_changed := a\<rparr>) = test_flag c lc"
  "test_flag c (lc\<lparr>lc_used := u\<rparr>) = test_flag c lc"
  "test_flag c (lc\<lparr>lc_pending_changes := u\<rparr>) = test_flag c lc"
  by (simp_all add: test_flag_def)

lemma list_add_fields [simp]:
  "lc_nr_elements (list_add i l lc) = lc_nr_elements lc"
  "lc_max_pending_changes (list_add i l lc) = lc_max_pending_changes lc"
  "lc_pending_changes (list_add i l lc) = lc_pending_changes lc"
  "lc_used (list_add i l lc) = lc_used lc"
  "lc_flags (list_add i l lc) = lc_flags lc"
  "lc_slot (list_add i l lc) = lc_slot lc"
  "lc_elements (list_add i l lc) = lc_elements lc"
  by (cases l; simp)+

lemma element_helper_fields [simp]:
  "lc_nr_elements (upd_element i f lc) = lc_nr_elements lc"
  "lc_max_pending_changes (upd_element i f lc) = lc_max_pending_changes lc"
  "lc_pending_changes (upd_element i f lc) = lc_pending_changes lc"
  "lc_used (upd_element i f lc) = lc_used lc"
  "lc_flags (upd_element i f lc) = lc_flags lc"
  "lc_slot (upd_element i f lc) = lc_slot lc"
  "length (lc_elements (upd_element i f lc)) = length (lc_elements lc)"
  by (simp_all add: upd_element_def)

lemma hlist_helper_fields [simp]:
  "lc_nr_elements (hlist_del i lc) = lc_nr_elements lc"
  "lc_max_pending_changes (hlist_del i lc) = lc_max_pending_changes lc"
  "lc_pending_changes (hlist_del i lc) = lc_pending_changes lc"
  "lc_used (hlist_del i lc) = lc_used lc"
  "lc_flags (hlist_del i lc) = lc_flags lc"
  "lc_elements (hlist_del i lc) = lc_elements lc"
  "lc_nr_elements (hlist_add_head i s lc) = lc_nr_elements lc"
  "lc_max_pending_changes (hlist_add_head i s lc) = lc_max_pending_changes lc"
  "lc_pending_changes (hlist_add_head i s lc) = lc_pending_changes lc"
  "lc_used (hlist_add_head i s lc) = lc_used lc"
  "lc_flags (hlist_add_head i s lc) = lc_flags lc"
  "lc_elements (hlist_add_head i s lc) = lc_elements lc"
  by (simp_all add: hlist_del_def hlist_add_head_def)

lemma list_add_lists [simp]:
  "lc_lru (list_add i l lc) = (if l = L_lru then i # lc_lru lc else lc_lru lc)"
  "lc_free (list_add i l lc) = (if l = L_free then i # lc_free lc else lc_free lc)"
  "lc_in_use (list_add i l lc) = (if l = L_in_use then i # lc_in_use lc else lc_in_use lc)"
  "lc_to_be_changed (list_add i l lc) =
     (if l = L_to_be_changed then i # lc_to_be_changed lc else lc_to_be_changed lc)"
  by (cases l; simp)+

section \<open>The invariant\<close>

abbreviation nr :: "lru_cache \<Rightarrow> nat" where
  "nr lc \<equiv> length (lc_elements lc)"

abbreviation labels :: "lru_cache \<Rightarrow> nat \<Rightarrow> u32" where
  "labels lc i \<equiv> lc_new_number (el lc i)"

definition lc_shape :: "lru_cache \<Rightarrow> bool" where
  "lc_shape lc \<longleftrightarrow> lc_nr_elements lc \<noteq> 0 \<and> lc_nr_elements lc \<le> LC_MAX_ACTIVE
     \<and> nr lc = unat (lc_nr_elements lc) \<and> length (lc_slot lc) = nr lc
     \<and> (\<forall>i < nr lc. unat (lc_index (el lc i)) = i)"

definition lc_lists :: "lru_cache \<Rightarrow> bool" where
  "lc_lists lc \<longleftrightarrow>
     distinct (lc_lru lc @ lc_free lc @ lc_in_use lc @ lc_to_be_changed lc)
     \<and> set (lc_lru lc) \<union> set (lc_free lc) \<union> set (lc_in_use lc) \<union> set (lc_to_be_changed lc) = {..<nr lc}"

text \<open>What an element on each list looks like.\<close>

fun el_state :: "lc_list \<Rightarrow> lc_element \<Rightarrow> bool" where
  "el_state L_free x \<longleftrightarrow> lc_refcnt x = 0 \<and> lc_number x = LC_FREE \<and> lc_new_number x = LC_FREE"
| "el_state L_lru x \<longleftrightarrow> lc_refcnt x = 0 \<and> lc_number x = lc_new_number x \<and> lc_new_number x \<noteq> LC_FREE"
| "el_state L_in_use x \<longleftrightarrow> lc_refcnt x \<noteq> 0 \<and> lc_number x = lc_new_number x \<and> lc_new_number x \<noteq> LC_FREE"
| "el_state L_to_be_changed x \<longleftrightarrow> lc_refcnt x \<noteq> 0 \<and> lc_number x \<noteq> lc_new_number x \<and> lc_new_number x \<noteq> LC_FREE"

definition lc_states :: "lru_cache \<Rightarrow> bool" where
  "lc_states lc \<longleftrightarrow> (\<forall>l. \<forall>i \<in> set (list_of l lc). el_state l (el lc i))"

definition lc_hash :: "lru_cache \<Rightarrow> bool" where
  "lc_hash lc \<longleftrightarrow>
     (\<forall>s < nr lc. distinct (lc_slot lc ! s)
        \<and> set (lc_slot lc ! s) = {i. i < nr lc \<and> labels lc i \<noteq> LC_FREE \<and> lc_hash_slot lc (labels lc i) = s})
     \<and> (\<forall>i < nr lc. \<forall>j < nr lc. labels lc i \<noteq> LC_FREE \<longrightarrow> labels lc i = labels lc j \<longrightarrow> i = j)"

definition lc_counts :: "lru_cache \<Rightarrow> bool" where
  "lc_counts lc \<longleftrightarrow>
     unat (lc_used lc) = length (lc_in_use lc) + length (lc_to_be_changed lc)
     \<and> unat (lc_pending_changes lc) = length (lc_to_be_changed lc)
     \<and> lc_pending_changes lc \<le> lc_max_pending_changes lc"

definition lc_inv :: "lru_cache \<Rightarrow> bool" where
  "lc_inv lc \<longleftrightarrow> lc_shape lc \<and> lc_lists lc \<and> lc_states lc \<and> lc_hash lc \<and> lc_counts lc
     \<and> \<not> test_flag b_LC_PARANOIA lc"

text \<open>No reference count is about to wrap around.\<close>

definition refcnt_room :: "lru_cache \<Rightarrow> bool" where
  "refcnt_room lc \<longleftrightarrow> (\<forall>i < nr lc. lc_refcnt (el lc i) \<noteq> - 1)"

lemma lc_invD:
  assumes "lc_inv lc"
  shows "lc_shape lc" "lc_lists lc" "lc_states lc" "lc_hash lc" "lc_counts lc"
    "\<not> test_flag b_LC_PARANOIA lc"
  using assms by (auto simp: lc_inv_def)

lemma paranoia_entry_inv [simp]:
  "lc_inv lc \<Longrightarrow> paranoia_entry lc = Some (set_flag b_LC_PARANOIA lc)"
  by (simp add: paranoia_entry_def lc_inv_def lc_shape_def)

lemma LC_MAX_ACTIVE_unat: "unat LC_MAX_ACTIVE = 2 ^ 24"
  by (simp add: LC_MAX_ACTIVE_def)

lemma lc_nr_bound: "lc_shape lc \<Longrightarrow> nr lc \<le> 2 ^ 24"
  by (metis LC_MAX_ACTIVE_unat lc_shape_def word_le_nat_alt)

lemma lc_hash_slot_less: "lc_shape lc \<Longrightarrow> lc_hash_slot lc enr < nr lc"
  by (simp add: lc_shape_def lc_hash_slot_def unat_mod_distrib unat_gt_0)

lemma paranoia_lc_element_inv [simp]:
  "lc_shape lc \<Longrightarrow> paranoia_lc_element lc e = (if e < nr lc then Some () else None)"
  by (auto simp: paranoia_lc_element_def lc_shape_def word_less_nat_alt bug_on_def)

section \<open>What the lookups mean\<close>

lemma chain_find_sound:
  "chain_find els enr inc es = Some e \<Longrightarrow>
     e \<in> set es \<and> lc_new_number (els ! e) = enr \<and> (inc \<or> lc_number (els ! e) = enr)"
  by (induction es) (auto split: if_splits)

lemma chain_find_complete:
  assumes "e \<in> set es" "lc_new_number (els ! e) = enr"
    and "inc \<or> lc_number (els ! e) = enr"
    and "\<forall>x \<in> set es. lc_new_number (els ! x) = enr \<longrightarrow> x = e"
  shows "chain_find els enr inc es = Some e"
  using assms(1,4)
proof (induction es)
  case Nil
  then show ?case by simp
next
  case (Cons x es)
  show ?case
  proof (cases "x = e")
    case True
    with assms(2,3) show ?thesis by fastforce
  next
    case False
    with Cons.prems have "lc_new_number (els ! x) \<noteq> enr" "e \<in> set es" by auto
    with Cons show ?thesis by simp
  qed
qed

lemma lc_find_gen_iff:
  assumes "lc_inv lc" "enr \<noteq> LC_FREE"
  shows "lc_find_gen lc enr inc = Some (Some e) \<longleftrightarrow>
    e < nr lc \<and> labels lc e = enr \<and> (inc \<or> lc_number (el lc e) = enr)"
proof -
  from assms(1) have sh: "lc_shape lc" and h: "lc_hash lc" by (auto simp: lc_inv_def)
  let ?s = "lc_hash_slot lc enr"
  have s: "?s < nr lc" using sh by (rule lc_hash_slot_less)
  with h have chain: "set (lc_slot lc ! ?s) =
      {i. i < nr lc \<and> labels lc i \<noteq> LC_FREE \<and> lc_hash_slot lc (labels lc i) = ?s}"
    by (simp add: lc_hash_def)
  have uniq: "\<forall>x \<in> set (lc_slot lc ! ?s). labels lc x = enr \<longrightarrow> x = e"
    if "e < nr lc" "labels lc e = enr"
    using h that assms(2) chain by (auto simp: lc_hash_def)
  have eq: "lc_find_gen lc enr inc = Some (chain_find (lc_elements lc) enr inc (lc_slot lc ! ?s))"
    using sh by (simp add: lc_find_gen_def lc_shape_def)
  show ?thesis
  proof
    assume "lc_find_gen lc enr inc = Some (Some e)"
    then have "chain_find (lc_elements lc) enr inc (lc_slot lc ! ?s) = Some e" by (simp add: eq)
    from chain_find_sound[OF this] chain
    show "e < nr lc \<and> labels lc e = enr \<and> (inc \<or> lc_number (el lc e) = enr)" by blast
  next
    assume e: "e < nr lc \<and> labels lc e = enr \<and> (inc \<or> lc_number (el lc e) = enr)"
    with chain assms(2) have mem: "e \<in> set (lc_slot lc ! ?s)" by auto
    from e have e': "e < nr lc" "labels lc e = enr" "inc \<or> lc_number (el lc e) = enr" by blast+
    have "chain_find (lc_elements lc) enr inc (lc_slot lc ! ?s) = Some e"
      by (rule chain_find_complete[OF mem e'(2,3) uniq[OF e'(1,2)]])
    then show "lc_find_gen lc enr inc = Some (Some e)" by (simp only: eq)
  qed
qed

lemma lc_find_gen_Some: "lc_inv lc \<Longrightarrow> \<exists>r. lc_find_gen lc enr inc = Some r"
  by (simp add: lc_find_gen_def lc_inv_def lc_shape_def)

lemma lc_find_gen_None_iff:
  assumes "lc_inv lc" "enr \<noteq> LC_FREE"
  shows "lc_find_gen lc enr True = Some None \<longleftrightarrow> (\<forall>i < nr lc. labels lc i \<noteq> enr)"
proof -
  obtain r where r: "lc_find_gen lc enr True = Some r"
    using lc_find_gen_Some[OF assms(1)] by blast
  show ?thesis
  proof (cases r)
    case None
    then show ?thesis using r lc_find_gen_iff[OF assms, of True] by auto
  next
    case (Some e)
    then show ?thesis using r lc_find_gen_iff[OF assms, of True e] by auto
  qed
qed

section \<open>Preservation: the parts\<close>

text \<open>
  \<open>lc_ok\<close> is the invariant without the paranoia bit, which is set while an operation runs.
  Flags and statistics do not matter for it.
\<close>

definition lc_ok :: "lru_cache \<Rightarrow> bool" where
  "lc_ok lc \<longleftrightarrow> lc_shape lc \<and> lc_lists lc \<and> lc_states lc \<and> lc_hash lc \<and> lc_counts lc"

lemma lc_inv_alt: "lc_inv lc \<longleftrightarrow> lc_ok lc \<and> \<not> test_flag b_LC_PARANOIA lc"
  by (auto simp: lc_inv_def lc_ok_def)

lemma all_lc_list: "(\<forall>l. P l) \<longleftrightarrow> P L_lru \<and> P L_free \<and> P L_in_use \<and> P L_to_be_changed"
  by (metis lc_list.exhaust)

lemmas lc_part_defs = lc_shape_def lc_lists_def lc_states_def lc_hash_def lc_counts_def

lemma lc_ok_frame [simp]:
  "lc_ok (lc\<lparr>lc_flags := w\<rparr>) = lc_ok lc"
  "lc_ok (lc\<lparr>lc_hits := a\<rparr>) = lc_ok lc"
  "lc_ok (lc\<lparr>lc_misses := a\<rparr>) = lc_ok lc"
  "lc_ok (lc\<lparr>lc_starving := a\<rparr>) = lc_ok lc"
  "lc_ok (lc\<lparr>lc_locked := a\<rparr>) = lc_ok lc"
  "lc_ok (lc\<lparr>lc_changed := a\<rparr>) = lc_ok lc"
  "lc_ok (set_flag b lc) = lc_ok lc"
  "lc_ok (clear_flag b lc) = lc_ok lc"
  by (simp_all add: lc_ok_def lc_part_defs all_lc_list lc_hash_slot_def set_flag_def clear_flag_def)

lemma lc_shape_helpers [simp]:
  "lc_shape (list_move i l lc) = lc_shape lc"
  "lc_shape (hlist_del i lc) = lc_shape lc"
  "lc_shape (hlist_add_head i s lc) = lc_shape lc"
  by (simp_all add: lc_shape_def lc_helper_defs)

lemma lc_shape_upd_element [simp]:
  assumes "\<And>x. lc_index (f x) = lc_index x"
  shows "lc_shape (upd_element i f lc) = lc_shape lc"
  by (simp add: lc_shape_def upd_element_def nth_update_attr[of lc_index, OF assms])

lemma lc_lists_helpers [simp]:
  "lc_lists (hlist_del i lc) = lc_lists lc"
  "lc_lists (hlist_add_head i s lc) = lc_lists lc"
  "lc_lists (upd_element i f lc) = lc_lists lc"
  by (simp_all add: lc_lists_def lc_helper_defs)

lemma lc_lists_list_move:
  assumes "lc_lists lc" "i < nr lc"
  shows "lc_lists (list_move i l lc)"
  using assms by (cases l) (auto simp: lc_lists_def list_move_def list_del_def)

lemma list_move_fields [simp]:
  "lc_nr_elements (list_move i l lc) = lc_nr_elements lc"
  "lc_max_pending_changes (list_move i l lc) = lc_max_pending_changes lc"
  "lc_pending_changes (list_move i l lc) = lc_pending_changes lc"
  "lc_used (list_move i l lc) = lc_used lc"
  "lc_flags (list_move i l lc) = lc_flags lc"
  "lc_slot (list_move i l lc) = lc_slot lc"
  "lc_elements (list_move i l lc) = lc_elements lc"
  by (simp_all add: list_move_def list_del_def)

lemma set_list_of_move:
  assumes "lc_lists lc"
  shows "set (list_of m (list_move i l lc)) =
    (if m = l then insert i (set (list_of m lc)) else set (list_of m lc) - {i})"
  using assms by (cases m) (auto simp: lc_lists_def list_move_def list_del_def)

lemma lc_lists_unique:
  "lc_lists lc \<Longrightarrow> i \<in> set (list_of m lc) \<Longrightarrow> i \<in> set (list_of l lc) \<Longrightarrow> m = l"
  by (cases m; cases l; auto simp: lc_lists_def)

lemma length_list_of_move:
  assumes "lc_lists lc" "i \<in> set (list_of k lc)"
  shows "length (list_of m (list_move i l lc)) =
    length (list_of m lc) - (if m = k then 1 else 0) + (if m = l then 1 else 0)"
proof -
  have "length (list_of m (list_del i lc)) = length (list_of m lc) - (if m = k then 1 else 0)"
    using lc_lists_unique[OF assms(1,2), of m] assms(2)
    by (cases m) (auto simp: list_del_def length_remove1)
  then show ?thesis by (cases m; cases l) (simp_all add: list_move_def)
qed

lemma lc_lists_cases:
  assumes "lc_lists lc" "i < nr lc"
  obtains l where "i \<in> set (list_of l lc)"
proof -
  from assms have "i \<in> set (lc_lru lc) \<union> set (lc_free lc) \<union> set (lc_in_use lc) \<union> set (lc_to_be_changed lc)"
    by (simp add: lc_lists_def)
  with that[of L_lru] that[of L_free] that[of L_in_use] that[of L_to_be_changed]
  show thesis by auto
qed

lemma lc_lists_less: "lc_lists lc \<Longrightarrow> i \<in> set (list_of l lc) \<Longrightarrow> i < nr lc"
  by (cases l) (auto simp: lc_lists_def)

text \<open>Which list an element is on follows from its contents, and conversely.\<close>

lemma lc_states_list:
  assumes "lc_lists lc" "lc_states lc" "i < nr lc"
  shows "i \<in> set (list_of l lc) \<longleftrightarrow> el_state l (el lc i)"
proof
  assume "i \<in> set (list_of l lc)"
  with assms(2) show "el_state l (el lc i)" by (auto simp: lc_states_def)
next
  assume l: "el_state l (el lc i)"
  obtain m where m: "i \<in> set (list_of m lc)" using assms(1,3) by (rule lc_lists_cases)
  with assms(2) have "el_state m (el lc i)" by (auto simp: lc_states_def)
  with l have "m = l" by (cases m; cases l; simp)
  with m show "i \<in> set (list_of l lc)" by simp
qed

lemma list_of_frame [simp]:
  "list_of m (upd_element i f lc) = list_of m lc"
  "list_of m (hlist_del i lc) = list_of m lc"
  "list_of m (hlist_add_head i s lc) = list_of m lc"
  by (cases m; simp add: upd_element_def hlist_del_def hlist_add_head_def)+

lemma el_upd_element:
  "i < nr lc \<Longrightarrow> el (upd_element i f lc) j = (if j = i then f (el lc i) else el lc j)"
  by (simp add: upd_element_def nth_list_update)

lemma lc_states_move:
  assumes "lc_lists lc" "lc_states lc" "i < nr lc" "el_state l (f (el lc i))"
  shows "lc_states (list_move i l (upd_element i f lc))"
proof -
  have li: "lc_lists (upd_element i f lc)" using assms(1) by simp
  show ?thesis
    unfolding lc_states_def set_list_of_move[OF li] list_of_frame list_move_fields
      el_upd_element[OF assms(3)]
    using assms(2,4) by (auto simp: lc_states_def)
qed

lemma lc_states_upd:
  assumes "lc_lists lc" "lc_states lc" "i \<in> set (list_of l lc)" "el_state l (f (el lc i))"
  shows "lc_states (upd_element i f lc)"
  unfolding lc_states_def list_of_frame el_upd_element[OF lc_lists_less[OF assms(1,3)]]
  using assms(2,4) lc_lists_unique[OF assms(1,3)] by (auto simp: lc_states_def)

lemma lc_hash_frame [simp]:
  "lc_hash (list_move i l lc) = lc_hash lc"
  by (simp add: lc_hash_def lc_hash_slot_def)

lemma lc_hash_upd_element:
  assumes "\<And>x. lc_new_number (f x) = lc_new_number x"
  shows "lc_hash (upd_element i f lc) = lc_hash lc"
proof -
  have "labels (upd_element i f lc) j = labels lc j" for j
    by (simp add: upd_element_def nth_update_attr[of lc_new_number, OF assms])
  then show ?thesis by (simp add: lc_hash_def lc_hash_slot_def upd_element_def)
qed

lemma lc_hash_relabel:
  assumes "lc_shape lc" "lc_hash lc" "i < nr lc" "enr \<noteq> LC_FREE"
    and "\<forall>j < nr lc. labels lc j \<noteq> enr"
    and "\<And>x. lc_new_number (f x) = enr"
  shows "lc_hash (hlist_add_head i (lc_hash_slot lc enr) (hlist_del i (upd_element i f lc)))"
  using assms lc_hash_slot_less[OF assms(1), of enr]
  by (auto simp: lc_hash_def lc_hash_slot_def hlist_add_head_def hlist_del_def upd_element_def
      lc_shape_def nth_list_update)

lemma lc_hash_unlabel:
  assumes "lc_shape lc" "lc_hash lc" "i < nr lc" "\<And>x. lc_new_number (f x) = LC_FREE"
  shows "lc_hash (hlist_del i (upd_element i f lc))"
  using assms
  by (auto simp: lc_hash_def lc_hash_slot_def hlist_del_def upd_element_def lc_shape_def nth_list_update)

section \<open>Preservation: the operations\<close>

definition occ :: "lc_list \<Rightarrow> nat" where
  "occ l = (if l = L_in_use \<or> l = L_to_be_changed then 1 else 0)"

definition pend :: "lc_list \<Rightarrow> nat" where
  "pend l = (if l = L_to_be_changed then 1 else 0)"

lemma lc_counts_move:
  assumes li: "lc_lists lc" and co: "lc_counts lc" and k: "i \<in> set (list_of k lc)"
    and u: "unat u + occ k = unat (lc_used lc) + occ l"
    and p: "unat p + pend k = unat (lc_pending_changes lc) + pend l" "p \<le> lc_max_pending_changes lc"
  shows "lc_counts ((list_move i l lc)\<lparr>lc_used := u, lc_pending_changes := p\<rparr>)"
proof -
  have len: "0 < length (list_of k lc)" using k by (cases "list_of k lc") auto
  show ?thesis
    using co u p len length_list_of_move[OF li k, of L_in_use l]
      length_list_of_move[OF li k, of L_to_be_changed l]
    by (cases k; cases l; clarsimp simp: lc_counts_def occ_def pend_def simp del: length_greater_0_conv; linarith)
qed

lemma lc_parts_counters [simp]:
  "lc_shape (lc\<lparr>lc_used := u, lc_pending_changes := p\<rparr>) = lc_shape lc"
  "lc_lists (lc\<lparr>lc_used := u, lc_pending_changes := p\<rparr>) = lc_lists lc"
  "lc_states (lc\<lparr>lc_used := u, lc_pending_changes := p\<rparr>) = lc_states lc"
  "lc_hash (lc\<lparr>lc_used := u, lc_pending_changes := p\<rparr>) = lc_hash lc"
  by (simp_all add: lc_shape_def lc_lists_def lc_states_def lc_hash_def lc_hash_slot_def all_lc_list)

lemma lc_states_hlist [simp]:
  "lc_states (hlist_del i lc) = lc_states lc"
  "lc_states (hlist_add_head i s lc) = lc_states lc"
  by (simp_all add: lc_states_def)

lemma lc_counts_frame [simp]:
  "lc_counts (upd_element i f lc) = lc_counts lc"
  "lc_counts (hlist_del i lc) = lc_counts lc"
  "lc_counts (hlist_add_head i s lc) = lc_counts lc"
  by (simp_all add: lc_counts_def upd_element_def hlist_del_def hlist_add_head_def)

lemma lc_lists_of_frame [simp]:
  "lc_in_use (upd_element i f lc) = lc_in_use lc"
  "lc_in_use (hlist_del i lc) = lc_in_use lc"
  "lc_in_use (hlist_add_head i s lc) = lc_in_use lc"
  "lc_to_be_changed (upd_element i f lc) = lc_to_be_changed lc"
  "lc_to_be_changed (hlist_del i lc) = lc_to_be_changed lc"
  "lc_to_be_changed (hlist_add_head i s lc) = lc_to_be_changed lc"
  by (simp_all add: upd_element_def hlist_del_def hlist_add_head_def)

lemma list_move_hlist [simp]:
  "list_move i l (hlist_del j lc) = hlist_del j (list_move i l lc)"
  "list_move i l (hlist_add_head j s lc) = hlist_add_head j s (list_move i l lc)"
  by (cases l; simp add: list_move_def list_del_def hlist_del_def hlist_add_head_def)+

lemma hash_slot_frame [simp]:
  "lc_hash_slot (upd_element i f lc) enr = lc_hash_slot lc enr"
  "lc_hash_slot (hlist_del i lc) enr = lc_hash_slot lc enr"
  "lc_hash_slot (list_move i l lc) enr = lc_hash_slot lc enr"
  by (simp_all add: lc_hash_slot_def upd_element_def hlist_del_def)

text \<open>An element changes its list and keeps its label.\<close>

lemma lc_ok_relist:
  assumes ok: "lc_ok lc" and k: "i \<in> set (list_of k lc)"
    and f: "\<And>x. lc_index (f x) = lc_index x" "\<And>x. lc_new_number (f x) = lc_new_number x"
    and l: "el_state l (f (el lc i))"
    and u: "unat u + occ k = unat (lc_used lc) + occ l"
    and p: "unat p + pend k = unat (lc_pending_changes lc) + pend l" "p \<le> lc_max_pending_changes lc"
  shows "lc_ok ((list_move i l (upd_element i f lc))\<lparr>lc_used := u, lc_pending_changes := p\<rparr>)"
proof -
  from ok have parts: "lc_shape lc" "lc_lists lc" "lc_states lc" "lc_hash lc" "lc_counts lc"
    by (auto simp: lc_ok_def)
  have lt: "i < nr lc" using lc_lists_less[OF parts(2) k] .
  have "lc_lists (list_move i l (upd_element i f lc))"
    using parts(2) lt by (intro lc_lists_list_move) simp_all
  moreover have "lc_states (list_move i l (upd_element i f lc))"
    using parts lt l by (intro lc_states_move)
  moreover have "lc_counts ((list_move i l (upd_element i f lc))\<lparr>lc_used := u, lc_pending_changes := p\<rparr>)"
    using parts k u p by (intro lc_counts_move[where k = k]) simp_all
  ultimately show ?thesis
    using parts f by (simp add: lc_ok_def lc_hash_upd_element)
qed

text \<open>An element changes its list and gets a label that no element carries.\<close>

lemma lc_ok_relabel:
  assumes ok: "lc_ok lc" and k: "i \<in> set (list_of k lc)"
    and f: "\<And>x. lc_index (f x) = lc_index x" "\<And>x. lc_new_number (f x) = enr"
    and enr: "enr \<noteq> LC_FREE" "\<forall>j < nr lc. labels lc j \<noteq> enr"
    and l: "el_state l (f (el lc i))"
    and u: "unat u + occ k = unat (lc_used lc) + occ l"
    and p: "unat p + pend k = unat (lc_pending_changes lc) + pend l" "p \<le> lc_max_pending_changes lc"
  shows "lc_ok ((list_move i l (hlist_add_head i (lc_hash_slot lc enr) (hlist_del i (upd_element i f lc))))
     \<lparr>lc_used := u, lc_pending_changes := p\<rparr>)" (is "lc_ok (?m\<lparr>lc_used := u, lc_pending_changes := p\<rparr>)")
proof -
  from ok have parts: "lc_shape lc" "lc_lists lc" "lc_states lc" "lc_hash lc" "lc_counts lc"
    by (auto simp: lc_ok_def)
  have lt: "i < nr lc" using lc_lists_less[OF parts(2) k] .
  have "lc_lists ?m" using parts(2) lt by (simp add: lc_lists_list_move)
  moreover have "lc_states ?m" using lc_states_move[OF parts(2,3) lt, where f = f, OF l] by simp
  moreover have "lc_counts (?m\<lparr>lc_used := u, lc_pending_changes := p\<rparr>)"
    using parts k u p
    by (intro lc_counts_move[where k = k]) simp_all
  moreover have "lc_hash ?m"
    using lc_hash_relabel[OF parts(1,4) lt enr f(2)] by (simp del: list_move_hlist)
  ultimately show ?thesis
    using parts f by (simp add: lc_ok_def del: list_move_hlist)
qed

lemma lc_ok_unlabel:
  assumes ok: "lc_ok lc" and k: "i \<in> set (list_of k lc)" "occ k = 0"
    and f: "\<And>x. lc_index (f x) = lc_index x" "\<And>x. lc_new_number (f x) = LC_FREE"
    and l: "el_state L_free (f (el lc i))"
  shows "lc_ok (list_move i L_free (hlist_del i (upd_element i f lc)))" (is "lc_ok ?m")
proof -
  from ok have parts: "lc_shape lc" "lc_lists lc" "lc_states lc" "lc_hash lc" "lc_counts lc"
    by (auto simp: lc_ok_def)
  have lt: "i < nr lc" using lc_lists_less[OF parts(2) k(1)] .
  have "lc_lists ?m" using parts(2) lt by (simp add: lc_lists_list_move)
  moreover have "lc_states ?m" using lc_states_move[OF parts(2,3) lt, where f = f, OF l] by simp
  moreover have "lc_counts ((list_move i L_free (upd_element i f lc))
      \<lparr>lc_used := lc_used lc, lc_pending_changes := lc_pending_changes lc\<rparr>)"
    using parts(2,5) k
    by (intro lc_counts_move[where k = k]) (simp_all add: occ_def pend_def lc_counts_def split: if_splits)
  then have "lc_counts ?m" by (simp add: lc_counts_def)
  ultimately have "lc_lists ?m \<and> lc_states ?m \<and> lc_counts ?m" by blast
  moreover have "lc_hash ?m"
    using lc_hash_unlabel[OF parts(1,4) lt f(2)] by (simp del: list_move_hlist)
  ultimately show ?thesis
    using parts f by (simp add: lc_ok_def del: list_move_hlist)
qed

lemma upd_element_commute [simp]:
  "upd_element j f (list_move i l lc) = list_move i l (upd_element j f lc)"
  "upd_element j f (hlist_add_head i s lc) = hlist_add_head i s (upd_element j f lc)"
  "upd_element j f (hlist_del i lc) = hlist_del i (upd_element j f lc)"
  "upd_element j f (clear_flag b lc) = clear_flag b (upd_element j f lc)"
  "upd_element j f (set_flag b lc) = set_flag b (upd_element j f lc)"
  by (cases l; simp add: list_move_def list_del_def hlist_del_def hlist_add_head_def upd_element_def
      set_flag_def clear_flag_def)+

lemma upd_element_twice [simp]:
  "upd_element i g (upd_element i f lc) = upd_element i (\<lambda>x. g (f x)) lc"
  by (cases "i < nr lc") (simp_all add: upd_element_def list_update_beyond)

lemma flag_fields [simp]:
  "lc_elements (set_flag b lc) = lc_elements lc" "lc_elements (clear_flag b lc) = lc_elements lc"
  "lc_free (set_flag b lc) = lc_free lc" "lc_free (clear_flag b lc) = lc_free lc"
  "lc_lru (set_flag b lc) = lc_lru lc" "lc_lru (clear_flag b lc) = lc_lru lc"
  "lc_in_use (set_flag b lc) = lc_in_use lc" "lc_in_use (clear_flag b lc) = lc_in_use lc"
  "lc_to_be_changed (set_flag b lc) = lc_to_be_changed lc"
  "lc_to_be_changed (clear_flag b lc) = lc_to_be_changed lc"
  "lc_used (set_flag b lc) = lc_used lc" "lc_used (clear_flag b lc) = lc_used lc"
  "lc_nr_elements (set_flag b lc) = lc_nr_elements lc" "lc_nr_elements (clear_flag b lc) = lc_nr_elements lc"
  "lc_slot (set_flag b lc) = lc_slot lc" "lc_slot (clear_flag b lc) = lc_slot lc"
  "lc_pending_changes (set_flag b lc) = lc_pending_changes lc"
  "lc_pending_changes (clear_flag b lc) = lc_pending_changes lc"
  "lc_max_pending_changes (set_flag b lc) = lc_max_pending_changes lc"
  "lc_max_pending_changes (clear_flag b lc) = lc_max_pending_changes lc"
  by (simp_all add: set_flag_def clear_flag_def)

lemma lc_ok_used_le: "lc_ok lc \<Longrightarrow> unat (lc_used lc) \<le> nr lc"
proof -
  assume "lc_ok lc"
  then have d: "distinct (lc_in_use lc @ lc_to_be_changed lc)"
    and sub: "set (lc_in_use lc @ lc_to_be_changed lc) \<subseteq> {..<nr lc}"
    and u: "unat (lc_used lc) = length (lc_in_use lc @ lc_to_be_changed lc)"
    by (auto simp: lc_ok_def lc_lists_def lc_counts_def)
  have "length (lc_in_use lc @ lc_to_be_changed lc) \<le> card {..<nr lc}"
    unfolding distinct_card[OF d, symmetric] by (rule card_mono[OF _ sub]) simp
  with u show ?thesis by simp
qed

lemma lc_ok_used_Suc: "lc_ok lc \<Longrightarrow> unat (lc_used lc + 1) = unat (lc_used lc) + 1"
proof -
  assume ok: "lc_ok lc"
  then have "unat (lc_used lc) \<le> 2 ^ 24"
    using lc_ok_used_le[OF ok] lc_nr_bound[of lc] by (simp add: lc_ok_def)
  then have "lc_used lc \<noteq> - 1" by (auto simp: unat_word_max)
  then show ?thesis by (simp add: unat_Suc_word)
qed

lemma lc_prepare_ok:
  assumes ok: "lc_ok lc" and av: "lc_unused_element_available lc"
  obtains e k where "e \<in> set (list_of k lc)" "k = L_free \<and> e = hd (lc_free lc) \<and> lc_free lc \<noteq> []
       \<or> k = L_lru \<and> e = last (lc_lru lc) \<and> lc_free lc = []"
    "lc_prepare_for_change lc enr = Some (list_move e L_to_be_changed
       (hlist_add_head e (lc_hash_slot lc enr) (hlist_del e (upd_element e (\<lambda>x. x\<lparr>lc_new_number := enr\<rparr>) lc))), Some e)"
proof -
  define k where "k = (if lc_free lc \<noteq> [] then L_free else L_lru)"
  define e where "e = (if lc_free lc \<noteq> [] then hd (lc_free lc) else last (lc_lru lc))"
  have mem: "e \<in> set (list_of k lc)"
    using av by (auto simp: e_def k_def lc_unused_element_available_def split: if_splits)
  have "e < nr lc" using lc_lists_less[OF _ mem] ok by (simp add: lc_ok_def)
  then have "lc_prepare_for_change lc enr = Some (list_move e L_to_be_changed
       (hlist_add_head e (lc_hash_slot lc enr) (hlist_del e (upd_element e (\<lambda>x. x\<lparr>lc_new_number := enr\<rparr>) lc))), Some e)"
    using ok av by (auto simp: lc_prepare_for_change_def e_def lc_unused_element_available_def lc_ok_def
        Let_def split: if_splits)
  with mem that[of e k] show thesis by (auto simp: e_def k_def split: if_splits)
qed

lemma lc_get_change_ok:
  assumes ok: "lc_ok lc" and enr: "enr \<noteq> LC_FREE" "\<forall>j < nr lc. labels lc j \<noteq> enr"
    and av: "lc_unused_element_available lc" and pe: "lc_pending_changes lc < lc_max_pending_changes lc"
  obtains e k where "e \<in> set (list_of k lc)"
    "k = L_free \<and> e = hd (lc_free lc) \<and> lc_free lc \<noteq> [] \<or> k = L_lru \<and> e = last (lc_lru lc) \<and> lc_free lc = []"
    "lc_get_change lc enr = Some (lc_return (clear_flag b_LC_STARVING ((list_move e L_to_be_changed
       (hlist_add_head e (lc_hash_slot lc enr) (hlist_del e (upd_element e
         (\<lambda>x. x\<lparr>lc_new_number := enr, lc_refcnt := 1\<rparr>) lc))))
     \<lparr>lc_used := lc_used lc + 1, lc_pending_changes := lc_pending_changes lc + 1\<rparr>)), Some e)"
    "lc_ok ((list_move e L_to_be_changed
       (hlist_add_head e (lc_hash_slot lc enr) (hlist_del e (upd_element e
         (\<lambda>x. x\<lparr>lc_new_number := enr, lc_refcnt := 1\<rparr>) lc))))
     \<lparr>lc_used := lc_used lc + 1, lc_pending_changes := lc_pending_changes lc + 1\<rparr>)"
proof -
  obtain e k where e: "e \<in> set (list_of k lc)"
    and k: "k = L_free \<and> e = hd (lc_free lc) \<and> lc_free lc \<noteq> [] \<or> k = L_lru \<and> e = last (lc_lru lc) \<and> lc_free lc = []"
    and prep: "lc_prepare_for_change lc enr = Some (list_move e L_to_be_changed
       (hlist_add_head e (lc_hash_slot lc enr) (hlist_del e (upd_element e (\<lambda>x. x\<lparr>lc_new_number := enr\<rparr>) lc))), Some e)"
    using lc_prepare_ok[OF ok av] by metis
  have st: "el_state k (el lc e)" and lt: "e < nr lc"
    using ok e lc_lists_less by (auto simp: lc_ok_def lc_states_def)
  have num: "lc_number (el lc e) \<noteq> enr" using st k enr lt by auto
  have z: "lc_refcnt (el lc e) = 0" using st k by auto
  let ?f = "\<lambda>x. x\<lparr>lc_new_number := enr, lc_refcnt := 1\<rparr>"
  have "lc_ok (list_move e L_to_be_changed (hlist_add_head e (lc_hash_slot lc enr) (hlist_del e (upd_element e ?f lc)))
     \<lparr>lc_used := lc_used lc + 1, lc_pending_changes := lc_pending_changes lc + 1\<rparr>)"
    using ok e k enr pe num lc_ok_used_Suc[OF ok]
    by (intro lc_ok_relabel[where k = k]) (auto simp: occ_def pend_def inc_le unat_Suc_less)
  moreover have "upd_element e (\<lambda>x. x\<lparr>lc_new_number := enr, lc_refcnt := lc_refcnt x + 1\<rparr>) lc = upd_element e ?f lc"
    using z by (simp add: upd_element_def)
  then have "lc_get_change lc enr = Some (lc_return (clear_flag b_LC_STARVING ((list_move e L_to_be_changed
       (hlist_add_head e (lc_hash_slot lc enr) (hlist_del e (upd_element e ?f lc))))
     \<lparr>lc_used := lc_used lc + 1, lc_pending_changes := lc_pending_changes lc + 1\<rparr>)), Some e)"
    using prep lt z
    by (simp add: lc_get_change_def inc_refcnt_def Let_def el_upd_element) (simp add: clear_flag_def)
  ultimately show thesis using that[OF e k] by blast
qed

lemma lc_get_miss_ok:
  assumes ok: "lc_ok lc" and enr: "enr \<noteq> LC_FREE" "\<forall>j < nr lc. labels lc j \<noteq> enr"
  shows "\<exists>lc' r. lc_get_miss lc enr g = Some (lc', r) \<and> lc_ok lc' \<and> \<not> test_flag b_LC_PARANOIA lc'"
proof (cases "g AND LC_GET_MAY_CHANGE = 0 \<or> test_flag b_LC_LOCKED lc \<or> \<not> lc_unused_element_available lc
    \<or> lc_pending_changes lc \<ge> lc_max_pending_changes lc")
  case True
  then show ?thesis
    using ok by (auto simp: lc_get_miss_def Let_def lc_unused_element_available_def)
next
  case False
  define lc1 where "lc1 = set_flag b_LC_DIRTY (lc\<lparr>lc_misses := lc_misses lc + 1\<rparr>)"
  have eq: "lc_get_miss lc enr g = lc_get_change lc1 enr"
    using False by (auto simp: lc_get_miss_def Let_def lc1_def lc_unused_element_available_def)
  have lc1: "lc_ok lc1" "\<forall>j < nr lc1. labels lc1 j \<noteq> enr" "lc_unused_element_available lc1"
    "lc_pending_changes lc1 < lc_max_pending_changes lc1"
    using ok enr(2) False by (auto simp: lc1_def lc_unused_element_available_def)
  show ?thesis
    unfolding eq by (rule lc_get_change_ok[OF lc1(1) enr(1) lc1(2-4)]) simp
qed

lemma refcnt_inc_nonzero: "refcnt_room lc \<Longrightarrow> i < nr lc \<Longrightarrow> lc_refcnt (el lc i) + 1 \<noteq> 0"
  by (simp add: refcnt_room_def word_Suc_neq_0)

lemma list_move_counters [simp]:
  "list_move e l (lc\<lparr>lc_used := u\<rparr>) = (list_move e l lc)\<lparr>lc_used := u\<rparr>"
  "list_move e l (lc\<lparr>lc_hits := h\<rparr>) = (list_move e l lc)\<lparr>lc_hits := h\<rparr>"
  "upd_element e f (lc\<lparr>lc_hits := h\<rparr>) = (upd_element e f lc)\<lparr>lc_hits := h\<rparr>"
  by (cases l; simp add: list_move_def list_del_def upd_element_def)+

lemma counters_id:
  "u = lc_used lc \<Longrightarrow> p = lc_pending_changes lc \<Longrightarrow> lc\<lparr>lc_used := u, lc_pending_changes := p\<rparr> = lc"
  by simp

lemma lc_ok_relist_used:
  assumes "lc_ok lc" "i \<in> set (list_of k lc)"
    and "\<And>x. lc_index (f x) = lc_index x" "\<And>x. lc_new_number (f x) = lc_new_number x"
    and "el_state l (f (el lc i))" "unat u + occ k = unat (lc_used lc) + occ l"
    and "k \<noteq> L_to_be_changed" "l \<noteq> L_to_be_changed"
  shows "lc_ok ((list_move i l (upd_element i f lc))\<lparr>lc_used := u\<rparr>)"
proof -
  have "lc_pending_changes lc \<le> lc_max_pending_changes lc"
    using assms(1) by (simp add: lc_ok_def lc_counts_def)
  then have "lc_ok ((list_move i l (upd_element i f lc))
      \<lparr>lc_used := u, lc_pending_changes := lc_pending_changes lc\<rparr>)"
    using assms(1-6) by (intro lc_ok_relist[where k = k]) (use assms(7,8) in \<open>simp_all add: pend_def\<close>)
  then show ?thesis by (simp add: lc_ok_def lc_part_defs all_lc_list lc_hash_slot_def)
qed

lemma lc_ok_upd:
  assumes "lc_ok lc" "i \<in> set (list_of l lc)"
    and "\<And>x. lc_index (f x) = lc_index x" "\<And>x. lc_new_number (f x) = lc_new_number x"
    and "el_state l (f (el lc i))"
  shows "lc_ok (upd_element i f lc)"
  using assms lc_states_upd[of lc i l f] by (simp add: lc_ok_def lc_hash_upd_element)

lemma lc_get_hit_ok:
  assumes ok: "lc_ok lc" and room: "refcnt_room lc" and e: "e < nr lc" "labels lc e \<noteq> LC_FREE"
  shows "lc_ok (fst (lc_get_hit lc e g)) \<and> \<not> test_flag b_LC_PARANOIA (fst (lc_get_hit lc e g))"
proof -
  from ok have li: "lc_lists lc" and st: "lc_states lc" by (auto simp: lc_ok_def)
  have nz: "lc_refcnt (el lc e) + 1 \<noteq> 0" using room e(1) by (rule refcnt_inc_nonzero)
  note place = lc_states_list[OF li st e(1)]
  obtain k where k: "e \<in> set (list_of k lc)" using li e(1) by (rule lc_lists_cases)
  then have stk: "el_state k (el lc e)" by (simp add: place)
  show ?thesis
  proof (cases "lc_number (el lc e) = labels lc e")
    case False
    with stk e(2) have kt: "k = L_to_be_changed" by (cases k) auto
    have "lc_ok (inc_refcnt e lc)"
      unfolding inc_refcnt_def using stk nz kt
      by (intro lc_ok_upd[OF ok k]) simp_all
    then show ?thesis using False ok by (simp add: lc_get_hit_def)
  next
    case True
    define u where "u = (if lc_refcnt (el lc e) = 0 then lc_used lc + 1 else lc_used lc)"
    from True stk e(2) have kt: "k = (if lc_refcnt (el lc e) = 0 then L_lru else L_in_use)"
      by (cases k) auto
    have "lc_ok ((list_move e L_in_use (inc_refcnt e lc))\<lparr>lc_used := u\<rparr>)"
      unfolding inc_refcnt_def using kt nz True e(2) lc_ok_used_Suc[OF ok]
      by (intro lc_ok_relist_used[OF ok k]) (simp_all add: u_def occ_def split: if_splits)
    then have "lc_ok ((list_move e L_in_use (inc_refcnt e lc))\<lparr>lc_used := u, lc_hits := lc_hits lc + 1\<rparr>)"
      by simp
    moreover have "fst (lc_get_hit lc e g) =
        lc_return ((list_move e L_in_use (inc_refcnt e lc))\<lparr>lc_used := u, lc_hits := lc_hits lc + 1\<rparr>)"
      using True by (cases lc) (simp add: lc_get_hit_def Let_def u_def inc_refcnt_def upd_element_def
          list_move_def list_del_def clear_flag_def)
    ultimately show ?thesis by simp
  qed
qed

lemma lc_find_gen_set_flag [simp]: "lc_find_gen (set_flag b lc) enr inc = lc_find_gen lc enr inc"
  by (simp add: lc_find_gen_def lc_hash_slot_def)

lemma refcnt_room_flag [simp]: "refcnt_room (set_flag b lc) = refcnt_room lc"
  by (simp add: refcnt_room_def)

lemma lc_get_gen_inv:
  assumes inv: "lc_inv lc" and room: "refcnt_room lc" and enr: "enr \<noteq> LC_FREE"
  shows "\<exists>lc' r. lc_get_gen lc enr g = Some (lc', r) \<and> lc_inv lc'"
proof (cases "test_flag b_LC_STARVING lc")
  case True
  then show ?thesis using inv by (simp add: lc_get_gen_def) (simp add: lc_inv_alt)
next
  case False
  have ok: "lc_ok (set_flag b_LC_PARANOIA lc)" using inv by (simp add: lc_inv_alt)
  obtain r where r: "lc_find_gen lc enr True = Some r" using lc_find_gen_Some[OF inv] by blast
  show ?thesis
  proof (cases r)
    case None
    with r have "\<forall>j < nr lc. labels lc j \<noteq> enr" using lc_find_gen_None_iff[OF inv enr] by simp
    with lc_get_miss_ok[OF ok enr] None r False inv show ?thesis
      by (simp add: lc_get_gen_def lc_inv_alt)
  next
    case (Some e)
    with r have "e < nr lc" "labels lc e = enr" using lc_find_gen_iff[OF inv enr] by auto
    then have "lc_ok (fst (lc_get_hit (set_flag b_LC_PARANOIA lc) e g)) \<and>
        \<not> test_flag b_LC_PARANOIA (fst (lc_get_hit (set_flag b_LC_PARANOIA lc) e g))"
      using room enr by (intro lc_get_hit_ok[OF ok]) simp_all
    with Some r False inv show ?thesis
      by (cases "lc_get_hit (set_flag b_LC_PARANOIA lc) e g") (simp add: lc_get_gen_def lc_inv_alt)
  qed
qed

subsection \<open>Giving references back\<close>

lemma set_flag_inverse [simp]:
  "\<not> test_flag b lc \<Longrightarrow> clear_flag b (set_flag b lc) = lc"
  by (cases lc) (auto simp: set_flag_def clear_flag_def test_flag_def intro!: bit_eqI
      simp: bit_unset_bit_iff bit_set_bit_iff)

lemma lc_put_eq:
  assumes inv: "lc_inv lc" and e: "e \<in> set (lc_in_use lc)"
  shows "lc_put lc e = Some (lc_return (let lc = upd_element e (\<lambda>x. x\<lparr>lc_refcnt := lc_refcnt x - 1\<rparr>) (set_flag b_LC_PARANOIA lc) in
       if lc_refcnt (el lc e) = 0
       then clear_flag b_LC_STARVING ((list_move e L_lru lc)\<lparr>lc_used := lc_used lc - 1\<rparr>)
       else lc), lc_refcnt (el lc e) - 1)"
proof -
  have ok: "lc_ok lc" and sh: "lc_shape lc" using inv by (auto simp: lc_inv_alt lc_ok_def)
  have lt: "e < nr lc" and st: "el_state L_in_use (el lc e)"
    using ok e lc_lists_less[of lc e L_in_use] by (auto simp: lc_ok_def lc_states_def all_lc_list)
  then show ?thesis using inv sh
    by (simp add: lc_put_def Let_def el_upd_element) (simp add: set_flag_def lc_shape_def paranoia_lc_element_def
      word_less_nat_alt)
qed

lemma lc_put_inv:
  assumes inv: "lc_inv lc" and e: "e \<in> set (lc_in_use lc)"
  shows "\<exists>lc'. lc_put lc e = Some (lc', lc_refcnt (el lc e) - 1) \<and> lc_inv lc'"
proof -
  have ok: "lc_ok (set_flag b_LC_PARANOIA lc)" using inv by (simp add: lc_inv_alt)
  have st: "el_state L_in_use (el lc e)" and lt: "e < nr lc"
    using inv e lc_lists_less[of lc e L_in_use] by (auto simp: lc_inv_def lc_states_def all_lc_list)
  let ?f = "\<lambda>x. x\<lparr>lc_refcnt := lc_refcnt x - 1\<rparr>"
  let ?lc = "set_flag b_LC_PARANOIA lc"
  have k: "e \<in> set (list_of L_in_use ?lc)" using e by simp
  have used: "unat (lc_used lc - 1) + 1 = unat (lc_used lc)"
  proof -
    have "0 < length (lc_in_use lc)" using e by (cases "lc_in_use lc") auto
    then have "0 < unat (lc_used lc)" using inv by (simp add: lc_inv_def lc_counts_def)
    then have "lc_used lc \<noteq> 0" by auto
    then show ?thesis using \<open>0 < unat (lc_used lc)\<close> by (simp add: unat_pred_word)
  qed
  show ?thesis
  proof (cases "lc_refcnt (el lc e) = 1")
    case True
    have "lc_ok ((list_move e L_lru (upd_element e ?f ?lc))\<lparr>lc_used := lc_used lc - 1\<rparr>)"
      using True st used by (intro lc_ok_relist_used[OF ok k]) (simp_all add: occ_def)
    then show ?thesis using True lt unfolding lc_put_eq[OF inv e] Let_def
      by (simp add: el_upd_element lc_inv_alt)
  next
    case False
    have "lc_ok (upd_element e ?f ?lc)"
      using False st by (intro lc_ok_upd[OF ok k]) simp_all
    moreover have "lc_refcnt (el lc e) - 1 \<noteq> 0" using False by simp
    ultimately show ?thesis using lt unfolding lc_put_eq[OF inv e] Let_def
      by (simp add: el_upd_element lc_inv_alt)
  qed
qed

text \<open>Giving back what is not held, or what is still pending, is caught.\<close>

lemma lc_put_bug:
  assumes inv: "lc_inv lc" and e: "e \<notin> set (lc_in_use lc)"
  shows "lc_put lc e = None"
proof (cases "e < nr lc")
  case True
  have "\<not> el_state L_in_use (el lc e)"
    using lc_states_list[of lc e L_in_use] inv True e by (auto simp: lc_inv_def)
  moreover obtain k where "el_state k (el lc e)"
    using lc_lists_cases[of lc e] lc_states_list[of lc e] inv True by (auto simp: lc_inv_def)
  ultimately have "lc_refcnt (el lc e) = 0 \<or> lc_number (el lc e) \<noteq> labels lc e"
    by (cases k) auto
  then show ?thesis using inv by (auto simp: lc_put_def)
next
  case False
  then show ?thesis using inv by (simp add: lc_put_def) (simp add: paranoia_lc_element_def)
qed

lemma lc_del_inv:
  assumes inv: "lc_inv lc" and e: "e \<in> set (lc_lru lc) \<union> set (lc_free lc)"
  shows "\<exists>lc'. lc_del lc e = Some lc' \<and> lc_inv lc' \<and> e \<in> set (lc_free lc') \<and> labels lc' e = LC_FREE
     \<and> (\<forall>j. j \<noteq> e \<longrightarrow> el lc' j = el lc j)"
proof -
  have ok: "lc_ok (set_flag b_LC_PARANOIA lc)" using inv by (simp add: lc_inv_alt)
  have sh: "lc_shape lc" using inv by (rule lc_invD)
  obtain k where k: "e \<in> set (list_of k (set_flag b_LC_PARANOIA lc))" "k = L_lru \<or> k = L_free"
    using e by (metis Un_iff flag_fields(3,5) list_of.simps(1,2))
  then have lt: "e < nr lc" using lc_lists_less[of "set_flag b_LC_PARANOIA lc" e k] ok by (simp add: lc_ok_def)
  have z: "lc_refcnt (el lc e) = 0"
    using ok k by (auto simp: lc_ok_def lc_states_def all_lc_list)
  let ?f = "\<lambda>x. x\<lparr>lc_number := LC_FREE, lc_new_number := LC_FREE\<rparr>"
  let ?m = "list_move e L_free (hlist_del e (upd_element e ?f (set_flag b_LC_PARANOIA lc)))"
  have ok2: "lc_ok ?m" using k z by (intro lc_ok_unlabel[OF ok k(1)]) (auto simp: occ_def)
  have eq: "lc_del lc e = Some (lc_return ?m)"
    using inv sh lt z by (simp add: lc_del_def Let_def) (simp add: paranoia_lc_element_def lc_shape_def
      word_less_nat_alt set_flag_def)
  have "e \<in> set (lc_free ?m)" by (simp add: list_move_def list_del_def)
  with ok2 eq lt show ?thesis by (simp add: lc_inv_alt el_upd_element)
qed

subsection \<open>Committing a transaction\<close>

text \<open>
  While \<open>lc_committed\<close> walks \<open>to_be_changed\<close>, \<open>pending_changes\<close> still has its old value; the
  invariant of the loop is that of the cache with the counter corrected.
\<close>

abbreviation fix_pending :: "lru_cache \<Rightarrow> lru_cache" where
  "fix_pending lc \<equiv> lc\<lparr>lc_pending_changes := of_nat (length (lc_to_be_changed lc))\<rparr>"

lemma commit_element_ok:
  assumes ok: "lc_ok (fix_pending lc)" and tbc: "lc_to_be_changed lc = e # es"
  shows "lc_ok (fix_pending (commit_element e lc))"
proof -
  let ?lc = "fix_pending lc"
  have k: "e \<in> set (list_of L_to_be_changed ?lc)" by (simp add: tbc)
  have len: "length (lc_to_be_changed lc) \<le> 2 ^ 24"
    using lc_ok_used_le[OF ok] lc_nr_bound[of ?lc] ok by (auto simp: lc_ok_def lc_counts_def)
  have st: "el_state L_to_be_changed (el lc e)"
    using ok k by (fastforce simp: lc_ok_def lc_states_def all_lc_list)
  have p: "unat (of_nat (length es) :: u32) = length es" "unat (of_nat (Suc (length es)) :: u32) = Suc (length es)"
    using len tbc by (simp_all add: unat_of_nat_small del: of_nat_Suc)
  have "(of_nat (length es) :: u32) \<le> lc_max_pending_changes lc"
    using ok tbc p by (simp add: lc_ok_def lc_counts_def word_le_nat_alt)
  then have "lc_ok ((list_move e L_in_use (upd_element e (\<lambda>x. x\<lparr>lc_number := lc_new_number x\<rparr>) ?lc))
      \<lparr>lc_used := lc_used lc, lc_pending_changes := of_nat (length es)\<rparr>)"
    using st p tbc by (intro lc_ok_relist[OF ok k]) (simp_all add: occ_def pend_def del: of_nat_Suc)
  moreover have "e \<notin> set es" using ok tbc by (auto simp: lc_ok_def lc_lists_def)
  moreover have "fix_pending (commit_element e lc) =
     (list_move e L_in_use (upd_element e (\<lambda>x. x\<lparr>lc_number := lc_new_number x\<rparr>) ?lc))
      \<lparr>lc_used := lc_used lc, lc_pending_changes := of_nat (length es), lc_changed := lc_changed lc + 1\<rparr>"
    using tbc by (cases lc) (simp add: commit_element_def list_move_def list_del_def upd_element_def)
  ultimately show ?thesis by simp
qed

lemma commit_element_fields [simp]:
  "labels (commit_element e lc) i = labels lc i"
  "lc_refcnt (el (commit_element e lc) i) = lc_refcnt (el lc i)"
  "nr (commit_element e lc) = nr lc"
  "lc_flags (commit_element e lc) = lc_flags lc"
  "lc_changed (commit_element e lc) = lc_changed lc + 1"
  by (simp_all add: commit_element_def upd_element_def nth_update_attr[of lc_new_number]
      nth_update_attr[of lc_refcnt]) (simp add: list_move_def list_del_def)

lemma fold_commit:
  assumes "lc_ok (fix_pending lc)"
  shows "lc_ok ((fold commit_element (lc_to_be_changed lc) lc)\<lparr>lc_pending_changes := 0\<rparr>)
    \<and> lc_to_be_changed (fold commit_element (lc_to_be_changed lc) lc) = []
    \<and> lc_in_use (fold commit_element (lc_to_be_changed lc) lc) = rev (lc_to_be_changed lc) @ lc_in_use lc
    \<and> lc_lru (fold commit_element (lc_to_be_changed lc) lc) = lc_lru lc
    \<and> lc_free (fold commit_element (lc_to_be_changed lc) lc) = lc_free lc
    \<and> (\<forall>i. labels (fold commit_element (lc_to_be_changed lc) lc) i = labels lc i
          \<and> lc_refcnt (el (fold commit_element (lc_to_be_changed lc) lc) i) = lc_refcnt (el lc i))
    \<and> nr (fold commit_element (lc_to_be_changed lc) lc) = nr lc
    \<and> lc_flags (fold commit_element (lc_to_be_changed lc) lc) = lc_flags lc
    \<and> lc_changed (fold commit_element (lc_to_be_changed lc) lc)
        = lc_changed lc + of_nat (length (lc_to_be_changed lc))"
  using assms
proof (induction "lc_to_be_changed lc" arbitrary: lc)
  case Nil
  then show ?case by simp
next
  case (Cons e es)
  have d: "distinct (lc_lru lc @ lc_free lc @ lc_in_use lc @ (e # es))"
    using Cons.prems Cons.hyps(2) by (simp add: lc_ok_def lc_lists_def)
  have t: "lc_to_be_changed (commit_element e lc) = es"
    and u: "lc_in_use (commit_element e lc) = e # lc_in_use lc"
    and r: "lc_lru (commit_element e lc) = lc_lru lc" "lc_free (commit_element e lc) = lc_free lc"
    using d Cons.hyps(2)[symmetric]
    by (simp_all add: commit_element_def list_move_def list_del_def upd_element_def)
  have "lc_ok (fix_pending (commit_element e lc))"
    using commit_element_ok[OF Cons.prems Cons.hyps(2)[symmetric]] .
  from Cons.hyps(1)[OF t[symmetric] this] show ?case
    unfolding Cons.hyps(2)[symmetric] by (simp add: t u r add.assoc)
qed

lemma lc_committed_spec:
  assumes inv: "lc_inv lc"
  shows "\<exists>lc'. lc_committed lc = Some lc' \<and> lc_inv lc' \<and> lc_to_be_changed lc' = []
     \<and> lc_in_use lc' = rev (lc_to_be_changed lc) @ lc_in_use lc
     \<and> lc_lru lc' = lc_lru lc \<and> lc_free lc' = lc_free lc \<and> nr lc' = nr lc
     \<and> (\<forall>i < nr lc. labels lc' i = labels lc i \<and> lc_number (el lc' i) = labels lc i
          \<and> lc_refcnt (el lc' i) = lc_refcnt (el lc i))
     \<and> lc_changed lc' = lc_changed lc + of_nat (length (lc_to_be_changed lc))"
proof -
  let ?lc = "set_flag b_LC_PARANOIA lc"
  have "unat (lc_pending_changes lc) = length (lc_to_be_changed lc)"
    using inv by (simp add: lc_inv_def lc_counts_def)
  then have "of_nat (length (lc_to_be_changed lc)) = lc_pending_changes lc"
    by (metis of_nat_unat_word)
  then have fp: "fix_pending ?lc = ?lc" by (simp add: set_flag_def)
  have "lc_ok ?lc" using inv by (simp add: lc_inv_alt)
  then have "lc_ok (fix_pending ?lc)" by (simp only: fp)
  note F0 = fold_commit[OF this]
  define m where "m = fold commit_element (lc_to_be_changed ?lc) ?lc"
  note F = F0[folded m_def]
  have ch: "lc_changed ?lc = lc_changed lc" by (simp add: set_flag_def)
  have eq: "lc_committed lc = Some (lc_return (m\<lparr>lc_pending_changes := 0\<rparr>))"
    using inv by (simp add: lc_committed_def m_def Let_def)
  have ok: "lc_ok (m\<lparr>lc_pending_changes := 0\<rparr>)" and t: "lc_to_be_changed m = []"
    using F by simp_all
  have "lc_number (el m i) = labels m i" if "i < nr m" for i
  proof -
    have "lc_lists (m\<lparr>lc_pending_changes := 0\<rparr>)" "lc_states (m\<lparr>lc_pending_changes := 0\<rparr>)"
      using ok by (simp_all add: lc_ok_def)
    with that obtain k where k: "i \<in> set (list_of k (m\<lparr>lc_pending_changes := 0\<rparr>))"
      using lc_lists_cases[of "m\<lparr>lc_pending_changes := 0\<rparr>" i] by auto
    with t have "k \<noteq> L_to_be_changed" by auto
    moreover have "el_state k (el m i)"
      using k \<open>lc_states _\<close> by (auto simp: lc_states_def)
    ultimately show ?thesis by (cases k) auto
  qed
  then show ?thesis
    unfolding eq using ok F ch
    by (simp add: lc_inv_alt) (simp add: clear_flag_def)
qed

subsection \<open>Creation, reset, recorded state\<close>

lemma lc_fresh_ok:
  assumes "e_count \<noteq> 0" "e_count \<le> LC_MAX_ACTIVE"
  shows "lc_inv (lc_fresh max_pending e_count)"
proof -
  have le: "unat e_count \<le> 2 ^ 24" using assms(2) by (simp add: word_le_nat_alt LC_MAX_ACTIVE_unat)
  have "lc_shape (lc_fresh max_pending e_count)"
    using assms le by (auto simp: lc_shape_def lc_fresh_def fresh_element_def unat_of_nat_small)
  moreover have "lc_lists (lc_fresh max_pending e_count)"
    by (auto simp: lc_lists_def lc_fresh_def)
  moreover have "lc_states (lc_fresh max_pending e_count)"
    by (auto simp: lc_states_def all_lc_list lc_fresh_def fresh_element_def)
  moreover have "lc_hash (lc_fresh max_pending e_count)"
    by (auto simp: lc_hash_def lc_fresh_def fresh_element_def)
  moreover have "lc_counts (lc_fresh max_pending e_count)" "\<not> test_flag b_LC_PARANOIA (lc_fresh max_pending e_count)"
    by (simp_all add: lc_counts_def lc_fresh_def test_flag_def)
  ultimately show ?thesis by (simp add: lc_inv_def)
qed

lemma lc_reset_eq: "lc_reset lc = lc_fresh (lc_max_pending_changes lc) (lc_nr_elements lc)"
  by (simp add: lc_reset_def lc_fresh_def)

lemma lc_reset_inv: "lc_inv lc \<Longrightarrow> lc_inv (lc_reset lc)"
  unfolding lc_reset_eq by (rule lc_fresh_ok) (auto simp: lc_inv_def lc_shape_def)

lemma lc_set_inv:
  assumes inv: "lc_inv lc" and idx: "0 \<le> index" "nat index \<in> set (lc_lru lc) \<union> set (lc_free lc)"
    and enr: "\<forall>j < nr lc. labels lc j \<noteq> enr \<or> enr = LC_FREE"
  shows "\<exists>lc'. lc_set lc enr index = Some lc' \<and> lc_inv lc' \<and> lc_number (el lc' (nat index)) = enr
     \<and> labels lc' (nat index) = enr"
proof -
  let ?e = "nat index"
  have ok: "lc_ok lc" and sh: "lc_shape lc" and pf: "\<not> test_flag b_LC_PARANOIA lc"
    using inv by (auto simp: lc_inv_alt lc_ok_def)
  obtain k where k: "?e \<in> set (list_of k lc)" "k = L_lru \<or> k = L_free"
    using idx(2) by (metis Un_iff list_of.simps(1,2))
  have lt: "?e < nr lc" using lc_lists_less[OF _ k(1)] ok by (simp add: lc_ok_def)
  have st: "lc_refcnt (el lc ?e) = 0" "lc_number (el lc ?e) = labels lc ?e"
    using ok k by (auto simp: lc_ok_def lc_states_def all_lc_list)
  have b: "index < uint (lc_nr_elements lc)"
  proof -
    have "?e < unat (lc_nr_elements lc)" using lt sh by (simp add: lc_shape_def)
    then show ?thesis using idx(1) by (metis int_nat_eq of_nat_less_iff uint_nat)
  qed
  then have w: "unat (word_of_int index :: u32) = ?e"
  proof -
    have "index < 2 ^ 32" using b uint_bounded[of "lc_nr_elements lc"] by simp
    then have "uint (word_of_int index :: u32) = index"
      using idx(1) by (simp add: uint_word_of_int)
    then show ?thesis by (metis nat_int uint_nat)
  qed
  have ebi: "lc_element_by_index lc (word_of_int index) = Some ?e"
    using lt sh w by (auto simp: lc_element_by_index_def lc_shape_def word_le_nat_alt
        intro!: word_unat_eq_iff[THEN iffD2])
  let ?f = "\<lambda>x. x\<lparr>lc_number := enr, lc_new_number := enr\<rparr>"
  show ?thesis
  proof (cases "enr = LC_FREE")
    case True
    have "lc_ok (list_move ?e L_free (hlist_del ?e (upd_element ?e ?f lc)))"
      using k st True by (intro lc_ok_unlabel[OF ok k(1)]) (auto simp: occ_def)
    with True show ?thesis
      using idx(1) b ebi st lt pf by (simp add: lc_set_def Let_def lc_inv_alt el_upd_element test_flag_def)
  next
    case False
    have "lc_ok (list_move ?e L_lru (hlist_add_head ?e (lc_hash_slot lc enr) (hlist_del ?e (upd_element ?e ?f lc)))
        \<lparr>lc_used := lc_used lc, lc_pending_changes := lc_pending_changes lc\<rparr>)"
      using k st False enr ok
      by (intro lc_ok_relabel[OF ok k(1)]) (auto simp: occ_def pend_def lc_ok_def lc_counts_def)
    then have "lc_ok (list_move ?e L_lru (hlist_add_head ?e (lc_hash_slot lc enr) (hlist_del ?e (upd_element ?e ?f lc))))"
      by (subst (asm) counters_id) simp_all
    with False show ?thesis
      using idx(1) b ebi st lt pf by (simp add: lc_set_def Let_def lc_inv_alt el_upd_element test_flag_def)
  qed
qed

section \<open>The transition system of one cache\<close>

text \<open>
  One step is one call, with the obligations the callers keep: a label is never \<open>LC_FREE\<close>,
  only held references are given back, only unused elements are deleted.
\<close>

inductive lc_step :: "lru_cache \<Rightarrow> lru_cache \<Rightarrow> bool" where
  step_get: "lc_get_gen lc enr g = Some (lc', r) \<Longrightarrow> enr \<noteq> LC_FREE \<Longrightarrow> refcnt_room lc \<Longrightarrow> lc_step lc lc'"
| step_put: "lc_put lc e = Some (lc', r) \<Longrightarrow> lc_step lc lc'"
| step_commit: "lc_committed lc = Some lc' \<Longrightarrow> lc_step lc lc'"
| step_del: "e \<in> set (lc_lru lc) \<union> set (lc_free lc) \<Longrightarrow> lc_del lc e = Some lc' \<Longrightarrow> lc_step lc lc'"
| step_lock: "lc_try_lock lc = Some (lc', b) \<Longrightarrow> lc_step lc lc'"
| step_lock_transaction: "lc_try_lock_for_transaction lc = (lc', b) \<Longrightarrow> lc_step lc lc'"
| step_unlock: "lc_step lc (lc_unlock lc)"
| step_reset: "lc_step lc (lc_reset lc)"

inductive lc_reachable :: "lru_cache \<Rightarrow> bool" where
  reach_create: "lc_create sz meta alloc max_pending e_count e_size = Created lc \<Longrightarrow> e_count \<noteq> 0 \<Longrightarrow> lc_reachable lc"
| reach_step: "lc_reachable lc \<Longrightarrow> lc_step lc lc' \<Longrightarrow> lc_reachable lc'"

inductive_cases lc_stepE: "lc_step lc lc'"

lemma lc_create_Created:
  "lc_create sz meta alloc max_pending e_count e_size = Created lc \<Longrightarrow>
     lc = lc_fresh max_pending e_count \<and> e_count \<le> LC_MAX_ACTIVE"
  by (auto simp: lc_create_def Let_def split: if_splits prod.splits)

lemma lc_step_inv:
  assumes "lc_step lc lc'" "lc_inv lc"
  shows "lc_inv lc'"
  using assms
proof (cases rule: lc_step.cases)
  case (step_get enr g r)
  then show ?thesis using lc_get_gen_inv[OF assms(2), of enr g] by auto
next
  case (step_put e r)
  then show ?thesis using lc_put_inv[OF assms(2), of e] lc_put_bug[OF assms(2), of e] by fastforce
next
  case step_commit
  then show ?thesis using lc_committed_spec[OF assms(2)] by auto
next
  case (step_del e)
  then show ?thesis using lc_del_inv[OF assms(2), of e] by auto
next
  case (step_lock b)
  then show ?thesis using assms(2)
    by (auto simp: lc_try_lock_def lc_inv_alt test_flag_def LC_LOCKED_def bit_push_bit_iff split: if_splits)
next
  case (step_lock_transaction b)
  then show ?thesis using assms(2) by (auto simp: lc_try_lock_for_transaction_def lc_inv_alt)
next
  case step_unlock
  then show ?thesis using assms(2) by (simp add: lc_unlock_def lc_inv_alt)
next
  case step_reset
  then show ?thesis using assms(2) by (simp add: lc_reset_inv)
qed

lemma lc_reachable_imp_inv: "lc_reachable lc \<Longrightarrow> lc_inv lc"
  by (induction rule: lc_reachable.induct)
    (auto dest!: lc_create_Created simp: lc_fresh_ok intro: lc_step_inv)

section \<open>Properties\<close>


lemma lc_fresh_reachable:
  "e_count \<noteq> 0 \<Longrightarrow> e_count \<le> LC_MAX_ACTIVE \<Longrightarrow> lc_reachable (lc_fresh mp e_count)"
  by (rule reach_create[of 1 "(True, True, True)" "\<lambda>_. True" mp e_count 1])
    (auto simp: lc_create_def first_failed_def takeWhile_eq_all_conv[THEN iffD2])


lemma lc_label_unique:
  "lc_inv lc \<Longrightarrow> i < nr lc \<Longrightarrow> j < nr lc \<Longrightarrow> labels lc i \<noteq> LC_FREE \<Longrightarrow> labels lc i = labels lc j \<Longrightarrow> i = j"
  by (simp add: lc_inv_def lc_hash_def)

lemma lc_is_used_iff:
  assumes inv: "lc_inv lc" and enr: "enr \<noteq> LC_FREE"
  shows "lc_is_used lc enr = Some (\<exists>e < nr lc. labels lc e = enr \<and> lc_refcnt (el lc e) \<noteq> 0)"
proof -
  obtain r where r: "lc_find_gen lc enr True = Some r" using lc_find_gen_Some[OF inv] by blast
  show ?thesis
  proof (cases r)
    case None
    with r show ?thesis using lc_find_gen_None_iff[OF inv enr] by (simp add: lc_is_used_def) blast
  next
    case (Some i)
    with r have i: "i < nr lc" "labels lc i = enr" using lc_find_gen_iff[OF inv enr, of True] by auto
    have "e = i" if "e < nr lc" "labels lc e = enr" for e
      by (rule lc_label_unique[OF inv that(1) i(1)]) (simp_all add: that i enr)
    with i have "(\<exists>e < nr lc. labels lc e = enr \<and> lc_refcnt (el lc e) \<noteq> 0) \<longleftrightarrow> lc_refcnt (el lc i) \<noteq> 0"
      by blast
    with r Some show ?thesis by (simp add: lc_is_used_def)
  qed
qed

text \<open>
  C18: Lookup is exact. In a consistent cache \<open>lc_find\<close> returns an element if and only if that
  element carries the label as its committed label (never one that is only about to get it),
  and \<open>lc_is_used\<close> is true if and only if some element, committed or pending, carries the
  label and is referenced.
\<close>

theorem lc_lookup_exact:
  assumes "lc_inv lc" "enr \<noteq> LC_FREE"
  shows "(\<forall>e. (lc_find lc enr = Some (Some e))
      = (e < nr lc \<and> lc_new_number (el lc e) = enr \<and> lc_number (el lc e) = enr))
    \<and> lc_is_used lc enr = Some (\<exists>e < nr lc. lc_new_number (el lc e) = enr \<and> lc_refcnt (el lc e) \<noteq> 0)"
  using lc_find_gen_iff[OF assms, of False] lc_is_used_iff[OF assms] by (simp add: lc_find_def)

theorem lc_lookup_exact_witness:
  "lc_find (lc_fresh 2 3) 7 = Some None \<and> lc_is_used (lc_fresh 2 3) 7 = Some False"
proof -
  have inv: "lc_inv (lc_fresh 2 3)" and f: "(7 :: u32) \<noteq> LC_FREE"
    by (rule lc_fresh_ok) (simp_all add: LC_MAX_ACTIVE_def LC_FREE_def)
  have n: "nr (lc_fresh 2 3) = 3" "\<And>e. e < 3 \<Longrightarrow> lc_new_number (el (lc_fresh 2 3) e) = LC_FREE"
    by (simp_all add: lc_fresh_def fresh_element_def)
  obtain r where "lc_find (lc_fresh 2 3) 7 = Some r"
    using lc_find_gen_Some[OF inv] unfolding lc_find_def by blast
  then show ?thesis using lc_lookup_exact[OF inv f] n f by (cases r) auto
qed

lemma lc_get_gen_miss:
  assumes "lc_inv lc" "enr \<noteq> LC_FREE" "\<forall>j < nr lc. labels lc j \<noteq> enr" "\<not> test_flag b_LC_STARVING lc"
  shows "lc_get_gen lc enr g = lc_get_miss (set_flag b_LC_PARANOIA lc) enr g"
  using assms lc_find_gen_None_iff[OF assms(1,2)] by (simp add: lc_get_gen_def)

text \<open>
  C15: The replacement policy is least-recently-used. When a label that is not cached is
  requested, no free element is left and a change is allowed, \<open>lc_get\<close> recycles the element at
  the tail of the \<open>lru\<close> list and no other: that element moves to \<open>to_be_changed\<close> with one
  reference, keeps its committed label until the transaction is committed, and is registered
  under the requested one; every other element is unchanged and the cache is marked dirty.
\<close>

theorem lc_get_recycles_lru_tail:
  assumes inv: "lc_inv lc" and enr: "enr \<noteq> LC_FREE" "\<forall>j < nr lc. lc_new_number (el lc j) \<noteq> enr"
    and may: "\<not> test_flag b_LC_STARVING lc" "\<not> test_flag b_LC_LOCKED lc"
      "lc_pending_changes lc < lc_max_pending_changes lc"
    and lists: "lc_free lc = []" "lc_lru lc \<noteq> []"
  shows "\<exists>lc'. lc_get lc enr = Some (lc', Some (last (lc_lru lc)))
     \<and> lc_lru lc' = butlast (lc_lru lc) \<and> lc_free lc' = [] \<and> lc_in_use lc' = lc_in_use lc
     \<and> lc_to_be_changed lc' = last (lc_lru lc) # lc_to_be_changed lc
     \<and> lc_number (el lc' (last (lc_lru lc))) = lc_number (el lc (last (lc_lru lc)))
     \<and> lc_new_number (el lc' (last (lc_lru lc))) = enr \<and> lc_refcnt (el lc' (last (lc_lru lc))) = 1
     \<and> (\<forall>j. j \<noteq> last (lc_lru lc) \<longrightarrow> el lc' j = el lc j)
     \<and> test_flag b_LC_DIRTY lc'"
proof -
  let ?lc = "set_flag b_LC_DIRTY ((set_flag b_LC_PARANOIA lc)\<lparr>lc_misses := lc_misses lc + 1\<rparr>)"
  let ?t = "last (lc_lru lc)"
  have miss: "lc_misses (set_flag b_LC_PARANOIA lc) = lc_misses lc" by (simp add: set_flag_def)
  have eq: "lc_get lc enr = lc_get_change ?lc enr"
    unfolding lc_get_def lc_get_gen_miss[OF inv enr may(1)] using may lists
    by (simp add: lc_get_miss_def Let_def lc_unused_element_available_def LC_GET_MAY_CHANGE_def miss
        linorder_not_le[THEN iffD2])
  have ok: "lc_ok ?lc" using inv by (simp add: lc_inv_alt)
  have d: "distinct (lc_lru lc)" "?t < nr lc" "?t \<notin> set (lc_in_use lc)" "?t \<notin> set (lc_to_be_changed lc)"
    using inv lists(2) lc_lists_unique[of lc ?t L_lru L_in_use]
      lc_lists_unique[of lc ?t L_lru L_to_be_changed] lc_lists_less[of lc ?t L_lru]
    by (auto simp: lc_inv_def lc_lists_def)
  show ?thesis
    unfolding eq
  proof (rule lc_get_change_ok[OF ok enr(1), of])
    show "\<forall>j < nr ?lc. labels ?lc j \<noteq> enr" "lc_unused_element_available ?lc"
      "lc_pending_changes ?lc < lc_max_pending_changes ?lc"
      using enr(2) may(3) lists by (auto simp: lc_unused_element_available_def)
  next
    fix e k
    assume k: "k = L_free \<and> e = hd (lc_free ?lc) \<and> lc_free ?lc \<noteq> [] \<or> k = L_lru \<and> e = last (lc_lru ?lc) \<and> lc_free ?lc = []"
      and g: "lc_get_change ?lc enr = Some (lc_return (clear_flag b_LC_STARVING ((list_move e L_to_be_changed
       (hlist_add_head e (lc_hash_slot ?lc enr) (hlist_del e (upd_element e
         (\<lambda>x. x\<lparr>lc_new_number := enr, lc_refcnt := 1\<rparr>) ?lc))))
     \<lparr>lc_used := lc_used ?lc + 1, lc_pending_changes := lc_pending_changes ?lc + 1\<rparr>)), Some e)"
    have e: "e = ?t" using k lists by auto
    show "\<exists>lc'. lc_get_change ?lc enr = Some (lc', Some ?t)
     \<and> lc_lru lc' = butlast (lc_lru lc) \<and> lc_free lc' = [] \<and> lc_in_use lc' = lc_in_use lc
     \<and> lc_to_be_changed lc' = ?t # lc_to_be_changed lc
     \<and> lc_number (el lc' ?t) = lc_number (el lc ?t)
     \<and> labels lc' ?t = enr \<and> lc_refcnt (el lc' ?t) = 1
     \<and> (\<forall>j. j \<noteq> ?t \<longrightarrow> el lc' j = el lc j)
     \<and> test_flag b_LC_DIRTY lc'"
      unfolding g e using d lists
      by (simp add: el_upd_element remove1_last)
        (simp add: list_move_def list_del_def hlist_del_def hlist_add_head_def upd_element_def
          remove1_last set_flag_def clear_flag_def test_flag_def bit_set_bit_iff bit_unset_bit_iff)
  qed
qed

text \<open>A cache with one element that holds label 5 and is unused.\<close>

lemma lc_set_example:
  obtains lc where "lc_set (lc_fresh 1 1) 5 0 = Some lc" "lc_inv lc" "lc_lru lc = [0]" "lc_free lc = []"
    "lc_elements lc = [\<lparr>lc_refcnt = 0, lc_index = 0, lc_number = 5, lc_new_number = 5\<rparr>]"
    "lc_flags lc = 0" "lc_pending_changes lc = 0" "lc_max_pending_changes lc = 1"
proof -
  have inv: "lc_inv (lc_fresh 1 1)" by (rule lc_fresh_ok) (simp_all add: LC_MAX_ACTIVE_def)
  obtain lc where lc: "lc_set (lc_fresh 1 1) 5 0 = Some lc" "lc_inv lc"
    using lc_set_inv[OF inv, of 0 5] by (auto simp: lc_fresh_def fresh_element_def LC_FREE_def)
  moreover have "lc_lru lc = [0] \<and> lc_free lc = [] \<and>
    lc_elements lc = [\<lparr>lc_refcnt = 0, lc_index = 0, lc_number = 5, lc_new_number = 5\<rparr>] \<and>
    lc_flags lc = 0 \<and> lc_pending_changes lc = 0 \<and> lc_max_pending_changes lc = 1"
    using lc(1) by (auto simp: lc_set_def lc_element_by_index_def lc_fresh_def fresh_element_def LC_FREE_def
      Let_def upd_element_def hlist_del_def list_move_def list_del_def hlist_add_head_def lc_hash_slot_def)
  ultimately show thesis using that by blast
qed

theorem lc_get_recycles_lru_tail_witness:
  "\<exists>lc lc'. lc_set (lc_fresh 1 1) 5 0 = Some lc \<and> lc_get lc 9 = Some (lc', Some 0)
     \<and> lc_lru lc' = [] \<and> lc_number (el lc' 0) = 5 \<and> lc_new_number (el lc' 0) = 9"
proof (rule lc_set_example)
  fix lc
  assume lc: "lc_set (lc_fresh 1 1) 5 0 = Some lc" "lc_inv lc" "lc_lru lc = [0]" "lc_free lc = []"
    "lc_elements lc = [\<lparr>lc_refcnt = 0, lc_index = 0, lc_number = 5, lc_new_number = 5\<rparr>]"
    "lc_flags lc = 0" "lc_pending_changes lc = 0" "lc_max_pending_changes lc = 1"
  then show ?thesis
    using lc_get_recycles_lru_tail[OF lc(2), of 9] by (auto simp: LC_FREE_def test_flag_def)
qed

text \<open>
  C17: Giving a reference back. \<open>lc_put\<close> on an element that is not in use (unreferenced, free, still
  pending, or not of this cache) stops with \<open>BUG\<close>. Otherwise the count goes down by one; if that
  was the last reference, the element becomes the most recently used evictable one (head of
  \<open>lru\<close>), \<open>used\<close> goes down by one and a starving cache is released; else nothing moves.
\<close>

theorem lc_put_behaviour:
  assumes inv: "lc_inv lc"
  shows "if e \<notin> set (lc_in_use lc) then lc_put lc e = None
    else (\<exists>lc'. lc_put lc e = Some (lc', lc_refcnt (el lc e) - 1) \<and> lc_inv lc'
      \<and> lc_refcnt (el lc' e) = lc_refcnt (el lc e) - 1 \<and> lc_number (el lc' e) = lc_number (el lc e)
      \<and> (\<forall>j. j \<noteq> e \<longrightarrow> el lc' j = el lc j)
      \<and> (if lc_refcnt (el lc e) = 1
         then lc_lru lc' = e # lc_lru lc \<and> lc_in_use lc' = remove1 e (lc_in_use lc)
            \<and> lc_used lc' = lc_used lc - 1 \<and> \<not> test_flag b_LC_STARVING lc'
         else lc_lru lc' = lc_lru lc \<and> lc_in_use lc' = lc_in_use lc \<and> lc_used lc' = lc_used lc
            \<and> (test_flag b_LC_STARVING lc' = test_flag b_LC_STARVING lc)))"
proof (cases "e \<in> set (lc_in_use lc)")
  case False
  then show ?thesis using lc_put_bug[OF inv] by simp
next
  case True
  have lt: "e < nr lc" and u: "e \<notin> set (lc_lru lc)"
    using inv True lc_lists_less[of lc e L_in_use] lc_lists_unique[of lc e L_in_use L_lru]
    by (auto simp: lc_inv_def)
  obtain lc' where put: "lc_put lc e = Some (lc', lc_refcnt (el lc e) - 1)" and inv': "lc_inv lc'"
    using lc_put_inv[OF inv True] by blast
  note put' = put[unfolded lc_put_eq[OF inv True] Let_def]
  from put' lt u True inv' put show ?thesis
    by (auto simp: el_upd_element)
      (auto simp: list_move_def list_del_def upd_element_def clear_flag_def set_flag_def
        test_flag_def bit_set_bit_iff bit_unset_bit_iff split: if_splits)
qed

lemma lc_try_get_example:
  obtains lc lc2 where "lc_set (lc_fresh 1 1) 5 0 = Some lc" "lc_try_get lc 5 = Some (lc2, Some 0)" "lc_inv lc2"
    "lc_in_use lc2 = [0]" "lc_lru lc2 = []" "lc_refcnt (el lc2 0) = 1"
proof (rule lc_set_example)
  fix lc
  assume lc: "lc_set (lc_fresh 1 1) 5 0 = Some lc" "lc_inv lc" "lc_lru lc = [0]" "lc_free lc = []"
    "lc_elements lc = [\<lparr>lc_refcnt = 0, lc_index = 0, lc_number = 5, lc_new_number = 5\<rparr>]"
    "lc_flags lc = 0" "lc_pending_changes lc = 0" "lc_max_pending_changes lc = 1"
  have enr: "(5 :: u32) \<noteq> LC_FREE" by (simp add: LC_FREE_def)
  have f: "lc_find_gen lc 5 True = Some (Some 0)"
    using lc_find_gen_iff[OF lc(2) enr, of True 0] lc(5) by simp
  have room: "refcnt_room lc" using lc(5) by (simp add: refcnt_room_def)
  obtain lc2 r where g: "lc_try_get lc 5 = Some (lc2, r)" and inv2: "lc_inv lc2"
    using lc_get_gen_inv[OF lc(2) room enr] unfolding lc_try_get_def by blast
  have "\<not> test_flag b_LC_STARVING lc" using lc(6) by (simp add: test_flag_def)
  then have "lc_try_get lc 5 = Some (lc_get_hit (set_flag b_LC_PARANOIA lc) 0 0)"
    using lc(2) f by (simp add: lc_try_get_def lc_get_gen_def)
  then have "r = Some 0 \<and> lc_in_use lc2 = 0 # remove1 0 (lc_in_use lc) \<and> lc_lru lc2 = [] \<and> lc_refcnt (el lc2 0) = 1"
    using g lc(3,5) by (auto simp: lc_get_hit_def Let_def inc_refcnt_def list_move_def list_del_def upd_element_def)
  moreover have "0 \<notin> set (lc_in_use lc)" "set (lc_in_use lc) \<subseteq> {0}"
    using lc(2,3,5) by (auto simp: lc_inv_def lc_lists_def)
  then have "lc_in_use lc = []" by (cases "lc_in_use lc") auto
  ultimately show thesis using that[OF lc(1)] g inv2 by simp
qed

theorem lc_put_behaviour_witness:
  "\<exists>lc lc2 lc3. lc_set (lc_fresh 1 1) 5 0 = Some lc \<and> lc_try_get lc 5 = Some (lc2, Some 0)
     \<and> lc_put lc2 0 = Some (lc3, 0) \<and> lc_lru lc3 = [0] \<and> lc_put lc3 0 = None"
proof (rule lc_try_get_example)
  fix lc lc2
  assume a: "lc_set (lc_fresh 1 1) 5 0 = Some lc" "lc_try_get lc 5 = Some (lc2, Some 0)" "lc_inv lc2"
    "lc_in_use lc2 = [0]" "lc_lru lc2 = []" "lc_refcnt (el lc2 0) = 1"
  from lc_put_behaviour[OF a(3), of 0] a obtain lc3 where
    3: "lc_put lc2 0 = Some (lc3, 0)" "lc_inv lc3" "lc_lru lc3 = [0]" "lc_in_use lc3 = []"
    by auto
  with lc_put_behaviour[OF 3(2), of 0] have "lc_put lc3 0 = None" by simp
  with a(1,2) 3 show ?thesis by blast
qed

text \<open>
  C16: Committing publishes the whole pending change set at once. After \<open>lc_committed\<close> every
  element that was pending is found under its new label by the ordinary lookup, a label that was
  recycled and not requested again is no longer found, the elements that were not pending keep
  their labels, nothing is pending, and all reference counts are as before.
\<close>

theorem lc_committed_publishes:
  assumes inv: "lc_inv lc"
  shows "\<exists>lc'. lc_committed lc = Some lc' \<and> lc_inv lc' \<and> lc_to_be_changed lc' = [] \<and> lc_pending_changes lc' = 0
     \<and> (\<forall>e \<in> set (lc_to_be_changed lc). lc_find lc' (lc_new_number (el lc e)) = Some (Some e))
     \<and> (\<forall>enr. enr \<noteq> LC_FREE \<longrightarrow> (\<forall>e < nr lc. lc_new_number (el lc e) \<noteq> enr) \<longrightarrow> lc_find lc' enr = Some None)
     \<and> (\<forall>e < nr lc. e \<notin> set (lc_to_be_changed lc) \<longrightarrow> lc_number (el lc' e) = lc_number (el lc e))
     \<and> (\<forall>e < nr lc. lc_refcnt (el lc' e) = lc_refcnt (el lc e))"
proof -
  obtain lc' where c: "lc_committed lc = Some lc'" and inv': "lc_inv lc'" and t: "lc_to_be_changed lc' = []"
    and n: "nr lc' = nr lc"
    and l: "\<forall>i < nr lc. labels lc' i = labels lc i \<and> lc_number (el lc' i) = labels lc i
          \<and> lc_refcnt (el lc' i) = lc_refcnt (el lc i)"
    using lc_committed_spec[OF inv] by blast
  have li: "lc_lists lc" and st: "lc_states lc" using inv by (auto simp: lc_inv_def)
  have "unat (lc_pending_changes lc') = 0"
    using inv' t by (simp add: lc_inv_def lc_counts_def)
  then have "lc_pending_changes lc' = 0" by (simp add: unat_eq_0)
  moreover have "lc_find lc' (labels lc e) = Some (Some e)" if e: "e \<in> set (lc_to_be_changed lc)" for e
  proof -
    have "e < nr lc" and "labels lc e \<noteq> LC_FREE"
      using lc_lists_less[OF li, of e L_to_be_changed] st e by (auto simp: lc_states_def all_lc_list)
    then show ?thesis using lc_find_gen_iff[OF inv', of "labels lc e" False e] l n by (simp add: lc_find_def)
  qed
  moreover have "lc_find lc' enr = Some None" if "enr \<noteq> LC_FREE" "\<forall>e < nr lc. labels lc e \<noteq> enr" for enr
  proof -
    obtain r where r: "lc_find lc' enr = Some r"
      using lc_find_gen_Some[OF inv'] unfolding lc_find_def by blast
    then show ?thesis
      using lc_find_gen_iff[OF inv' that(1), of False] that(2) l n by (cases r) (auto simp: lc_find_def)
  qed
  moreover have "lc_number (el lc' e) = lc_number (el lc e)" if e: "e < nr lc" "e \<notin> set (lc_to_be_changed lc)" for e
  proof -
    obtain k where "e \<in> set (list_of k lc)" using li e(1) by (rule lc_lists_cases)
    with e st have "lc_number (el lc e) = labels lc e" by (cases k) (auto simp: lc_states_def all_lc_list)
    with l e(1) show ?thesis by simp
  qed
  ultimately show ?thesis using c inv' t l by blast
qed

theorem lc_committed_publishes_witness:
  "\<exists>lc lc'. lc_get (lc_fresh 1 1) 9 = Some (lc, Some 0) \<and> lc_find lc 9 = Some None
     \<and> lc_committed lc = Some lc' \<and> lc_find lc' 9 = Some (Some 0)"
proof -
  have inv: "lc_inv (lc_fresh 1 1)" and enr: "(9 :: u32) \<noteq> LC_FREE" and room: "refcnt_room (lc_fresh 1 1)"
    by (rule lc_fresh_ok) (simp_all add: LC_MAX_ACTIVE_def LC_FREE_def refcnt_room_def lc_fresh_def fresh_element_def)
  obtain lc r where g: "lc_get (lc_fresh 1 1) 9 = Some (lc, r)" and inv1: "lc_inv lc"
    using lc_get_gen_inv[OF inv room enr] unfolding lc_get_def by blast
  have "map_option (\<lambda>(lc, r). (r, lc_to_be_changed lc, lc_elements lc)) (lc_get (lc_fresh 1 1) 9)
      = Some (Some 0, [0], [\<lparr>lc_refcnt = 1, lc_index = 0, lc_number = LC_FREE, lc_new_number = 9\<rparr>])"
    by code_simp
  with g have v: "r = Some 0 \<and> lc_to_be_changed lc = [0]
     \<and> lc_elements lc = [\<lparr>lc_refcnt = 1, lc_index = 0, lc_number = LC_FREE, lc_new_number = 9\<rparr>]"
    by simp
  moreover have "lc_find lc 9 = Some None"
  proof -
    obtain q where q: "lc_find lc 9 = Some q" using lc_find_gen_Some[OF inv1] unfolding lc_find_def by blast
    then show ?thesis using lc_find_gen_iff[OF inv1 enr, of False] v enr
      by (cases q) (auto simp: lc_find_def)
  qed
  ultimately show ?thesis using lc_committed_publishes[OF inv1] g by auto
qed

lemma lc_fresh_find:
  assumes inv: "lc_inv (lc_fresh mp e_count)" and enr: "enr \<noteq> LC_FREE"
  shows "lc_find (lc_fresh mp e_count) enr = Some None"
proof -
  have n: "nr (lc_fresh mp e_count) = unat e_count"
    and l: "\<And>e. e < unat e_count \<Longrightarrow> labels (lc_fresh mp e_count) e = LC_FREE"
    by (simp_all add: lc_fresh_def fresh_element_def)
  obtain q where q: "lc_find (lc_fresh mp e_count) enr = Some q"
    using lc_find_gen_Some[OF inv] unfolding lc_find_def by blast
  show ?thesis
  proof (cases q)
    case None
    with q show ?thesis by simp
  next
    case (Some e)
    with q have "e < unat e_count \<and> labels (lc_fresh mp e_count) e = enr"
      using lc_find_gen_iff[OF inv enr, of False e] n by (simp add: lc_find_def)
    with l[of e] enr show ?thesis by simp
  qed
qed



end
