(* ===== verification/State_Types.thy ===== *)
theory State_Types
  imports Prelude
begin

text \<open>
  The enumerations of \<open>drbd/linux/drbd.h\<close> that make up the state of a device, and
  \<open>union drbd_state\<close> itself. The C code compares the enumerators with \<open><\<close>; each type gets the
  order of its numbers. A state change request, the pair \<open>(mask, val)\<close> that the macros
  \<open>NS\<close>, \<open>NS2\<close> and \<open>NS3\<close> of \<open>drbd_state.h\<close> build, is a record of optional new values;
  \<open>apply_mask_val_bits_eq\<close> shows that the bit operation of the C code on the packed words is
  the field-wise override used here.
\<close>

section \<open>Enumerations\<close>

datatype drbd_role = R_UNKNOWN | R_PRIMARY | R_SECONDARY | R_MASK

datatype drbd_conns =
    C_STANDALONE | C_DISCONNECTING | C_UNCONNECTED | C_TIMEOUT | C_BROKEN_PIPE
  | C_NETWORK_FAILURE | C_PROTOCOL_ERROR | C_TEAR_DOWN | C_WF_CONNECTION | C_WF_REPORT_PARAMS
  | C_CONNECTED | C_STARTING_SYNC_S | C_STARTING_SYNC_T | C_WF_BITMAP_S | C_WF_BITMAP_T
  | C_WF_SYNC_UUID | C_SYNC_SOURCE | C_SYNC_TARGET | C_VERIFY_S | C_VERIFY_T
  | C_PAUSED_SYNC_S | C_PAUSED_SYNC_T | C_AHEAD | C_BEHIND | C_MASK

datatype drbd_disk_state =
    D_DISKLESS | D_ATTACHING | D_FAILED | D_NEGOTIATING | D_INCONSISTENT | D_OUTDATED
  | D_UNKNOWN | D_CONSISTENT | D_UP_TO_DATE | D_MASK

datatype drbd_fencing_p = FP_NOT_AVAIL | FP_DONT_CARE | FP_RESOURCE | FP_STONITH

datatype drbd_on_no_data = OND_IO_ERROR | OND_SUSPEND_IO

datatype drbd_after_sb_p =
    ASB_DISCONNECT | ASB_DISCARD_YOUNGER_PRI | ASB_DISCARD_OLDER_PRI | ASB_DISCARD_ZERO_CHG
  | ASB_DISCARD_LEAST_CHG | ASB_DISCARD_LOCAL | ASB_DISCARD_REMOTE | ASB_CONSENSUS
  | ASB_DISCARD_SECONDARY | ASB_CALL_HELPER | ASB_VIOLENTLY

datatype drbd_state_rv =
    SS_CW_NO_NEED | SS_CW_SUCCESS | SS_NOTHING_TO_DO | SS_SUCCESS | SS_UNKNOWN_ERROR
  | SS_TWO_PRIMARIES | SS_NO_UP_TO_DATE_DISK | SS_NO_LOCAL_DISK | SS_NO_REMOTE_DISK
  | SS_CONNECTED_OUTDATES | SS_PRIMARY_NOP | SS_RESYNC_RUNNING | SS_ALREADY_STANDALONE
  | SS_CW_FAILED_BY_PEER | SS_IS_DISKLESS | SS_DEVICE_IN_USE | SS_NO_NET_CONFIG
  | SS_NO_VERIFY_ALG | SS_NEED_CONNECTION | SS_LOWER_THAN_OUTDATED | SS_NOT_SUPPORTED
  | SS_IN_TRANSIENT_STATE | SS_CONCURRENT_ST_CHG | SS_O_VOL_PEER_PRI | SS_OUTDATE_WO_CONN

fun role_nr :: "drbd_role \<Rightarrow> nat" where
  "role_nr R_UNKNOWN = 0" | "role_nr R_PRIMARY = 1" | "role_nr R_SECONDARY = 2" | "role_nr R_MASK = 3"

fun conn_nr :: "drbd_conns \<Rightarrow> nat" where
  "conn_nr C_STANDALONE = 0" | "conn_nr C_DISCONNECTING = 1" | "conn_nr C_UNCONNECTED = 2"
| "conn_nr C_TIMEOUT = 3" | "conn_nr C_BROKEN_PIPE = 4" | "conn_nr C_NETWORK_FAILURE = 5"
| "conn_nr C_PROTOCOL_ERROR = 6" | "conn_nr C_TEAR_DOWN = 7" | "conn_nr C_WF_CONNECTION = 8"
| "conn_nr C_WF_REPORT_PARAMS = 9" | "conn_nr C_CONNECTED = 10" | "conn_nr C_STARTING_SYNC_S = 11"
| "conn_nr C_STARTING_SYNC_T = 12" | "conn_nr C_WF_BITMAP_S = 13" | "conn_nr C_WF_BITMAP_T = 14"
| "conn_nr C_WF_SYNC_UUID = 15" | "conn_nr C_SYNC_SOURCE = 16" | "conn_nr C_SYNC_TARGET = 17"
| "conn_nr C_VERIFY_S = 18" | "conn_nr C_VERIFY_T = 19" | "conn_nr C_PAUSED_SYNC_S = 20"
| "conn_nr C_PAUSED_SYNC_T = 21" | "conn_nr C_AHEAD = 22" | "conn_nr C_BEHIND = 23" | "conn_nr C_MASK = 31"

fun disk_nr :: "drbd_disk_state \<Rightarrow> nat" where
  "disk_nr D_DISKLESS = 0" | "disk_nr D_ATTACHING = 1" | "disk_nr D_FAILED = 2"
| "disk_nr D_NEGOTIATING = 3" | "disk_nr D_INCONSISTENT = 4" | "disk_nr D_OUTDATED = 5"
| "disk_nr D_UNKNOWN = 6" | "disk_nr D_CONSISTENT = 7" | "disk_nr D_UP_TO_DATE = 8" | "disk_nr D_MASK = 15"

fun fp_nr :: "drbd_fencing_p \<Rightarrow> int" where
  "fp_nr FP_NOT_AVAIL = -1" | "fp_nr FP_DONT_CARE = 0" | "fp_nr FP_RESOURCE = 1" | "fp_nr FP_STONITH = 2"

fun rv_nr :: "drbd_state_rv \<Rightarrow> int" where
  "rv_nr SS_CW_NO_NEED = 4" | "rv_nr SS_CW_SUCCESS = 3" | "rv_nr SS_NOTHING_TO_DO = 2"
| "rv_nr SS_SUCCESS = 1" | "rv_nr SS_UNKNOWN_ERROR = 0" | "rv_nr SS_TWO_PRIMARIES = -1"
| "rv_nr SS_NO_UP_TO_DATE_DISK = -2" | "rv_nr SS_NO_LOCAL_DISK = -4" | "rv_nr SS_NO_REMOTE_DISK = -5"
| "rv_nr SS_CONNECTED_OUTDATES = -6" | "rv_nr SS_PRIMARY_NOP = -7" | "rv_nr SS_RESYNC_RUNNING = -8"
| "rv_nr SS_ALREADY_STANDALONE = -9" | "rv_nr SS_CW_FAILED_BY_PEER = -10" | "rv_nr SS_IS_DISKLESS = -11"
| "rv_nr SS_DEVICE_IN_USE = -12" | "rv_nr SS_NO_NET_CONFIG = -13" | "rv_nr SS_NO_VERIFY_ALG = -14"
| "rv_nr SS_NEED_CONNECTION = -15" | "rv_nr SS_LOWER_THAN_OUTDATED = -16" | "rv_nr SS_NOT_SUPPORTED = -17"
| "rv_nr SS_IN_TRANSIENT_STATE = -18" | "rv_nr SS_CONCURRENT_ST_CHG = -19" | "rv_nr SS_O_VOL_PEER_PRI = -20"
| "rv_nr SS_OUTDATE_WO_CONN = -21"

section \<open>The orders of the enumerators\<close>

lemma conn_nr_inj: "conn_nr a = conn_nr b \<Longrightarrow> a = b"
  by (cases a; cases b; simp)

lemma disk_nr_inj: "disk_nr a = disk_nr b \<Longrightarrow> a = b"
  by (cases a; cases b; simp)

lemma fp_nr_inj: "fp_nr a = fp_nr b \<Longrightarrow> a = b"
  by (cases a; cases b; simp)

lemma rv_nr_inj: "rv_nr a = rv_nr b \<Longrightarrow> a = b"
  by (cases a; cases b; simp)

instantiation drbd_conns :: linorder
begin

definition less_eq_drbd_conns :: "drbd_conns \<Rightarrow> drbd_conns \<Rightarrow> bool" where
  "less_eq_drbd_conns a b \<longleftrightarrow> conn_nr a \<le> conn_nr b"

definition less_drbd_conns :: "drbd_conns \<Rightarrow> drbd_conns \<Rightarrow> bool" where
  "less_drbd_conns a b \<longleftrightarrow> conn_nr a < conn_nr b"

instance
  by standard (auto simp: less_eq_drbd_conns_def less_drbd_conns_def intro: conn_nr_inj)

end

instantiation drbd_disk_state :: linorder
begin

definition less_eq_drbd_disk_state :: "drbd_disk_state \<Rightarrow> drbd_disk_state \<Rightarrow> bool" where
  "less_eq_drbd_disk_state a b \<longleftrightarrow> disk_nr a \<le> disk_nr b"

definition less_drbd_disk_state :: "drbd_disk_state \<Rightarrow> drbd_disk_state \<Rightarrow> bool" where
  "less_drbd_disk_state a b \<longleftrightarrow> disk_nr a < disk_nr b"

instance
  by standard (auto simp: less_eq_drbd_disk_state_def less_drbd_disk_state_def intro: disk_nr_inj)

end

instantiation drbd_fencing_p :: linorder
begin

definition less_eq_drbd_fencing_p :: "drbd_fencing_p \<Rightarrow> drbd_fencing_p \<Rightarrow> bool" where
  "less_eq_drbd_fencing_p a b \<longleftrightarrow> fp_nr a \<le> fp_nr b"

definition less_drbd_fencing_p :: "drbd_fencing_p \<Rightarrow> drbd_fencing_p \<Rightarrow> bool" where
  "less_drbd_fencing_p a b \<longleftrightarrow> fp_nr a < fp_nr b"

instance
  by standard (auto simp: less_eq_drbd_fencing_p_def less_drbd_fencing_p_def intro: fp_nr_inj)

end

instantiation drbd_state_rv :: linorder
begin

definition less_eq_drbd_state_rv :: "drbd_state_rv \<Rightarrow> drbd_state_rv \<Rightarrow> bool" where
  "less_eq_drbd_state_rv a b \<longleftrightarrow> rv_nr a \<le> rv_nr b"

definition less_drbd_state_rv :: "drbd_state_rv \<Rightarrow> drbd_state_rv \<Rightarrow> bool" where
  "less_drbd_state_rv a b \<longleftrightarrow> rv_nr a < rv_nr b"

instance
  by standard (auto simp: less_eq_drbd_state_rv_def less_drbd_state_rv_def intro: rv_nr_inj)

end

lemmas enum_order_defs = less_eq_drbd_conns_def less_drbd_conns_def
  less_eq_drbd_disk_state_def less_drbd_disk_state_def
  less_eq_drbd_fencing_p_def less_drbd_fencing_p_def
  less_eq_drbd_state_rv_def less_drbd_state_rv_def

section \<open>The state of a device\<close>

record drbd_state =
  role :: drbd_role
  peer :: drbd_role
  conn :: drbd_conns
  disk :: drbd_disk_state
  pdsk :: drbd_disk_state
  susp :: bool
  aftr_isp :: bool
  peer_isp :: bool
  user_isp :: bool
  susp_nod :: bool
  susp_fen :: bool

definition is_susp :: "drbd_state \<Rightarrow> bool" where
  "is_susp s \<longleftrightarrow> susp s \<or> susp_nod s \<or> susp_fen s"

text \<open>A requested change: the fields under the mask and their new values.\<close>

record st_chg =
  c_role :: "drbd_role option"
  c_peer :: "drbd_role option"
  c_conn :: "drbd_conns option"
  c_disk :: "drbd_disk_state option"
  c_pdsk :: "drbd_disk_state option"
  c_susp :: "bool option"
  c_aftr_isp :: "bool option"
  c_peer_isp :: "bool option"
  c_user_isp :: "bool option"
  c_susp_nod :: "bool option"
  c_susp_fen :: "bool option"

definition NS_none :: st_chg where
  "NS_none = \<lparr>c_role = None, c_peer = None, c_conn = None, c_disk = None, c_pdsk = None, c_susp = None,
     c_aftr_isp = None, c_peer_isp = None, c_user_isp = None, c_susp_nod = None, c_susp_fen = None\<rparr>"

definition override :: "'a \<Rightarrow> 'a option \<Rightarrow> 'a" where
  "override x y = (case y of None \<Rightarrow> x | Some v \<Rightarrow> v)"

lemma override_simps [simp]: "override x None = x" "override x (Some v) = v"
  by (simp_all add: override_def)

definition apply_mask_val :: "drbd_state \<Rightarrow> st_chg \<Rightarrow> drbd_state" where
  "apply_mask_val os chg =
     \<lparr>role = override (role os) (c_role chg), peer = override (peer os) (c_peer chg),
      conn = override (conn os) (c_conn chg), disk = override (disk os) (c_disk chg),
      pdsk = override (pdsk os) (c_pdsk chg), susp = override (susp os) (c_susp chg),
      aftr_isp = override (aftr_isp os) (c_aftr_isp chg), peer_isp = override (peer_isp os) (c_peer_isp chg),
      user_isp = override (user_isp os) (c_user_isp chg), susp_nod = override (susp_nod os) (c_susp_nod chg),
      susp_fen = override (susp_fen os) (c_susp_fen chg)\<rparr>"

section \<open>The packed representation\<close>

text \<open>The little-endian bit field layout of \<open>union drbd_state\<close>.\<close>

definition pack :: "nat \<Rightarrow> nat \<Rightarrow> nat \<Rightarrow> nat \<Rightarrow> nat \<Rightarrow> nat \<Rightarrow> nat \<Rightarrow> nat \<Rightarrow> nat \<Rightarrow> nat \<Rightarrow> nat \<Rightarrow> u32" where
  "pack ro pe co di pd su af pi us no fe =
     of_nat ro OR push_bit 2 (of_nat pe) OR push_bit 4 (of_nat co) OR push_bit 9 (of_nat di)
     OR push_bit 13 (of_nat pd) OR push_bit 17 (of_nat su) OR push_bit 18 (of_nat af)
     OR push_bit 19 (of_nat pi) OR push_bit 20 (of_nat us) OR push_bit 21 (of_nat no)
     OR push_bit 22 (of_nat fe)"

definition st_bits :: "drbd_state \<Rightarrow> u32" where
  "st_bits s = pack (role_nr (role s)) (role_nr (peer s)) (conn_nr (conn s)) (disk_nr (disk s))
     (disk_nr (pdsk s)) (of_bool (susp s)) (of_bool (aftr_isp s)) (of_bool (peer_isp s))
     (of_bool (user_isp s)) (of_bool (susp_nod s)) (of_bool (susp_fen s))"

definition sel :: "nat \<Rightarrow> 'a option \<Rightarrow> nat" where
  "sel full y = (if y = None then 0 else full)"

definition val_or_0 :: "('a \<Rightarrow> nat) \<Rightarrow> 'a option \<Rightarrow> nat" where
  "val_or_0 f y = (case y of None \<Rightarrow> 0 | Some v \<Rightarrow> f v)"

definition mask_bits :: "st_chg \<Rightarrow> u32" where
  "mask_bits c = pack (sel 3 (c_role c)) (sel 3 (c_peer c)) (sel 31 (c_conn c)) (sel 15 (c_disk c))
     (sel 15 (c_pdsk c)) (sel 1 (c_susp c)) (sel 1 (c_aftr_isp c)) (sel 1 (c_peer_isp c))
     (sel 1 (c_user_isp c)) (sel 1 (c_susp_nod c)) (sel 1 (c_susp_fen c))"

definition val_bits :: "st_chg \<Rightarrow> u32" where
  "val_bits c = pack (val_or_0 role_nr (c_role c)) (val_or_0 role_nr (c_peer c))
     (val_or_0 conn_nr (c_conn c)) (val_or_0 disk_nr (c_disk c)) (val_or_0 disk_nr (c_pdsk c))
     (val_or_0 of_bool (c_susp c)) (val_or_0 of_bool (c_aftr_isp c)) (val_or_0 of_bool (c_peer_isp c))
     (val_or_0 of_bool (c_user_isp c)) (val_or_0 of_bool (c_susp_nod c)) (val_or_0 of_bool (c_susp_fen c))"

definition apply_mask_val_bits :: "u32 \<Rightarrow> u32 \<Rightarrow> u32 \<Rightarrow> u32" where
  "apply_mask_val_bits os m v = (os AND NOT m) OR v"

text \<open>Bits of a packed word, field by field.\<close>

definition fields_ok :: "nat \<Rightarrow> nat \<Rightarrow> nat \<Rightarrow> nat \<Rightarrow> nat \<Rightarrow> nat \<Rightarrow> nat \<Rightarrow> nat \<Rightarrow> nat \<Rightarrow> nat \<Rightarrow> nat \<Rightarrow> bool" where
  "fields_ok ro pe co di pd su af pi us no fe \<longleftrightarrow> ro < 4 \<and> pe < 4 \<and> co < 32 \<and> di < 16 \<and> pd < 16
     \<and> su < 2 \<and> af < 2 \<and> pi < 2 \<and> us < 2 \<and> no < 2 \<and> fe < 2"

definition field_bit :: "nat \<Rightarrow> nat \<Rightarrow> nat \<Rightarrow> nat \<Rightarrow> nat \<Rightarrow> nat \<Rightarrow> nat \<Rightarrow> nat \<Rightarrow> nat \<Rightarrow> nat \<Rightarrow> nat \<Rightarrow> nat \<Rightarrow> bool" where
  "field_bit n ro pe co di pd su af pi us no fe =
     (if n < 2 then bit ro n else if n < 4 then bit pe (n - 2) else if n < 9 then bit co (n - 4)
      else if n < 13 then bit di (n - 9) else if n < 17 then bit pd (n - 13)
      else if n < 18 then bit su (n - 17) else if n < 19 then bit af (n - 18)
      else if n < 20 then bit pi (n - 19) else if n < 21 then bit us (n - 20)
      else if n < 22 then bit no (n - 21) else if n < 23 then bit fe (n - 22) else False)"

lemma nat_bit_high: "(v :: nat) < 2 ^ w \<Longrightarrow> w \<le> m \<Longrightarrow> \<not> bit v m"
  by (metis bit_take_bit_iff linorder_not_less take_bit_nat_eq_self)

lemma bit_of_nat_u32: "n < 32 \<Longrightarrow> bit (of_nat v :: u32) n \<longleftrightarrow> bit v n"
  by (transfer, simp add: bit_of_nat_iff bit_take_bit_iff)

lemma nat_bit_less: "(v :: nat) < 2 ^ w \<Longrightarrow> bit v m \<Longrightarrow> m < w"
  using nat_bit_high [of v w m] by (meson leI)

lemma bit_pack:
  assumes "fields_ok ro pe co di pd su af pi us no fe" and "n < 32"
  shows "bit (pack ro pe co di pd su af pi us no fe) n
       = field_bit n ro pe co di pd su af pi us no fe"
proof -
  have small: "ro < 2 ^ 2" "pe < 2 ^ 2" "co < 2 ^ 5" "di < 2 ^ 4" "pd < 2 ^ 4" "su < 2 ^ 1"
    "af < 2 ^ 1" "pi < 2 ^ 1" "us < 2 ^ 1" "no < 2 ^ 1" "fe < 2 ^ 1"
    using assms(1) by (simp_all add: fields_ok_def)
  have fld: "bit (push_bit k (of_nat v) :: u32) n \<longleftrightarrow> k \<le> n \<and> bit v (n - k)" for k v
    using assms(2) by (simp add: bit_push_bit_iff bit_of_nat_u32)
  have 0: "bit (of_nat ro :: u32) n \<longleftrightarrow> bit ro n"
    using assms(2) by (simp add: bit_of_nat_u32)
  show ?thesis
    unfolding pack_def field_bit_def bit_or_iff fld 0
    using small [THEN nat_bit_high]
    by (auto dest: small [THEN nat_bit_less])
qed

lemma role_nr_less: "role_nr r < 4" by (cases r) simp_all
lemma conn_nr_less: "conn_nr r < 32" by (cases r) simp_all
lemma disk_nr_less: "disk_nr r < 16" by (cases r) simp_all

lemma sel_less: "full < k \<Longrightarrow> 0 < k \<Longrightarrow> sel full y < k"
  by (simp add: sel_def)

lemma val_or_0_less: "(\<And>v. f v < k) \<Longrightarrow> 0 < k \<Longrightarrow> val_or_0 f y < k"
  by (simp add: val_or_0_def split: option.split)

lemma of_bool_less_2: "(of_bool b :: nat) < 2"
  by simp

lemmas field_less = role_nr_less conn_nr_less disk_nr_less sel_less val_or_0_less of_bool_less_2

lemma bit_mask_nat: "bit (3 :: nat) n \<longleftrightarrow> n < 2" "bit (31 :: nat) n \<longleftrightarrow> n < 5"
  "bit (15 :: nat) n \<longleftrightarrow> n < 4" "bit (Suc 0) n \<longleftrightarrow> n = 0"
proof -
  have *: "(3 :: nat) = mask 2" "(31 :: nat) = mask 5" "(15 :: nat) = mask 4"
    by (simp_all add: mask_eq_exp_minus_1)
  show "bit (3 :: nat) n \<longleftrightarrow> n < 2" "bit (31 :: nat) n \<longleftrightarrow> n < 5" "bit (15 :: nat) n \<longleftrightarrow> n < 4"
    by (simp_all only: * bit_mask_iff) simp_all
  show "bit (Suc 0) n \<longleftrightarrow> n = 0"
    by (simp add: bit_Suc_0_iff)
qed

lemma field_apply:
  assumes "f x < 2 ^ w" "\<And>v. f v < 2 ^ w" "full = 2 ^ w - 1" "m < w"
  shows "(bit (f x) m \<and> \<not> bit (sel full y) m) \<or> bit (val_or_0 f y) m \<longleftrightarrow> bit (f (override x y)) m"
proof (cases y)
  case None
  then show ?thesis by (simp add: sel_def val_or_0_def)
next
  case (Some v)
  have "full = mask w" using assms(3) by (simp only: mask_eq_exp_minus_1)
  then have "bit full m" using assms(4) by (simp add: bit_mask_iff)
  with Some show ?thesis by (simp add: sel_def val_or_0_def)
qed

lemma st_bits_bit: "n < 32 \<Longrightarrow> bit (st_bits s) n
    = field_bit n (role_nr (role s)) (role_nr (peer s)) (conn_nr (conn s)) (disk_nr (disk s))
     (disk_nr (pdsk s)) (of_bool (susp s)) (of_bool (aftr_isp s)) (of_bool (peer_isp s))
     (of_bool (user_isp s)) (of_bool (susp_nod s)) (of_bool (susp_fen s))"
  unfolding st_bits_def by (rule bit_pack) (simp_all add: fields_ok_def field_less)

lemma apply_mask_val_bits_bit:
  assumes "n < 32"
  shows "bit (apply_mask_val_bits (st_bits os) (mask_bits chg) (val_bits chg)) n
       = bit (st_bits (apply_mask_val os chg)) n"
proof -
  have M: "bit (mask_bits chg) n
    = field_bit n (sel 3 (c_role chg)) (sel 3 (c_peer chg)) (sel 31 (c_conn chg)) (sel 15 (c_disk chg))
     (sel 15 (c_pdsk chg)) (sel 1 (c_susp chg)) (sel 1 (c_aftr_isp chg)) (sel 1 (c_peer_isp chg))
     (sel 1 (c_user_isp chg)) (sel 1 (c_susp_nod chg)) (sel 1 (c_susp_fen chg))"
    unfolding mask_bits_def using assms by (intro bit_pack) (simp_all add: fields_ok_def field_less)
  have V: "bit (val_bits chg) n
    = field_bit n (val_or_0 role_nr (c_role chg)) (val_or_0 role_nr (c_peer chg))
     (val_or_0 conn_nr (c_conn chg)) (val_or_0 disk_nr (c_disk chg)) (val_or_0 disk_nr (c_pdsk chg))
     (val_or_0 of_bool (c_susp chg)) (val_or_0 of_bool (c_aftr_isp chg)) (val_or_0 of_bool (c_peer_isp chg))
     (val_or_0 of_bool (c_user_isp chg)) (val_or_0 of_bool (c_susp_nod chg)) (val_or_0 of_bool (c_susp_fen chg))"
    unfolding val_bits_def using assms by (intro bit_pack) (simp_all add: fields_ok_def field_less)
  have R: "m < 2 \<Longrightarrow> (bit (role_nr x) m \<and> \<not> bit (sel 3 y) m) \<or> bit (val_or_0 role_nr y) m
      \<longleftrightarrow> bit (role_nr (override x y)) m" for x y m
    by (rule field_apply [where w = 2]) (simp_all add: field_less)
  have C: "m < 5 \<Longrightarrow> (bit (conn_nr x) m \<and> \<not> bit (sel 31 y) m) \<or> bit (val_or_0 conn_nr y) m
      \<longleftrightarrow> bit (conn_nr (override x y)) m" for x y m
    by (rule field_apply [where w = 5]) (simp_all add: field_less)
  have D: "m < 4 \<Longrightarrow> (bit (disk_nr x) m \<and> \<not> bit (sel 15 y) m) \<or> bit (val_or_0 disk_nr y) m
      \<longleftrightarrow> bit (disk_nr (override x y)) m" for x y m
    by (rule field_apply [where w = 4]) (simp_all add: field_less)
  have B: "m < 1 \<Longrightarrow> (bit (of_bool x :: nat) m \<and> \<not> bit (sel 1 y) m) \<or> bit (val_or_0 of_bool y) m
      \<longleftrightarrow> bit (of_bool (override x y) :: nat) m" for x y m
    by (rule field_apply [where w = 1]) (simp_all add: of_bool_less_2)
  have "bit (apply_mask_val_bits (st_bits os) (mask_bits chg) (val_bits chg)) n
      \<longleftrightarrow> (bit (st_bits os) n \<and> \<not> bit (mask_bits chg) n) \<or> bit (val_bits chg) n"
    using assms by (simp add: apply_mask_val_bits_def bit_or_iff bit_and_iff bit_not_iff)
  note goal = this [unfolded M V st_bits_bit [OF assms] field_bit_def]
  consider "n < 2" | "2 \<le> n" "n < 4" | "4 \<le> n" "n < 9" | "9 \<le> n" "n < 13" | "13 \<le> n" "n < 17"
    | "n = 17" | "n = 18" | "n = 19" | "n = 20" | "n = 21" | "n = 22" | "23 \<le> n"
    by linarith
  then show ?thesis
    unfolding goal unfolding st_bits_bit [OF assms] field_bit_def
    by cases (simp_all add: apply_mask_val_def R C D B del: One_nat_def)
qed

lemma apply_mask_val_bits_refines:
  "apply_mask_val_bits (st_bits os) (mask_bits chg) (val_bits chg) = st_bits (apply_mask_val os chg)"
  by (rule bit_word_eqI) (simp add: apply_mask_val_bits_bit)

text \<open>The code compares whole states as words (\<open>ns.i == os.i\<close>); on the records this is equality.\<close>

lemma nat_eq_by_low_bits:
  assumes "(a :: nat) < 2 ^ w" "b < 2 ^ w" "\<And>m. m < w \<Longrightarrow> bit a m \<longleftrightarrow> bit b m"
  shows "a = b"
proof (rule bit_eqI)
  fix m
  show "bit a m \<longleftrightarrow> bit b m"
    using assms nat_bit_less [of a w m] nat_bit_less [of b w m] by (cases "m < w") auto
qed

lemma role_nr_inj: "role_nr a = role_nr b \<Longrightarrow> a = b"
  by (cases a; cases b; simp)

lemma st_bits_inj:
  assumes "st_bits s = st_bits t"
  shows "s = t"
proof -
  note b = st_bits_bit [of _ s] st_bits_bit [of _ t]
  have role: "role_nr (role s) = role_nr (role t)"
  proof (rule nat_eq_by_low_bits [where w = 2])
    show "bit (role_nr (role s)) m = bit (role_nr (role t)) m" if "m < 2" for m
      using b [of m, unfolded field_bit_def] that assms by simp
  qed (use role_nr_less in simp_all)
  have peer: "role_nr (peer s) = role_nr (peer t)"
  proof (rule nat_eq_by_low_bits [where w = 2])
    show "bit (role_nr (peer s)) m = bit (role_nr (peer t)) m" if "m < 2" for m
      using b [of "m + 2", unfolded field_bit_def] that assms by simp
  qed (use role_nr_less in simp_all)
  have conn: "conn_nr (conn s) = conn_nr (conn t)"
  proof (rule nat_eq_by_low_bits [where w = 5])
    show "bit (conn_nr (conn s)) m = bit (conn_nr (conn t)) m" if "m < 5" for m
      using b [of "m + 4", unfolded field_bit_def] that assms by simp
  qed (use conn_nr_less in simp_all)
  have disk: "disk_nr (disk s) = disk_nr (disk t)"
  proof (rule nat_eq_by_low_bits [where w = 4])
    show "bit (disk_nr (disk s)) m = bit (disk_nr (disk t)) m" if "m < 4" for m
      using b [of "m + 9", unfolded field_bit_def] that assms by simp
  qed (use disk_nr_less in simp_all)
  have pdsk: "disk_nr (pdsk s) = disk_nr (pdsk t)"
  proof (rule nat_eq_by_low_bits [where w = 4])
    show "bit (disk_nr (pdsk s)) m = bit (disk_nr (pdsk t)) m" if "m < 4" for m
      using b [of "m + 13", unfolded field_bit_def] that assms by simp
  qed (use disk_nr_less in simp_all)
  have flags: "susp s = susp t" "aftr_isp s = aftr_isp t" "peer_isp s = peer_isp t"
    "user_isp s = user_isp t" "susp_nod s = susp_nod t" "susp_fen s = susp_fen t"
    using b [of 17, unfolded field_bit_def] b [of 18, unfolded field_bit_def] b [of 19, unfolded field_bit_def]
      b [of 20, unfolded field_bit_def] b [of 21, unfolded field_bit_def] b [of 22, unfolded field_bit_def] assms
    by (simp_all add: bit_0)
  show ?thesis
    using role peer conn disk pdsk flags
    by (intro drbd_state.equality) (auto dest: role_nr_inj conn_nr_inj disk_nr_inj)
qed

text \<open>
  C27: On the packed words the C code computes a requested state as \<open>(os.i & ~mask.i) | val.i\<close> and
  detects a no-op by comparing the words. Packing is injective, so the comparison is equality of
  states, and the bit operation is the field-wise override: exactly the fields under the mask take
  their new value and every other field keeps its old one.
\<close>

theorem apply_mask_val_bits_eq:
  "(st_bits s = st_bits t \<longleftrightarrow> s = t)
   \<and> apply_mask_val_bits (st_bits os) (mask_bits chg) (val_bits chg) = st_bits (apply_mask_val os chg)"
  using st_bits_inj apply_mask_val_bits_refines by blast

end
