(* ===== verification/State_Engine.thy ===== *)
theory State_Engine
  imports State_Types
begin

text \<open>
  The state engine of a device (\<open>drbd/drbd_state.c\<close>): which states are valid
  (\<open>is_valid_state\<close>), which transitions are (\<open>is_valid_soft_transition\<close>,
  \<open>is_valid_transition\<close>), the implied changes (\<open>sanitize_state\<close>) and
  \<open>__drbd_set_state\<close>, which applies a change to a device, its connection and its resource.

  A value of type \<open>drbd_connection\<close> holds the connection, its resource and the devices of its
  \<open>peer_devices\<close> idr in the order the idr walks them; a device is named by its position.
  \<open>None\<close> is a kernel oops (a \<open>NULL\<close> dereference or \<open>BUG()\<close>). Work handed to other threads
  (timers, thread signals, queued work) is appended to \<open>todo\<close>. Log messages are left out.
  A \<open>get_ldev\<close>/\<open>put_ldev\<close> pair around a read is represented by its guard.
\<close>

section \<open>Devices, connections and resources\<close>

type_synonym chg_state_flags = u32

definition CS_HARD :: chg_state_flags where "CS_HARD = 1"
definition CS_VERBOSE :: chg_state_flags where "CS_VERBOSE = 2"
definition CS_WAIT_COMPLETE :: chg_state_flags where "CS_WAIT_COMPLETE = 4"
definition CS_SERIALIZE :: chg_state_flags where "CS_SERIALIZE = 8"
definition CS_LOCAL_ONLY :: chg_state_flags where "CS_LOCAL_ONLY = 16"
definition CS_DC_ROLE :: chg_state_flags where "CS_DC_ROLE = 32"
definition CS_DC_PEER :: chg_state_flags where "CS_DC_PEER = 64"
definition CS_DC_CONN :: chg_state_flags where "CS_DC_CONN = 128"
definition CS_DC_DISK :: chg_state_flags where "CS_DC_DISK = 256"
definition CS_DC_PDSK :: chg_state_flags where "CS_DC_PDSK = 512"
definition CS_DC_SUSP :: chg_state_flags where "CS_DC_SUSP = 1024"
definition CS_DC_MASK :: chg_state_flags where
  "CS_DC_MASK = CS_DC_ROLE + CS_DC_PEER + CS_DC_CONN + CS_DC_DISK + CS_DC_PDSK"
definition CS_IGN_OUTD_FAIL :: chg_state_flags where "CS_IGN_OUTD_FAIL = 2048"

definition cs_test :: "chg_state_flags \<Rightarrow> chg_state_flags \<Rightarrow> bool" where
  "cs_test fl bits \<longleftrightarrow> fl AND bits \<noteq> 0"

definition MDF_CONSISTENT :: u32 where "MDF_CONSISTENT = 1"
definition MDF_PRIMARY_IND :: u32 where "MDF_PRIMARY_IND = 2"
definition MDF_CONNECTED_IND :: u32 where "MDF_CONNECTED_IND = 4"
definition MDF_FULL_SYNC :: u32 where "MDF_FULL_SYNC = 8"
definition MDF_WAS_UP_TO_DATE :: u32 where "MDF_WAS_UP_TO_DATE = 16"
definition MDF_PEER_OUT_DATED :: u32 where "MDF_PEER_OUT_DATED = 32"
definition MDF_CRASHED_PRIMARY :: u32 where "MDF_CRASHED_PRIMARY = 64"
definition MDF_AL_CLEAN :: u32 where "MDF_AL_CLEAN = 128"
definition MDF_SNAPSHOT_SYNC_S :: u32 where "MDF_SNAPSHOT_SYNC_S = 0x400"

lemmas mdf_defs = MDF_CONSISTENT_def MDF_PRIMARY_IND_def MDF_CONNECTED_IND_def MDF_WAS_UP_TO_DATE_def
  MDF_PEER_OUT_DATED_def MDF_CRASHED_PRIMARY_def MDF_AL_CLEAN_def

text \<open>\<open>struct drbd_md\<close> and the options of \<open>struct drbd_backing_dev\<close> the engine reads.\<close>

definition UI_CURRENT :: nat where "UI_CURRENT = 0"
definition UI_BITMAP :: nat where "UI_BITMAP = 1"
definition UI_HISTORY_START :: nat where "UI_HISTORY_START = 2"
definition UI_HISTORY_END :: nat where "UI_HISTORY_END = 3"
definition UI_SIZE :: nat where "UI_SIZE = 4"
definition UI_FLAGS :: nat where "UI_FLAGS = 5"

record drbd_ldev =
  md_uuid :: "u64 list"
  md_flags :: u32
  fencing :: drbd_fencing_p

abbreviation uuid_current :: "drbd_ldev \<Rightarrow> u64" where
  "uuid_current l \<equiv> md_uuid l ! UI_CURRENT"

record fifo_buffer =
  fifo_total :: int
  fifo_values :: "int list"

record drbd_device =
  state :: drbd_state
  new_state_tmp :: drbd_state
  open_cnt :: int
  ed_uuid :: u64
  ldev :: drbd_ldev
  local_cnt :: int
  CRASHED_PRIMARY :: bool
  CONSIDER_RESYNC :: bool
  AL_SUSPENDED :: bool
  MD_DIRTY :: bool
  CL_ST_CHG_SUCCESS :: bool
  CL_ST_CHG_FAIL :: bool
  DISCARD_MY_DATA :: bool
  has_sdev :: bool
  p_uuid :: "u64 list"
  comm_bm_set :: u64
  bm_bits :: u64
  bm_total_weight :: u64
  rs_total :: u64
  rs_start :: u64
  rs_paused :: u64
  rs_mark_left :: "u64 list"
  rs_mark_time :: "u64 list"
  rs_last_mark :: nat
  rs_last_events :: int
  rs_last_sect_ev :: int
  rs_sect_in :: int
  rs_sect_ev :: int
  rs_in_flight :: int
  rs_plan_s :: fifo_buffer
  ov_start_sector :: u64
  ov_position :: u64
  ov_left :: u64
  ov_last_oos_start :: u64
  ov_last_oos_size :: u64
  last_reattach_jif :: u64

record net_conf =
  two_primaries :: bool
  verify_alg :: string
  wire_protocol :: nat
  after_sb_0p :: drbd_after_sb_p
  after_sb_1p :: drbd_after_sb_p
  after_sb_2p :: drbd_after_sb_p
  rr_conflict :: drbd_after_sb_p
  always_asbp :: bool
  tentative :: bool
  discard_my_data :: bool

record drbd_resource =
  res_susp :: bool
  res_susp_nod :: bool
  res_susp_fen :: bool
  on_no_data :: drbd_on_no_data

datatype st_work =
    Receiver_Stop
  | Receiver_Restart
  | Mod_Resync_Timer nat
  | Mod_Md_Sync_Timer nat
  | Wake_All_Senders
  | After_State_Ch nat drbd_state drbd_state chg_state_flags bool
  | After_Conn_State_Ch drbd_conns drbd_state drbd_state chg_state_flags
  | Send_State_Req nat st_chg
  | Conn_Send_State_Req st_chg
  | Khelper nat string
  | Snapshot_Sync_Setup nat
  | Send_Sync_Uuid nat u64
  | Send_Uuids nat "u64 list"
  | Send_Sr_Reply nat drbd_state_rv
  | Conn_Send_Sr_Reply drbd_state_rv

record drbd_connection =
  resource :: drbd_resource
  cstate :: drbd_conns
  the_net_conf :: "net_conf option"
  agreed_pro_version :: int
  STATE_SENT :: bool
  CONN_WD_ST_CHG_REQ :: bool
  CONN_WD_ST_CHG_OKAY :: bool
  CONN_WD_ST_CHG_FAIL :: bool
  DISCONNECT_SENT :: bool
  RESOLVE_CONFLICTS :: bool
  CONN_DRY_RUN :: bool
  current_tle_nr :: int
  current_tle_writes :: nat
  connect_cnt :: nat
  last_reconnect_jif :: u64
  peer_devices :: "drbd_device list"
  todo :: "st_work list"

definition push_work :: "st_work \<Rightarrow> drbd_connection \<Rightarrow> drbd_connection" where
  "push_work w c = c\<lparr>todo := todo c @ [w]\<rparr>"

definition upd_device :: "nat \<Rightarrow> (drbd_device \<Rightarrow> drbd_device) \<Rightarrow> drbd_connection \<Rightarrow> drbd_connection" where
  "upd_device i f c = c\<lparr>peer_devices := (peer_devices c)[i := f (peer_devices c ! i)]\<rparr>"

text \<open>The state with the suspend flags of the resource.\<close>

definition drbd_read_state :: "drbd_connection \<Rightarrow> nat \<Rightarrow> drbd_state" where
  "drbd_read_state c i = (state (peer_devices c ! i))
     \<lparr>susp := res_susp (resource c), susp_nod := res_susp_nod (resource c),
      susp_fen := res_susp_fen (resource c)\<rparr>"

definition get_ldev_if_state :: "drbd_device \<Rightarrow> drbd_disk_state \<Rightarrow> bool" where
  "get_ldev_if_state d mins \<longleftrightarrow> disk (state d) \<noteq> D_DISKLESS \<and> disk (state d) \<ge> mins"

definition get_ldev :: "drbd_device \<Rightarrow> bool" where
  "get_ldev d = get_ldev_if_state d D_INCONSISTENT"

section \<open>Summaries over the volumes of a connection\<close>

definition conn_all_vols_unconf :: "drbd_connection \<Rightarrow> bool" where
  "conn_all_vols_unconf c = list_all (\<lambda>d. \<not> (disk (state d) \<noteq> D_DISKLESS \<or>
     conn (state d) \<noteq> C_STANDALONE \<or> role (state d) \<noteq> R_SECONDARY)) (peer_devices c)"

definition max_role :: "drbd_role \<Rightarrow> drbd_role \<Rightarrow> drbd_role" where
  "max_role role1 role2 =
     (if role1 = R_PRIMARY \<or> role2 = R_PRIMARY then R_PRIMARY
      else if role1 = R_SECONDARY \<or> role2 = R_SECONDARY then R_SECONDARY else R_UNKNOWN)"

definition min_role :: "drbd_role \<Rightarrow> drbd_role \<Rightarrow> drbd_role" where
  "min_role role1 role2 =
     (if role1 = R_UNKNOWN \<or> role2 = R_UNKNOWN then R_UNKNOWN
      else if role1 = R_SECONDARY \<or> role2 = R_SECONDARY then R_SECONDARY else R_PRIMARY)"

definition conn_highest_role :: "drbd_connection \<Rightarrow> drbd_role" where
  "conn_highest_role c = foldl (\<lambda>r d. max_role r (role (state d))) R_UNKNOWN (peer_devices c)"

definition conn_highest_peer :: "drbd_connection \<Rightarrow> drbd_role" where
  "conn_highest_peer c = foldl (\<lambda>r d. max_role r (peer (state d))) R_UNKNOWN (peer_devices c)"

definition conn_highest_disk :: "drbd_connection \<Rightarrow> drbd_disk_state" where
  "conn_highest_disk c = foldl (\<lambda>r d. max r (disk (state d))) D_DISKLESS (peer_devices c)"

definition conn_lowest_disk :: "drbd_connection \<Rightarrow> drbd_disk_state" where
  "conn_lowest_disk c = foldl (\<lambda>r d. min r (disk (state d))) D_MASK (peer_devices c)"

definition conn_highest_pdsk :: "drbd_connection \<Rightarrow> drbd_disk_state" where
  "conn_highest_pdsk c = foldl (\<lambda>r d. max r (pdsk (state d))) D_DISKLESS (peer_devices c)"

definition conn_lowest_conn :: "drbd_connection \<Rightarrow> drbd_conns" where
  "conn_lowest_conn c = foldl (\<lambda>r d. min r (conn (state d))) C_MASK (peer_devices c)"

definition no_peer_wf_report_params :: "drbd_connection \<Rightarrow> bool" where
  "no_peer_wf_report_params c =
     list_all (\<lambda>d. conn (state d) \<noteq> C_WF_REPORT_PARAMS) (peer_devices c)"

section \<open>Which changes need the peer\<close>

definition cl_wide_st_chg :: "drbd_state \<Rightarrow> drbd_state \<Rightarrow> bool" where
  "cl_wide_st_chg os ns \<longleftrightarrow>
     (conn os \<ge> C_CONNECTED \<and> conn ns \<ge> C_CONNECTED \<and>
      ((role os \<noteq> R_PRIMARY \<and> role ns = R_PRIMARY) \<or>
       (conn os \<noteq> C_STARTING_SYNC_T \<and> conn ns = C_STARTING_SYNC_T) \<or>
       (conn os \<noteq> C_STARTING_SYNC_S \<and> conn ns = C_STARTING_SYNC_S) \<or>
       (disk os \<noteq> D_FAILED \<and> disk ns = D_FAILED))) \<or>
     (conn os \<ge> C_CONNECTED \<and> conn ns = C_DISCONNECTING) \<or>
     (conn os = C_CONNECTED \<and> conn ns = C_VERIFY_S) \<or>
     (conn os = C_CONNECTED \<and> conn ns = C_WF_REPORT_PARAMS)"

section \<open>Validity of states and transitions\<close>

text \<open>The fencing policy the engine sees: that of the disk configuration while the disk is usable.\<close>

definition cur_fencing :: "drbd_device \<Rightarrow> drbd_fencing_p" where
  "cur_fencing d = (if get_ldev d then fencing (ldev d) else FP_DONT_CARE)"

definition two_primaries_rv :: "drbd_connection \<Rightarrow> drbd_state \<Rightarrow> drbd_state_rv" where
  "two_primaries_rv c ns = (case the_net_conf c of None \<Rightarrow> SS_SUCCESS
    | Some nc \<Rightarrow> if \<not> two_primaries nc \<and> role ns = R_PRIMARY then
                   (if peer ns = R_PRIMARY then SS_TWO_PRIMARIES
                    else if conn_highest_peer c = R_PRIMARY then SS_O_VOL_PEER_PRI
                    else SS_SUCCESS)
                 else SS_SUCCESS)"

definition is_verify :: "drbd_state \<Rightarrow> bool" where
  "is_verify s \<longleftrightarrow> conn s = C_VERIFY_S \<or> conn s = C_VERIFY_T"

text \<open>
  The chain of checks in the order of the code. The \<open>verify_alg\<close> check reads the network
  configuration without testing the pointer: \<open>None\<close> when there is none.
\<close>

definition is_valid_state :: "drbd_connection \<Rightarrow> nat \<Rightarrow> drbd_state \<Rightarrow> drbd_state_rv option" where
  "is_valid_state c i ns =
     (let d = peer_devices c ! i; fp = cur_fencing d; rv = two_primaries_rv c ns in
      if rv_nr rv \<le> 0 then Some rv
      else if role ns = R_SECONDARY \<and> open_cnt d \<noteq> 0 then Some SS_DEVICE_IN_USE
      else if role ns = R_PRIMARY \<and> conn ns < C_CONNECTED \<and> disk ns < D_UP_TO_DATE
        then Some SS_NO_UP_TO_DATE_DISK
      else if fp \<ge> FP_RESOURCE \<and> role ns = R_PRIMARY \<and> conn ns < C_CONNECTED \<and> pdsk ns \<ge> D_UNKNOWN
        then Some SS_PRIMARY_NOP
      else if role ns = R_PRIMARY \<and> disk ns \<le> D_INCONSISTENT \<and> pdsk ns \<le> D_INCONSISTENT
        then Some SS_NO_UP_TO_DATE_DISK
      else if conn ns > C_CONNECTED \<and> disk ns < D_INCONSISTENT then Some SS_NO_LOCAL_DISK
      else if conn ns > C_CONNECTED \<and> pdsk ns < D_INCONSISTENT then Some SS_NO_REMOTE_DISK
      else if conn ns > C_CONNECTED \<and> disk ns < D_UP_TO_DATE \<and> pdsk ns < D_UP_TO_DATE
        then Some SS_NO_UP_TO_DATE_DISK
      else if (conn ns = C_CONNECTED \<or> conn ns = C_WF_BITMAP_S \<or> conn ns = C_SYNC_SOURCE \<or>
               conn ns = C_PAUSED_SYNC_S) \<and> disk ns = D_OUTDATED
        then Some SS_CONNECTED_OUTDATES
      else if is_verify ns \<and> the_net_conf c = None then None
      else if is_verify ns \<and> verify_alg (the (the_net_conf c)) = [] then Some SS_NO_VERIFY_ALG
      else if is_verify ns \<and> agreed_pro_version c < 88 then Some SS_NOT_SUPPORTED
      else if role ns = R_PRIMARY \<and> disk ns < D_UP_TO_DATE \<and> pdsk ns < D_UP_TO_DATE
        then Some SS_NO_UP_TO_DATE_DISK
      else if (conn ns = C_STARTING_SYNC_S \<or> conn ns = C_STARTING_SYNC_T) \<and> pdsk ns = D_UNKNOWN
        then Some SS_NEED_CONNECTION
      else if conn ns \<ge> C_CONNECTED \<and> pdsk ns = D_UNKNOWN then Some SS_CONNECTED_OUTDATES
      else Some rv)"

text \<open>
  Every test of \<open>is_valid_soft_transition\<close> overwrites the verdict of those before it: the last
  one that applies wins.
\<close>

definition is_valid_soft_transition :: "drbd_state \<Rightarrow> drbd_state \<Rightarrow> drbd_connection \<Rightarrow> drbd_state_rv" where
  "is_valid_soft_transition os ns c =
    (let rv = SS_SUCCESS;
         rv = (if (conn ns = C_STARTING_SYNC_T \<or> conn ns = C_STARTING_SYNC_S) \<and> conn os > C_CONNECTED
               then SS_RESYNC_RUNNING else rv);
         rv = (if conn ns = C_DISCONNECTING \<and> conn os = C_STANDALONE then SS_ALREADY_STANDALONE else rv);
         rv = (if disk ns > D_ATTACHING \<and> disk os = D_DISKLESS then SS_IS_DISKLESS else rv);
         rv = (if conn ns = C_WF_CONNECTION \<and> conn os < C_UNCONNECTED then SS_NO_NET_CONFIG else rv);
         rv = (if disk ns = D_OUTDATED \<and> disk os < D_OUTDATED \<and> disk os \<noteq> D_ATTACHING
               then SS_LOWER_THAN_OUTDATED else rv);
         rv = (if conn ns = C_DISCONNECTING \<and> conn os = C_UNCONNECTED then SS_IN_TRANSIENT_STATE else rv);
         rv = (if STATE_SENT c \<and> \<not> (conn os = C_WF_REPORT_PARAMS \<or>
                 (conn ns = C_WF_REPORT_PARAMS \<and> conn os = C_WF_CONNECTION))
               then SS_IN_TRANSIENT_STATE else rv);
         rv = (if is_verify ns \<and> conn os < C_CONNECTED then SS_NEED_CONNECTION else rv);
         rv = (if is_verify ns \<and> conn ns \<noteq> conn os \<and> conn os > C_CONNECTED then SS_RESYNC_RUNNING else rv);
         rv = (if (conn ns = C_STARTING_SYNC_S \<or> conn ns = C_STARTING_SYNC_T) \<and> conn os < C_CONNECTED
               then SS_NEED_CONNECTION else rv);
         rv = (if (conn ns = C_SYNC_TARGET \<or> conn ns = C_SYNC_SOURCE) \<and> conn os < C_WF_REPORT_PARAMS
               then SS_NEED_CONNECTION else rv);
         rv = (if conn ns = C_DISCONNECTING \<and> pdsk ns = D_OUTDATED \<and> conn os < C_CONNECTED \<and> pdsk os > D_OUTDATED
               then SS_OUTDATE_WO_CONN else rv)
     in rv)"

definition is_valid_conn_transition :: "drbd_conns \<Rightarrow> drbd_conns \<Rightarrow> drbd_state_rv" where
  "is_valid_conn_transition oc nc =
     (if oc = nc then SS_NOTHING_TO_DO
      else if oc = C_STANDALONE \<and> nc = C_DISCONNECTING then SS_ALREADY_STANDALONE
      else if oc = C_STANDALONE \<and> nc \<noteq> C_UNCONNECTED then SS_NEED_CONNECTION
      else if oc < C_WF_REPORT_PARAMS \<and> nc \<ge> C_CONNECTED then SS_NEED_CONNECTION
      else if oc \<ge> C_TIMEOUT \<and> oc \<le> C_TEAR_DOWN \<and> nc \<noteq> C_UNCONNECTED \<and> nc \<noteq> C_DISCONNECTING
        then SS_IN_TRANSIENT_STATE
      else if oc = C_DISCONNECTING \<and> nc \<noteq> C_STANDALONE then SS_IN_TRANSIENT_STATE
      else SS_SUCCESS)"

definition is_valid_transition :: "drbd_state \<Rightarrow> drbd_state \<Rightarrow> drbd_state_rv" where
  "is_valid_transition os ns =
     (if disk ns = D_FAILED \<and> disk os = D_DISKLESS then SS_IS_DISKLESS
      else is_valid_conn_transition (conn os) (conn ns))"

section \<open>Implied changes\<close>

text \<open>\<open>sanitize_state\<close>, one definition per block of the function, composed in its order.\<close>

definition san_disconnected :: "drbd_state \<Rightarrow> drbd_state" where
  "san_disconnected ns =
     (if conn ns < C_CONNECTED then
        ns\<lparr>peer_isp := False, peer := R_UNKNOWN,
           pdsk := (if pdsk ns > D_UNKNOWN \<or> pdsk ns < D_INCONSISTENT then D_UNKNOWN else pdsk ns)\<rparr>
      else ns)"

definition san_unconfigured :: "drbd_state \<Rightarrow> drbd_state" where
  "san_unconfigured ns =
     (if conn ns = C_STANDALONE \<and> disk ns = D_DISKLESS \<and> role ns = R_SECONDARY
      then ns\<lparr>aftr_isp := False\<rparr> else ns)"

definition san_abort_resync :: "drbd_state \<Rightarrow> drbd_state" where
  "san_abort_resync ns =
     (if conn ns > C_CONNECTED \<and> (disk ns \<le> D_FAILED \<or> pdsk ns \<le> D_FAILED)
      then ns\<lparr>conn := C_CONNECTED\<rparr> else ns)"

definition san_negotiating :: "drbd_device \<Rightarrow> drbd_state \<Rightarrow> drbd_state" where
  "san_negotiating d ns =
     (if conn ns < C_CONNECTED \<and> disk ns = D_NEGOTIATING \<and> get_ldev_if_state d D_NEGOTIATING then
        (if ed_uuid d = uuid_current (ldev d)
         then ns\<lparr>disk := disk (new_state_tmp d), pdsk := pdsk (new_state_tmp d)\<rparr>
         else ns\<lparr>disk := D_DISKLESS, pdsk := D_UNKNOWN\<rparr>)
      else ns)"

definition connected_disk :: "drbd_disk_state \<Rightarrow> drbd_disk_state" where
  "connected_disk x = (if x = D_CONSISTENT \<or> x = D_OUTDATED then D_UP_TO_DATE else x)"

definition san_connected :: "drbd_state \<Rightarrow> drbd_state" where
  "san_connected ns =
     (if conn ns \<ge> C_CONNECTED \<and> conn ns < C_AHEAD
      then ns\<lparr>disk := connected_disk (disk ns), pdsk := connected_disk (pdsk ns)\<rparr> else ns)"

text \<open>The table of the switch: \<open>(disk_min, disk_max, pdsk_min, pdsk_max)\<close>.\<close>

fun disk_limits :: "drbd_conns \<Rightarrow> drbd_disk_state \<times> drbd_disk_state \<times> drbd_disk_state \<times> drbd_disk_state" where
  "disk_limits C_WF_BITMAP_T = (D_INCONSISTENT, D_OUTDATED, D_UP_TO_DATE, D_UP_TO_DATE)"
| "disk_limits C_PAUSED_SYNC_T = (D_INCONSISTENT, D_OUTDATED, D_UP_TO_DATE, D_UP_TO_DATE)"
| "disk_limits C_STARTING_SYNC_T = (D_INCONSISTENT, D_OUTDATED, D_UP_TO_DATE, D_UP_TO_DATE)"
| "disk_limits C_WF_SYNC_UUID = (D_INCONSISTENT, D_OUTDATED, D_UP_TO_DATE, D_UP_TO_DATE)"
| "disk_limits C_BEHIND = (D_INCONSISTENT, D_OUTDATED, D_UP_TO_DATE, D_UP_TO_DATE)"
| "disk_limits C_VERIFY_S = (D_UP_TO_DATE, D_UP_TO_DATE, D_UP_TO_DATE, D_UP_TO_DATE)"
| "disk_limits C_VERIFY_T = (D_UP_TO_DATE, D_UP_TO_DATE, D_UP_TO_DATE, D_UP_TO_DATE)"
| "disk_limits C_CONNECTED = (D_DISKLESS, D_UP_TO_DATE, D_DISKLESS, D_UP_TO_DATE)"
| "disk_limits C_WF_BITMAP_S = (D_UP_TO_DATE, D_UP_TO_DATE, D_INCONSISTENT, D_CONSISTENT)"
| "disk_limits C_PAUSED_SYNC_S = (D_UP_TO_DATE, D_UP_TO_DATE, D_INCONSISTENT, D_CONSISTENT)"
| "disk_limits C_STARTING_SYNC_S = (D_UP_TO_DATE, D_UP_TO_DATE, D_INCONSISTENT, D_CONSISTENT)"
| "disk_limits C_AHEAD = (D_UP_TO_DATE, D_UP_TO_DATE, D_INCONSISTENT, D_CONSISTENT)"
| "disk_limits C_SYNC_TARGET = (D_INCONSISTENT, D_INCONSISTENT, D_UP_TO_DATE, D_UP_TO_DATE)"
| "disk_limits C_SYNC_SOURCE = (D_UP_TO_DATE, D_UP_TO_DATE, D_INCONSISTENT, D_INCONSISTENT)"
| "disk_limits _ = (D_DISKLESS, D_UP_TO_DATE, D_INCONSISTENT, D_UNKNOWN)"

definition clamp :: "drbd_disk_state \<Rightarrow> drbd_disk_state \<Rightarrow> drbd_disk_state \<Rightarrow> drbd_disk_state" where
  "clamp lo hi x = (let x = (if x > hi then hi else x) in if x < lo then lo else x)"

definition san_limits :: "drbd_state \<Rightarrow> drbd_state" where
  "san_limits ns = (case disk_limits (conn ns) of (disk_min, disk_max, pdsk_min, pdsk_max) \<Rightarrow>
     ns\<lparr>disk := clamp disk_min disk_max (disk ns), pdsk := clamp pdsk_min pdsk_max (pdsk ns)\<rparr>)"

definition lost_peer :: "drbd_state \<Rightarrow> bool" where
  "lost_peer s \<longleftrightarrow> role s = R_PRIMARY \<and> conn s < C_CONNECTED \<and> pdsk s > D_OUTDATED"

definition no_data :: "drbd_state \<Rightarrow> bool" where
  "no_data s \<longleftrightarrow> role s = R_PRIMARY \<and> disk s < D_UP_TO_DATE \<and> pdsk s < D_UP_TO_DATE"

definition san_susp :: "drbd_fencing_p \<Rightarrow> drbd_on_no_data \<Rightarrow> drbd_state \<Rightarrow> drbd_state \<Rightarrow> drbd_state" where
  "san_susp fp ond os ns =
     ns\<lparr>susp_fen := (if fp = FP_STONITH \<and> lost_peer ns \<and> \<not> lost_peer os then True else susp_fen ns),
        susp_nod := (if ond = OND_SUSPEND_IO \<and> no_data ns \<and> \<not> no_data os then True else susp_nod ns)\<rparr>"

definition any_isp :: "drbd_state \<Rightarrow> bool" where
  "any_isp s \<longleftrightarrow> aftr_isp s \<or> peer_isp s \<or> user_isp s"

definition san_pause :: "drbd_state \<Rightarrow> drbd_state" where
  "san_pause ns =
     (if any_isp ns then
        (if conn ns = C_SYNC_SOURCE then ns\<lparr>conn := C_PAUSED_SYNC_S\<rparr>
         else if conn ns = C_SYNC_TARGET then ns\<lparr>conn := C_PAUSED_SYNC_T\<rparr> else ns)
      else
        (if conn ns = C_PAUSED_SYNC_S then ns\<lparr>conn := C_SYNC_SOURCE\<rparr>
         else if conn ns = C_PAUSED_SYNC_T then ns\<lparr>conn := C_SYNC_TARGET\<rparr> else ns))"

definition sanitize_state :: "drbd_connection \<Rightarrow> nat \<Rightarrow> drbd_state \<Rightarrow> drbd_state \<Rightarrow> drbd_state" where
  "sanitize_state c i os ns =
    (let d = peer_devices c ! i; fp = cur_fencing d;
         ns = san_disconnected ns;
         ns = san_unconfigured ns;
         ns = san_abort_resync ns;
         ns = san_negotiating d ns;
         ns = san_connected ns;
         ns = san_limits ns;
         ns = san_susp fp (on_no_data (resource c)) os ns
     in san_pause ns)"

section \<open>Setting a state\<close>

definition drbd_resume_al :: "drbd_device \<Rightarrow> drbd_device" where
  "drbd_resume_al d = d\<lparr>AL_SUSPENDED := False\<rparr>"

definition BM_SECT_TO_BIT :: "u64 \<Rightarrow> u64" where
  "BM_SECT_TO_BIT x = drop_bit 3 x"

definition BM_BIT_TO_SECT :: "u64 \<Rightarrow> u64" where
  "BM_BIT_TO_SECT x = push_bit 3 x"

definition set_ov_position :: "int \<Rightarrow> drbd_conns \<Rightarrow> drbd_device \<Rightarrow> drbd_device" where
  "set_ov_position apv cs d =
    (let d = (if apv < 90 then d\<lparr>ov_start_sector := 0\<rparr> else d);
         d = d\<lparr>rs_total := bm_bits d, ov_position := 0\<rparr>;
         d = (if cs = C_VERIFY_T then d\<lparr>ov_start_sector := NOT 0\<rparr>
              else let b = BM_SECT_TO_BIT (ov_start_sector d);
                       d = (if b \<ge> rs_total d
                            then d\<lparr>ov_start_sector := BM_BIT_TO_SECT (rs_total d - 1), rs_total := 1\<rparr>
                            else d\<lparr>rs_total := rs_total d - b\<rparr>)
                   in d\<lparr>ov_position := ov_start_sector d\<rparr>)
     in d\<lparr>ov_left := rs_total d\<rparr>)"

definition fifo_set :: "fifo_buffer \<Rightarrow> int \<Rightarrow> fifo_buffer" where
  "fifo_set fb v = fb\<lparr>fifo_values := map (\<lambda>_. v) (fifo_values fb)\<rparr>"

definition drbd_rs_controller_reset :: "drbd_device \<Rightarrow> drbd_device" where
  "drbd_rs_controller_reset d =
     d\<lparr>rs_sect_in := 0, rs_sect_ev := 0, rs_in_flight := 0,
       rs_plan_s := fifo_set ((rs_plan_s d)\<lparr>fifo_total := 0\<rparr>) 0\<rparr>"

definition drbd_should_do_remote :: "drbd_state \<Rightarrow> bool" where
  "drbd_should_do_remote s \<longleftrightarrow> pdsk s = D_UP_TO_DATE \<or>
     (pdsk s \<ge> D_INCONSISTENT \<and> conn s \<ge> C_WF_BITMAP_T \<and> conn s < C_AHEAD)"

definition start_new_tl_epoch :: "drbd_connection \<Rightarrow> drbd_connection" where
  "start_new_tl_epoch c =
     (if current_tle_writes c = 0 then c
      else push_work Wake_All_Senders (c\<lparr>current_tle_writes := 0, current_tle_nr := current_tle_nr c + 1\<rparr>))"

text \<open>The blocks of \<open>__drbd_set_state\<close> that change only the device.\<close>

definition ss_local_cnt :: "drbd_state \<Rightarrow> drbd_state \<Rightarrow> drbd_device \<Rightarrow> drbd_device" where
  "ss_local_cnt os ns d =
     (if (disk os \<noteq> D_FAILED \<and> disk ns = D_FAILED) \<or> (disk os \<noteq> D_DISKLESS \<and> disk ns = D_DISKLESS)
      then d\<lparr>local_cnt := local_cnt d + 1\<rparr> else d)"

definition ss_verify_stopped :: "drbd_state \<Rightarrow> drbd_state \<Rightarrow> drbd_device \<Rightarrow> drbd_device" where
  "ss_verify_stopped os ns d =
     (if is_verify os \<and> conn ns \<le> C_CONNECTED
      then d\<lparr>ov_start_sector := BM_BIT_TO_SECT (bm_bits d - ov_left d)\<rparr> else d)"

definition is_syncing :: "drbd_conns \<Rightarrow> bool" where
  "is_syncing x \<longleftrightarrow> x = C_SYNC_TARGET \<or> x = C_SYNC_SOURCE"

definition is_paused_sync :: "drbd_conns \<Rightarrow> bool" where
  "is_paused_sync x \<longleftrightarrow> x = C_PAUSED_SYNC_T \<or> x = C_PAUSED_SYNC_S"

definition ss_sync_continues :: "u64 \<Rightarrow> drbd_state \<Rightarrow> drbd_state \<Rightarrow> drbd_device \<Rightarrow> drbd_device" where
  "ss_sync_continues jif os ns d =
     (if is_paused_sync (conn os) \<and> is_syncing (conn ns)
      then d\<lparr>rs_paused := rs_paused d + (jif - rs_mark_time d ! rs_last_mark d)\<rparr> else d)"

definition ss_sync_suspended :: "u64 \<Rightarrow> drbd_state \<Rightarrow> drbd_state \<Rightarrow> drbd_device \<Rightarrow> drbd_device" where
  "ss_sync_suspended jif os ns d =
     (if is_syncing (conn os) \<and> is_paused_sync (conn ns)
      then d\<lparr>rs_mark_time := (rs_mark_time d)[rs_last_mark d := jif]\<rparr> else d)"

definition DRBD_SYNC_MARKS :: nat where "DRBD_SYNC_MARKS = 8"

definition ss_verify_starts :: "int \<Rightarrow> u64 \<Rightarrow> drbd_state \<Rightarrow> drbd_state \<Rightarrow> drbd_device \<Rightarrow> drbd_device" where
  "ss_verify_starts apv jif os ns d =
     (if conn os = C_CONNECTED \<and> is_verify ns then
        let d = set_ov_position apv (conn ns) d;
            d = d\<lparr>rs_start := jif, rs_last_events := 0, rs_last_sect_ev := 0,
                  ov_last_oos_size := 0, ov_last_oos_start := 0,
                  rs_mark_left := replicate DRBD_SYNC_MARKS (ov_left d),
                  rs_mark_time := replicate DRBD_SYNC_MARKS jif\<rparr>
        in drbd_rs_controller_reset d
      else d)"

text \<open>The metadata flags that follow from the new state.\<close>

definition md_flags_of :: "bool \<Rightarrow> drbd_state \<Rightarrow> u32 \<Rightarrow> u32" where
  "md_flags_of crashed s old =
    (let mdf = old AND NOT (MDF_CONSISTENT OR MDF_PRIMARY_IND OR MDF_CONNECTED_IND OR MDF_WAS_UP_TO_DATE
                            OR MDF_PEER_OUT_DATED OR MDF_CRASHED_PRIMARY);
         mdf = mdf AND NOT MDF_AL_CLEAN;
         mdf = (if crashed then mdf OR MDF_CRASHED_PRIMARY else mdf);
         mdf = (if role s = R_PRIMARY \<or> (pdsk s < D_INCONSISTENT \<and> peer s = R_PRIMARY)
                then mdf OR MDF_PRIMARY_IND else mdf);
         mdf = (if conn s > C_WF_REPORT_PARAMS then mdf OR MDF_CONNECTED_IND else mdf);
         mdf = (if disk s > D_INCONSISTENT then mdf OR MDF_CONSISTENT else mdf);
         mdf = (if disk s > D_OUTDATED then mdf OR MDF_WAS_UP_TO_DATE else mdf);
         mdf = (if pdsk s \<le> D_OUTDATED \<and> pdsk s \<ge> D_INCONSISTENT then mdf OR MDF_PEER_OUT_DATED else mdf)
     in mdf)"

definition ss_meta_data :: "drbd_state \<Rightarrow> drbd_state \<Rightarrow> drbd_device \<Rightarrow> drbd_device" where
  "ss_meta_data os ns d =
     (if get_ldev d then
        let mdf = md_flags_of (CRASHED_PRIMARY d) (state d) (md_flags (ldev d));
            d = (if mdf \<noteq> md_flags (ldev d)
                 then d\<lparr>ldev := (ldev d)\<lparr>md_flags := mdf\<rparr>, MD_DIRTY := True\<rparr> else d)
        in if disk os < D_CONSISTENT \<and> disk ns \<ge> D_CONSISTENT
           then d\<lparr>ed_uuid := uuid_current (ldev d)\<rparr> else d
      else d)"

definition ss_consider_resync :: "drbd_state \<Rightarrow> drbd_state \<Rightarrow> drbd_device \<Rightarrow> drbd_device" where
  "ss_consider_resync os ns d =
     (if disk os = D_INCONSISTENT \<and> pdsk os = D_INCONSISTENT \<and> peer os = R_SECONDARY \<and> peer ns = R_PRIMARY
      then d\<lparr>CONSIDER_RESYNC := True\<rparr> else d)"

definition ss_connected :: "drbd_state \<Rightarrow> drbd_state \<Rightarrow> drbd_device \<Rightarrow> drbd_device" where
  "ss_connected os ns d =
     (if conn os < C_CONNECTED \<and> conn ns \<ge> C_CONNECTED then drbd_resume_al d else d)"

definition ss_reattach :: "u64 \<Rightarrow> drbd_state \<Rightarrow> drbd_state \<Rightarrow> drbd_device \<Rightarrow> drbd_device" where
  "ss_reattach jif os ns d =
     (if (disk os = D_ATTACHING \<or> disk os = D_NEGOTIATING) \<and> disk ns > D_NEGOTIATING
      then d\<lparr>last_reattach_jif := jif\<rparr> else d)"

definition ss_device :: "int \<Rightarrow> u64 \<Rightarrow> drbd_state \<Rightarrow> drbd_state \<Rightarrow> drbd_device \<Rightarrow> drbd_device" where
  "ss_device apv jif os ns d =
    (let d = ss_local_cnt os ns d;
         d = d\<lparr>state := ns\<rparr>;
         d = ss_verify_stopped os ns d;
         d = ss_sync_continues jif os ns d;
         d = ss_sync_suspended jif os ns d;
         d = ss_verify_starts apv jif os ns d;
         d = ss_meta_data os ns d;
         d = ss_consider_resync os ns d;
         d = ss_connected os ns d
     in ss_reattach jif os ns d)"

text \<open>
  The timers and threads that \<open>__drbd_set_state\<close> sets going, in its order. \<open>dirty\<close> tells
  whether the metadata became dirty in this call.
\<close>

definition ss_signals :: "nat \<Rightarrow> bool \<Rightarrow> drbd_state \<Rightarrow> drbd_state \<Rightarrow> st_work list" where
  "ss_signals i dirty os ns =
     (if is_paused_sync (conn os) \<and> conn ns = C_SYNC_TARGET then [Mod_Resync_Timer i] else [])
   @ (if conn os = C_CONNECTED \<and> conn ns = C_VERIFY_S then [Mod_Resync_Timer i] else [])
   @ (if dirty then [Mod_Md_Sync_Timer i] else [])
   @ (if conn os \<noteq> C_DISCONNECTING \<and> conn ns = C_DISCONNECTING then [Receiver_Stop] else [])
   @ (if conn os \<noteq> C_STANDALONE \<and> conn ns = C_STANDALONE then [Receiver_Stop] else [])
   @ (if conn os > C_WF_CONNECTION \<and> conn ns \<le> C_TEAR_DOWN \<and> conn ns \<ge> C_TIMEOUT
      then [Receiver_Restart] else [])"

text \<open>The checks that may refuse the change; the new state is already sanitized.\<close>

definition soft_check :: "drbd_connection \<Rightarrow> nat \<Rightarrow> drbd_state \<Rightarrow> drbd_state \<Rightarrow> drbd_state_rv option" where
  "soft_check c i os ns = do {
     rv \<leftarrow> is_valid_state c i ns;
     if rv < SS_SUCCESS then do {
       orv \<leftarrow> is_valid_state c i os;
       Some (if orv = rv then is_valid_soft_transition os ns c else rv)
     } else Some (is_valid_soft_transition os ns c)
   }"

definition ss_check :: "drbd_connection \<Rightarrow> nat \<Rightarrow> drbd_state \<Rightarrow> drbd_state \<Rightarrow> chg_state_flags \<Rightarrow> drbd_state_rv option" where
  "ss_check c i os ns fl =
     (let rv = is_valid_transition os ns in
      if rv < SS_SUCCESS then Some rv
      else if \<not> cs_test fl CS_HARD then soft_check c i os ns
      else Some rv)"

text \<open>The effects of an accepted change. \<open>mem\<close> tells whether \<open>kmalloc\<close> succeeds.\<close>

definition ss_commit :: "u64 \<Rightarrow> bool \<Rightarrow> drbd_connection \<Rightarrow> nat \<Rightarrow> drbd_state \<Rightarrow> drbd_state \<Rightarrow> chg_state_flags \<Rightarrow> bool
    \<Rightarrow> drbd_connection" where
  "ss_commit jif mem c i os ns fl done_given =
    (let d = peer_devices c ! i;
         d' = ss_device (agreed_pro_version c) jif os ns d;
         c = c\<lparr>peer_devices := (peer_devices c)[i := d'],
               resource := (resource c)\<lparr>res_susp := susp ns, res_susp_nod := susp_nod ns, res_susp_fen := susp_fen ns\<rparr>\<rparr>;
         c = (if drbd_should_do_remote (state d) \<noteq> drbd_should_do_remote ns then start_new_tl_epoch c else c);
         c = (if conn os = C_WF_REPORT_PARAMS \<and> conn ns \<noteq> C_WF_REPORT_PARAMS \<and> no_peer_wf_report_params c
              then c\<lparr>STATE_SENT := False\<rparr> else c);
         c = c\<lparr>todo := todo c @ ss_signals i (\<not> MD_DIRTY d \<and> MD_DIRTY d') os ns\<rparr>;
         c = (if conn os < C_CONNECTED \<and> conn ns \<ge> C_CONNECTED then c\<lparr>connect_cnt := connect_cnt c + 1\<rparr> else c)
     in if mem then push_work (After_State_Ch i os ns fl done_given) c else c)"

definition ss_apply :: "u64 \<Rightarrow> bool \<Rightarrow> drbd_connection \<Rightarrow> nat \<Rightarrow> drbd_state \<Rightarrow> drbd_state \<Rightarrow> chg_state_flags \<Rightarrow> bool
    \<Rightarrow> (drbd_state_rv \<times> drbd_connection) option" where
  "ss_apply jif mem c i os ns fl done_given =
    (if ns = os then Some (SS_NOTHING_TO_DO, c)
     else do {
       rv \<leftarrow> ss_check c i os ns fl;
       if rv < SS_SUCCESS then Some (rv, c)
       else Some (rv, ss_commit jif mem c i os ns fl done_given)
     })"

definition drbd_set_state :: "u64 \<Rightarrow> bool \<Rightarrow> drbd_connection \<Rightarrow> nat \<Rightarrow> drbd_state \<Rightarrow> chg_state_flags \<Rightarrow> bool
    \<Rightarrow> (drbd_state_rv \<times> drbd_connection) option" where
  "drbd_set_state jif mem c i ns fl done_given =
    (let os = drbd_read_state c i in ss_apply jif mem c i os (sanitize_state c i os ns) fl done_given)"

definition drbd_change_state :: "u64 \<Rightarrow> bool \<Rightarrow> drbd_connection \<Rightarrow> nat \<Rightarrow> chg_state_flags \<Rightarrow> st_chg
    \<Rightarrow> (drbd_state_rv \<times> drbd_connection) option" where
  "drbd_change_state jif mem c i fl chg =
     drbd_set_state jif mem c i (apply_mask_val (drbd_read_state c i) chg) fl False"

definition drbd_force_state :: "u64 \<Rightarrow> bool \<Rightarrow> drbd_connection \<Rightarrow> nat \<Rightarrow> st_chg \<Rightarrow> drbd_connection option" where
  "drbd_force_state jif mem c i chg = map_option snd (drbd_change_state jif mem c i CS_HARD chg)"

section \<open>What sanitizing guarantees\<close>

definition sync_target_conns :: "drbd_conns list" where
  "sync_target_conns = [C_STARTING_SYNC_T, C_WF_BITMAP_T, C_WF_SYNC_UUID, C_SYNC_TARGET, C_PAUSED_SYNC_T, C_BEHIND]"

definition sync_source_conns :: "drbd_conns list" where
  "sync_source_conns = [C_STARTING_SYNC_S, C_WF_BITMAP_S, C_SYNC_SOURCE, C_PAUSED_SYNC_S, C_AHEAD]"

text \<open>The consistency between the fields of a state that the engine maintains.\<close>

definition sane :: "drbd_state \<Rightarrow> bool" where
  "sane s \<longleftrightarrow>
     disk s \<le> D_UP_TO_DATE \<and> pdsk s \<le> D_UP_TO_DATE
   \<and> (conn s < C_CONNECTED \<longrightarrow>
        peer s = R_UNKNOWN \<and> \<not> peer_isp s \<and> D_INCONSISTENT \<le> pdsk s \<and> pdsk s \<le> D_UNKNOWN)
   \<and> (conn s \<in> set sync_target_conns \<longrightarrow>
        D_INCONSISTENT \<le> disk s \<and> disk s \<le> D_OUTDATED \<and> pdsk s = D_UP_TO_DATE)
   \<and> (conn s \<in> set sync_source_conns \<longrightarrow>
        disk s = D_UP_TO_DATE \<and> D_INCONSISTENT \<le> pdsk s \<and> pdsk s \<le> D_CONSISTENT)
   \<and> (is_verify s \<longrightarrow> disk s = D_UP_TO_DATE \<and> pdsk s = D_UP_TO_DATE)
   \<and> (conn s = C_SYNC_SOURCE \<or> conn s = C_SYNC_TARGET \<longrightarrow> \<not> any_isp s)
   \<and> (conn s = C_PAUSED_SYNC_S \<or> conn s = C_PAUSED_SYNC_T \<longrightarrow> any_isp s)"

lemma clamp_bounds: "lo \<le> hi \<Longrightarrow> lo \<le> clamp lo hi x \<and> clamp lo hi x \<le> hi"
  by (auto simp: clamp_def Let_def)

lemma clamp_idem: "clamp lo hi (clamp lo hi x) = clamp lo hi x"
  by (auto simp: clamp_def Let_def)

lemma clamp_id: "lo \<le> x \<Longrightarrow> x \<le> hi \<Longrightarrow> clamp lo hi x = x"
  by (auto simp: clamp_def Let_def)

lemma clamp_point: "clamp a a x = a"
  by (auto simp: clamp_def Let_def)

definition within_limits :: "drbd_state \<Rightarrow> bool" where
  "within_limits s = (case disk_limits (conn s) of (disk_min, disk_max, pdsk_min, pdsk_max) \<Rightarrow>
     disk_min \<le> disk s \<and> disk s \<le> disk_max \<and> pdsk_min \<le> pdsk s \<and> pdsk s \<le> pdsk_max)"

lemma disk_limits_order:
  "case disk_limits x of (a, b, p, q) \<Rightarrow> a \<le> b \<and> p \<le> q"
  by (cases x) (simp_all add: enum_order_defs)

lemma within_san_limits: "within_limits (san_limits s)"
  using disk_limits_order [of "conn s"]
  by (auto simp: within_limits_def san_limits_def clamp_bounds split: prod.splits)

text \<open>What each block leaves alone.\<close>

lemma san_limits_keeps [simp]:
  "conn (san_limits s) = conn s" "role (san_limits s) = role s" "peer (san_limits s) = peer s"
  "peer_isp (san_limits s) = peer_isp s" "aftr_isp (san_limits s) = aftr_isp s"
  "user_isp (san_limits s) = user_isp s" "any_isp (san_limits s) = any_isp s"
  "susp (san_limits s) = susp s"
  "susp_fen (san_limits s) = susp_fen s"
  "susp_nod (san_limits s) = susp_nod s"
  by (simp_all add: san_limits_def any_isp_def split: prod.split)

lemma san_connected_keeps [simp]:
  "conn (san_connected s) = conn s" "role (san_connected s) = role s" "peer (san_connected s) = peer s"
  "peer_isp (san_connected s) = peer_isp s" "any_isp (san_connected s) = any_isp s"
  "user_isp (san_connected s) = user_isp s"
  "aftr_isp (san_connected s) = aftr_isp s"
  "susp (san_connected s) = susp s"
  "susp_fen (san_connected s) = susp_fen s"
  "susp_nod (san_connected s) = susp_nod s"
  by (simp_all add: san_connected_def any_isp_def)

lemma san_negotiating_keeps [simp]:
  "conn (san_negotiating d s) = conn s" "role (san_negotiating d s) = role s"
  "peer (san_negotiating d s) = peer s" "peer_isp (san_negotiating d s) = peer_isp s"
  "any_isp (san_negotiating d s) = any_isp s"
  "user_isp (san_negotiating d s) = user_isp s"
  "aftr_isp (san_negotiating d s) = aftr_isp s"
  "susp (san_negotiating d s) = susp s"
  "susp_fen (san_negotiating d s) = susp_fen s"
  "susp_nod (san_negotiating d s) = susp_nod s"
  by (simp_all add: san_negotiating_def any_isp_def)

lemma san_abort_resync_keeps [simp]:
  "role (san_abort_resync s) = role s" "peer (san_abort_resync s) = peer s"
  "peer_isp (san_abort_resync s) = peer_isp s" "any_isp (san_abort_resync s) = any_isp s"
  "disk (san_abort_resync s) = disk s" "pdsk (san_abort_resync s) = pdsk s"
  "user_isp (san_abort_resync s) = user_isp s"
  "aftr_isp (san_abort_resync s) = aftr_isp s"
  "susp (san_abort_resync s) = susp s"
  "susp_fen (san_abort_resync s) = susp_fen s"
  "susp_nod (san_abort_resync s) = susp_nod s"
  by (simp_all add: san_abort_resync_def any_isp_def)

lemma san_unconfigured_keeps [simp]:
  "conn (san_unconfigured s) = conn s" "role (san_unconfigured s) = role s"
  "peer (san_unconfigured s) = peer s" "peer_isp (san_unconfigured s) = peer_isp s"
  "disk (san_unconfigured s) = disk s" "pdsk (san_unconfigured s) = pdsk s"
  "user_isp (san_unconfigured s) = user_isp s"
  "susp (san_unconfigured s) = susp s"
  "susp_fen (san_unconfigured s) = susp_fen s"
  "susp_nod (san_unconfigured s) = susp_nod s"
  by (simp_all add: san_unconfigured_def)

lemma san_disconnected_keeps [simp]:
  "conn (san_disconnected s) = conn s" "role (san_disconnected s) = role s" "disk (san_disconnected s) = disk s"
  "user_isp (san_disconnected s) = user_isp s"
  "aftr_isp (san_disconnected s) = aftr_isp s"
  "susp (san_disconnected s) = susp s"
  "susp_fen (san_disconnected s) = susp_fen s"
  "susp_nod (san_disconnected s) = susp_nod s"
  by (simp_all add: san_disconnected_def)

lemma san_susp_keeps [simp]:
  "conn (san_susp fp ond os s) = conn s" "role (san_susp fp ond os s) = role s"
  "peer (san_susp fp ond os s) = peer s" "disk (san_susp fp ond os s) = disk s"
  "pdsk (san_susp fp ond os s) = pdsk s" "peer_isp (san_susp fp ond os s) = peer_isp s"
  "any_isp (san_susp fp ond os s) = any_isp s"
  "user_isp (san_susp fp ond os s) = user_isp s"
  "aftr_isp (san_susp fp ond os s) = aftr_isp s"
  "susp (san_susp fp ond os s) = susp s"
  by (simp_all add: san_susp_def any_isp_def)

lemma san_pause_keeps [simp]:
  "role (san_pause s) = role s" "peer (san_pause s) = peer s" "disk (san_pause s) = disk s"
  "pdsk (san_pause s) = pdsk s" "peer_isp (san_pause s) = peer_isp s" "any_isp (san_pause s) = any_isp s"
  "user_isp (san_pause s) = user_isp s"
  "aftr_isp (san_pause s) = aftr_isp s"
  "susp (san_pause s) = susp s"
  "susp_fen (san_pause s) = susp_fen s"
  "susp_nod (san_pause s) = susp_nod s"
  by (simp_all add: san_pause_def any_isp_def)

lemma san_abort_resync_low [simp]:
  "conn (san_abort_resync s) < C_CONNECTED \<longleftrightarrow> conn s < C_CONNECTED"
  by (simp add: san_abort_resync_def enum_order_defs)

lemma sane_san_pause:
  assumes "within_limits s"
    and "conn s < C_CONNECTED \<Longrightarrow> peer s = R_UNKNOWN \<and> \<not> peer_isp s"
  shows "sane (san_pause s)"
proof -
  have "conn (san_pause s) =
     (if any_isp s then (if conn s = C_SYNC_SOURCE then C_PAUSED_SYNC_S
         else if conn s = C_SYNC_TARGET then C_PAUSED_SYNC_T else conn s)
      else (if conn s = C_PAUSED_SYNC_S then C_SYNC_SOURCE
         else if conn s = C_PAUSED_SYNC_T then C_SYNC_TARGET else conn s))"
    by (simp add: san_pause_def)
  with assms show ?thesis
    unfolding sane_def within_limits_def is_verify_def sync_target_conns_def sync_source_conns_def
    by (cases "conn s") (auto simp: enum_order_defs disk_nr_inj order_antisym_conv
          intro: disk_nr_inj split: if_splits)
qed

lemma san_disconnected_peer [simp]:
  "conn s < C_CONNECTED \<Longrightarrow> peer (san_disconnected s) = R_UNKNOWN"
  "conn s < C_CONNECTED \<Longrightarrow> \<not> peer_isp (san_disconnected s)"
  by (simp_all add: san_disconnected_def)

lemma within_san_susp: "within_limits (san_susp fp ond os s) = within_limits s"
  by (simp add: within_limits_def)

lemma sanitize_sane: "sane (sanitize_state c i os ns)"
  unfolding sanitize_state_def Let_def
  by (rule sane_san_pause) (simp_all add: within_san_susp within_san_limits)

lemma susp_mono:
  "susp_fen s \<Longrightarrow> susp_fen (san_susp fp ond os s)" "susp_nod s \<Longrightarrow> susp_nod (san_susp fp ond os s)"
  by (simp_all add: san_susp_def)

text \<open>Fields no block of \<open>sanitize_state\<close> touches, and the suspend flags, which it only sets.\<close>

lemma sanitize_keeps:
  "role (sanitize_state c i os ns) = role ns" "user_isp (sanitize_state c i os ns) = user_isp ns"
  "susp (sanitize_state c i os ns) = susp ns"
  "susp_fen ns \<Longrightarrow> susp_fen (sanitize_state c i os ns)"
  "susp_nod ns \<Longrightarrow> susp_nod (sanitize_state c i os ns)"
  by (simp_all add: sanitize_state_def Let_def susp_mono)

lemma sanitize_conn_low: "conn (sanitize_state c i os ns) < C_CONNECTED \<longleftrightarrow> conn ns < C_CONNECTED"
proof -
  have "conn (san_pause s) < C_CONNECTED \<longleftrightarrow> conn s < C_CONNECTED" for s
    by (simp add: san_pause_def enum_order_defs)
  then show ?thesis
    by (simp add: sanitize_state_def Let_def)
qed

lemma sanitize_conn_disconnected:
  assumes "conn ns < C_CONNECTED"
  shows "conn (sanitize_state c i os ns) = conn ns"
proof -
  have "conn (san_pause s) = conn s" if "conn s < C_CONNECTED" for s
    using that by (auto simp: san_pause_def enum_order_defs)
  moreover have "conn (san_abort_resync s) = conn s" if "conn s < C_CONNECTED" for s
    using that by (auto simp: san_abort_resync_def enum_order_defs)
  ultimately show ?thesis
    using assms by (simp add: sanitize_state_def Let_def)
qed

section \<open>Effects of a change\<close>

lemma set_ov_position_state [simp]: "state (set_ov_position apv cs d) = state d"
proof -
  have "state (if b then x else y) = (if b then state x else state y)" for b x y by simp
  then show ?thesis by (simp add: set_ov_position_def Let_def)
qed

lemma ss_blocks_state [simp]:
  "state (ss_local_cnt os ns d) = state d" "state (ss_verify_stopped os ns d) = state d"
  "state (ss_sync_continues jif os ns d) = state d" "state (ss_sync_suspended jif os ns d) = state d"
  "state (ss_verify_starts apv jif os ns d) = state d" "state (ss_consider_resync os ns d) = state d"
  "state (ss_connected os ns d) = state d" "state (ss_reattach jif os ns d) = state d"
  by (simp_all add: ss_local_cnt_def ss_verify_stopped_def ss_sync_continues_def ss_sync_suspended_def
        ss_verify_starts_def ss_consider_resync_def ss_connected_def ss_reattach_def drbd_resume_al_def
        drbd_rs_controller_reset_def Let_def)

lemma ss_meta_data_state [simp]: "state (ss_meta_data os ns d) = state d"
  by (simp add: ss_meta_data_def Let_def)

lemma ss_device_state [simp]: "state (ss_device apv jif os ns d) = ns"
  by (simp add: ss_device_def Let_def)

lemma start_new_tl_epoch_keeps [simp]:
  "peer_devices (start_new_tl_epoch c) = peer_devices c" "resource (start_new_tl_epoch c) = resource c"
  "the_net_conf (start_new_tl_epoch c) = the_net_conf c" "cstate (start_new_tl_epoch c) = cstate c"
  "agreed_pro_version (start_new_tl_epoch c) = agreed_pro_version c"
  by (simp_all add: start_new_tl_epoch_def push_work_def)

lemma ss_commit_fields:
  "peer_devices (ss_commit jif mem c i os ns fl dn) =
     (peer_devices c)[i := ss_device (agreed_pro_version c) jif os ns (peer_devices c ! i)]"
  "resource (ss_commit jif mem c i os ns fl dn) =
     (resource c)\<lparr>res_susp := susp ns, res_susp_nod := susp_nod ns, res_susp_fen := susp_fen ns\<rparr>"
  "the_net_conf (ss_commit jif mem c i os ns fl dn) = the_net_conf c"
  "cstate (ss_commit jif mem c i os ns fl dn) = cstate c"
  "agreed_pro_version (ss_commit jif mem c i os ns fl dn) = agreed_pro_version c"
  by (simp_all add: ss_commit_def Let_def push_work_def)

lemma read_state_ss_commit:
  assumes "i < length (peer_devices c)"
  shows "drbd_read_state (ss_commit jif mem c i os ns fl dn) i = ns"
  using assms by (simp add: drbd_read_state_def ss_commit_fields)

lemma read_state_other:
  assumes "j \<noteq> i"
  shows "drbd_read_state (ss_commit jif mem c i os ns fl dn) j =
    (drbd_read_state c j)\<lparr>susp := susp ns, susp_nod := susp_nod ns, susp_fen := susp_fen ns\<rparr>"
  using assms by (simp add: drbd_read_state_def ss_commit_fields)

text \<open>The ways a call ends, as an elimination rule.\<close>

lemma ss_apply_cases:
  assumes "ss_apply jif mem c i os ns fl dn = Some (rv, c')"
  obtains (same) "ns = os" "rv = SS_NOTHING_TO_DO" "c' = c"
  | (refused) "ns \<noteq> os" "ss_check c i os ns fl = Some rv" "rv < SS_SUCCESS" "c' = c"
  | (committed) "ns \<noteq> os" "ss_check c i os ns fl = Some rv" "SS_SUCCESS \<le> rv"
      "c' = ss_commit jif mem c i os ns fl dn"
proof (cases "ns = os")
  case True
  with assms have "rv = SS_NOTHING_TO_DO" "c' = c" by (simp_all add: ss_apply_def)
  with True same show thesis by blast
next
  case False
  with assms obtain rv0 where *: "ss_check c i os ns fl = Some rv0"
    by (auto simp: ss_apply_def split: Option.bind_splits)
  show thesis
  proof (cases "rv0 < SS_SUCCESS")
    case b: True
    with assms False * have "rv = rv0" "c' = c" by (simp_all add: ss_apply_def)
    with False * b refused show thesis by blast
  next
    case b: False
    with assms False * have "rv = rv0" "c' = ss_commit jif mem c i os ns fl dn" by (simp_all add: ss_apply_def)
    moreover have "SS_SUCCESS \<le> rv0" using b by simp
    ultimately show thesis using False * committed by blast
  qed
qed

lemma ss_check_transition:
  assumes "ss_check c i os ns fl = Some rv" "SS_SUCCESS \<le> rv"
  shows "SS_SUCCESS \<le> is_valid_transition os ns"
  using assms by (auto simp: ss_check_def Let_def split: if_splits)

lemma is_valid_transition_ok:
  assumes "SS_SUCCESS \<le> is_valid_transition os ns"
  shows "SS_SUCCESS \<le> is_valid_conn_transition (conn os) (conn ns) \<and> \<not> (disk ns = D_FAILED \<and> disk os = D_DISKLESS)"
  using assms by (auto simp: is_valid_transition_def enum_order_defs split: if_splits)

text \<open>
  C20: A call of \<open>__drbd_set_state\<close> either refuses the change and leaves the device, its connection
  and its resource exactly as they were (error codes are below \<open>SS_SUCCESS\<close>), or finds nothing to
  do, or commits: then the device has the sanitized state, the suspend flags are those of the new
  state, the state is consistent (\<open>sane\<close>), and every other volume keeps its device unchanged.
\<close>

theorem drbd_set_state_outcome:
  assumes "drbd_set_state jif mem c i ns fl dn = Some (rv, c')" and "i < length (peer_devices c)"
  shows "(if rv < SS_SUCCESS then c' = c
          else drbd_read_state c' i = sanitize_state c i (drbd_read_state c i) ns
             \<and> sane (drbd_read_state c' i)
             \<and> (\<forall>j. j \<noteq> i \<longrightarrow> peer_devices c' ! j = peer_devices c ! j)
             \<and> length (peer_devices c') = length (peer_devices c))"
proof -
  define os ns' where "os = drbd_read_state c i" and "ns' = sanitize_state c i os ns"
  have sane: "sane ns'" by (simp add: ns'_def sanitize_sane)
  have "ss_apply jif mem c i os ns' fl dn = Some (rv, c')"
    using assms(1) by (simp add: drbd_set_state_def Let_def os_def ns'_def)
  then have "if rv < SS_SUCCESS then c' = c else drbd_read_state c' i = ns'
     \<and> (\<forall>j. j \<noteq> i \<longrightarrow> peer_devices c' ! j = peer_devices c ! j)
     \<and> length (peer_devices c') = length (peer_devices c)"
  proof (cases rule: ss_apply_cases)
    case same
    then show ?thesis by (simp add: os_def enum_order_defs)
  qed (simp_all add: assms(2) read_state_ss_commit ss_commit_fields)
  with sane show ?thesis by (auto simp: ns'_def os_def split: if_splits)
qed

end
