(* ===== verification/State_Facts.thy ===== *)
theory State_Facts
  imports State_Engine
begin

text \<open>
  What the checks and the implied changes of the state engine guarantee: an accepted soft change
  keeps the data safe, the connection state moves along its ladder, the metadata flags mirror the
  state, an interrupted verify resumes where it stopped, and no change of state dereferences a
  missing network configuration.
\<close>

section \<open>Validity of the accepted states\<close>

lemma rv_chain:
  "e \<noteq> SS_SUCCESS \<Longrightarrow> ((if b then Some e else x) = Some SS_SUCCESS) = (\<not> b \<and> x = Some SS_SUCCESS)"
  "((if b then None else x) = Some SS_SUCCESS) = (\<not> b \<and> x = Some SS_SUCCESS)"
  by simp_all

definition rv_le :: "drbd_state_rv option \<Rightarrow> bool" where
  "rv_le r = (case r of None \<Rightarrow> True | Some e \<Rightarrow> rv_nr e \<le> 1)"

lemma rv_le_if: "rv_le x \<Longrightarrow> rv_le y \<Longrightarrow> rv_le (if b then x else y)"
  by simp

lemma two_primaries_rv_le: "rv_nr (two_primaries_rv c ns) \<le> 1"
  by (simp add: two_primaries_rv_def split: option.split)

lemma is_valid_state_ok:
  assumes "is_valid_state c i ns = Some rv" "SS_SUCCESS \<le> rv"
  shows "rv = SS_SUCCESS"
proof -
  have "rv_le (is_valid_state c i ns)"
    unfolding is_valid_state_def Let_def
    by (intro rv_le_if) (simp_all add: rv_le_def two_primaries_rv_le)
  with assms show ?thesis by (auto simp: rv_le_def enum_order_defs intro: rv_nr_inj)
qed

lemma is_valid_state_iff:
  "is_valid_state c i ns = Some SS_SUCCESS \<longleftrightarrow>
     two_primaries_rv c ns = SS_SUCCESS
   \<and> \<not> (role ns = R_SECONDARY \<and> open_cnt (peer_devices c ! i) \<noteq> 0)
   \<and> \<not> (role ns = R_PRIMARY \<and> conn ns < C_CONNECTED \<and> disk ns < D_UP_TO_DATE)
   \<and> \<not> (cur_fencing (peer_devices c ! i) \<ge> FP_RESOURCE \<and> role ns = R_PRIMARY \<and> conn ns < C_CONNECTED \<and> pdsk ns \<ge> D_UNKNOWN)
   \<and> \<not> (role ns = R_PRIMARY \<and> disk ns \<le> D_INCONSISTENT \<and> pdsk ns \<le> D_INCONSISTENT)
   \<and> \<not> (conn ns > C_CONNECTED \<and> disk ns < D_INCONSISTENT)
   \<and> \<not> (conn ns > C_CONNECTED \<and> pdsk ns < D_INCONSISTENT)
   \<and> \<not> (conn ns > C_CONNECTED \<and> disk ns < D_UP_TO_DATE \<and> pdsk ns < D_UP_TO_DATE)
   \<and> \<not> ((conn ns = C_CONNECTED \<or> conn ns = C_WF_BITMAP_S \<or> conn ns = C_SYNC_SOURCE \<or> conn ns = C_PAUSED_SYNC_S)
        \<and> disk ns = D_OUTDATED)
   \<and> \<not> (is_verify ns \<and> the_net_conf c = None)
   \<and> \<not> (is_verify ns \<and> verify_alg (the (the_net_conf c)) = [])
   \<and> \<not> (is_verify ns \<and> agreed_pro_version c < 88)
   \<and> \<not> (role ns = R_PRIMARY \<and> disk ns < D_UP_TO_DATE \<and> pdsk ns < D_UP_TO_DATE)
   \<and> \<not> ((conn ns = C_STARTING_SYNC_S \<or> conn ns = C_STARTING_SYNC_T) \<and> pdsk ns = D_UNKNOWN)
   \<and> \<not> (conn ns \<ge> C_CONNECTED \<and> pdsk ns = D_UNKNOWN)" (is "?L \<longleftrightarrow> ?R")
proof -
  have "two_primaries_rv c ns = SS_SUCCESS \<or> rv_nr (two_primaries_rv c ns) \<le> 0"
    by (simp add: two_primaries_rv_def split: option.split)
  moreover have "?L \<longleftrightarrow> ?R" if "two_primaries_rv c ns = SS_SUCCESS"
    unfolding is_valid_state_def Let_def that
    by (simp only: rv_chain drbd_state_rv.distinct rv_nr.simps simp_thms not_False_eq_True if_False
          not_one_le_zero)
  moreover have "?L \<longleftrightarrow> ?R" if "rv_nr (two_primaries_rv c ns) \<le> 0"
  proof -
    have ne: "two_primaries_rv c ns \<noteq> SS_SUCCESS" using that by auto
    have v: "is_valid_state c i ns = Some (two_primaries_rv c ns)"
      unfolding is_valid_state_def Let_def using that by (rule if_P)
    show ?thesis by (simp only: v ne option.inject simp_thms)
  qed
  ultimately show ?thesis by (rule disjE)
qed

lemma soft_check_ok:
  assumes "soft_check c i os ns = Some rv" "SS_SUCCESS \<le> rv" "is_valid_state c i os = Some SS_SUCCESS"
  shows "is_valid_state c i ns = Some SS_SUCCESS"
proof -
  obtain rv0 where *: "is_valid_state c i ns = Some rv0"
    using assms(1) by (auto simp: soft_check_def split: Option.bind_splits)
  show ?thesis
  proof (cases "rv0 < SS_SUCCESS")
    case True
    then have "rv0 \<noteq> SS_SUCCESS" by auto
    with True * assms show ?thesis by (simp add: soft_check_def)
  next
    case False
    with * is_valid_state_ok [OF *] show ?thesis by simp
  qed
qed

text \<open>What a valid state promises about the data and the roles.\<close>

definition data_safe :: "drbd_connection \<Rightarrow> nat \<Rightarrow> drbd_state \<Rightarrow> bool" where
  "data_safe c i s \<longleftrightarrow>
     (role s = R_PRIMARY \<longrightarrow>
        (disk s = D_UP_TO_DATE \<or> pdsk s = D_UP_TO_DATE)
      \<and> (conn s < C_CONNECTED \<longrightarrow> disk s = D_UP_TO_DATE)
      \<and> (conn s < C_CONNECTED \<and> cur_fencing (peer_devices c ! i) \<ge> FP_RESOURCE \<longrightarrow> pdsk s < D_UNKNOWN)
      \<and> (\<forall>nc. the_net_conf c = Some nc \<and> \<not> two_primaries nc \<longrightarrow>
             peer s \<noteq> R_PRIMARY \<and> conn_highest_peer c \<noteq> R_PRIMARY))
   \<and> (role s = R_SECONDARY \<longrightarrow> open_cnt (peer_devices c ! i) = 0)
   \<and> (conn s > C_CONNECTED \<longrightarrow> disk s \<ge> D_INCONSISTENT \<and> pdsk s \<ge> D_INCONSISTENT
        \<and> (disk s = D_UP_TO_DATE \<or> pdsk s = D_UP_TO_DATE))
   \<and> (conn s \<ge> C_CONNECTED \<longrightarrow> pdsk s \<noteq> D_UNKNOWN)"

lemma two_primaries_ok:
  assumes "two_primaries_rv c s = SS_SUCCESS" "role s = R_PRIMARY" "the_net_conf c = Some nc" "\<not> two_primaries nc"
  shows "peer s \<noteq> R_PRIMARY \<and> conn_highest_peer c \<noteq> R_PRIMARY"
  using assms by (auto simp: two_primaries_rv_def split: if_splits)

lemma is_valid_state_safe:
  assumes "is_valid_state c i s = Some SS_SUCCESS" "disk s \<le> D_UP_TO_DATE" "pdsk s \<le> D_UP_TO_DATE"
  shows "data_safe c i s"
proof -
  have eq: "x = D_UP_TO_DATE" if "x \<le> D_UP_TO_DATE" "\<not> x < D_UP_TO_DATE" for x :: drbd_disk_state
    using that by simp
  note A = assms(1) [unfolded is_valid_state_iff]
  note valid = A [THEN conjunct1] A [THEN conjunct2, THEN conjunct1]
    A [THEN conjunct2, THEN conjunct2, THEN conjunct1]
    A [THEN conjunct2, THEN conjunct2, THEN conjunct2, THEN conjunct1]
    A [THEN conjunct2, THEN conjunct2, THEN conjunct2, THEN conjunct2, THEN conjunct1]
    A [THEN conjunct2, THEN conjunct2, THEN conjunct2, THEN conjunct2, THEN conjunct2, THEN conjunct1]
    A [THEN conjunct2, THEN conjunct2, THEN conjunct2, THEN conjunct2, THEN conjunct2, THEN conjunct2, THEN conjunct1]
    A [THEN conjunct2, THEN conjunct2, THEN conjunct2, THEN conjunct2, THEN conjunct2, THEN conjunct2, THEN conjunct2, THEN conjunct1]
    A [THEN conjunct2, THEN conjunct2, THEN conjunct2, THEN conjunct2, THEN conjunct2, THEN conjunct2, THEN conjunct2, THEN conjunct2, THEN conjunct1]
    A [THEN conjunct2, THEN conjunct2, THEN conjunct2, THEN conjunct2, THEN conjunct2, THEN conjunct2, THEN conjunct2, THEN conjunct2, THEN conjunct2, THEN conjunct1]
    A [THEN conjunct2, THEN conjunct2, THEN conjunct2, THEN conjunct2, THEN conjunct2, THEN conjunct2, THEN conjunct2, THEN conjunct2, THEN conjunct2, THEN conjunct2, THEN conjunct1]
    A [THEN conjunct2, THEN conjunct2, THEN conjunct2, THEN conjunct2, THEN conjunct2, THEN conjunct2, THEN conjunct2, THEN conjunct2, THEN conjunct2, THEN conjunct2, THEN conjunct2, THEN conjunct1]
    A [THEN conjunct2, THEN conjunct2, THEN conjunct2, THEN conjunct2, THEN conjunct2, THEN conjunct2, THEN conjunct2, THEN conjunct2, THEN conjunct2, THEN conjunct2, THEN conjunct2, THEN conjunct2, THEN conjunct1]
    A [THEN conjunct2, THEN conjunct2, THEN conjunct2, THEN conjunct2, THEN conjunct2, THEN conjunct2, THEN conjunct2, THEN conjunct2, THEN conjunct2, THEN conjunct2, THEN conjunct2, THEN conjunct2, THEN conjunct2, THEN conjunct1]
    A [THEN conjunct2, THEN conjunct2, THEN conjunct2, THEN conjunct2, THEN conjunct2, THEN conjunct2, THEN conjunct2, THEN conjunct2, THEN conjunct2, THEN conjunct2, THEN conjunct2, THEN conjunct2, THEN conjunct2, THEN conjunct2]
  have rv: "two_primaries_rv c s = SS_SUCCESS" by (rule valid(1))
  have 1: "conn s < C_CONNECTED \<Longrightarrow> role s = R_PRIMARY \<Longrightarrow> disk s = D_UP_TO_DATE"
    using valid(3) eq [OF assms(2)] by blast
  have 2: "conn s < C_CONNECTED \<Longrightarrow> role s = R_PRIMARY \<Longrightarrow> cur_fencing (peer_devices c ! i) \<ge> FP_RESOURCE \<Longrightarrow> pdsk s < D_UNKNOWN"
    using valid(4) not_le by blast
  have 3: "role s = R_SECONDARY \<Longrightarrow> open_cnt (peer_devices c ! i) = 0" using valid(2) by blast
  have 4: "role s = R_PRIMARY \<Longrightarrow> disk s = D_UP_TO_DATE \<or> pdsk s = D_UP_TO_DATE"
    using valid(13) eq [OF assms(2)] eq [OF assms(3)] by blast
  have 5: "conn s > C_CONNECTED \<Longrightarrow> disk s \<ge> D_INCONSISTENT \<and> pdsk s \<ge> D_INCONSISTENT"
    using valid(6,7) not_less by blast
  have 6: "conn s > C_CONNECTED \<Longrightarrow> disk s = D_UP_TO_DATE \<or> pdsk s = D_UP_TO_DATE"
    using valid(8) eq [OF assms(2)] eq [OF assms(3)] by blast
  have 7: "conn s \<ge> C_CONNECTED \<Longrightarrow> pdsk s \<noteq> D_UNKNOWN" using valid(15) by blast
  show ?thesis
    unfolding data_safe_def using rv two_primaries_ok 1 2 3 4 5 6 7 by blast
qed

text \<open>
  C3: A change made without \<open>CS_HARD\<close> from a valid state ends in a valid state, so it keeps the
  data safe: a primary always reaches up-to-date data (its own while disconnected), never coexists
  with a primary peer unless two primaries are allowed, with a fencing policy is not left alone with
  a peer of unknown state, a device in use is not demoted, and resynchronisation states have data
  on both sides.
\<close>

theorem soft_change_safe:
  assumes "drbd_set_state jif mem c i ns fl dn = Some (rv, c')" "SS_SUCCESS \<le> rv"
    and "i < length (peer_devices c)" and "\<not> cs_test fl CS_HARD"
    and "is_valid_state c i (drbd_read_state c i) = Some SS_SUCCESS"
  shows "is_valid_state c i (drbd_read_state c' i) = Some SS_SUCCESS
       \<and> data_safe c i (drbd_read_state c' i)"
proof -
  define os ns' where "os = drbd_read_state c i" and "ns' = sanitize_state c i os ns"
  have sane: "sane ns'" by (simp add: ns'_def sanitize_sane)
  have os: "is_valid_state c i os = Some SS_SUCCESS" using assms(5) by (simp add: os_def)
  have "ss_apply jif mem c i os ns' fl dn = Some (rv, c')"
    using assms(1) by (simp add: drbd_set_state_def Let_def os_def ns'_def)
  then have *: "is_valid_state c i ns' = Some SS_SUCCESS \<and> drbd_read_state c' i = ns'"
  proof (cases rule: ss_apply_cases)
    case same
    with os show ?thesis by (simp add: os_def)
  next
    case refused
    with assms(2) show ?thesis by simp
  next
    case committed
    from committed(2,3) assms(4) have "soft_check c i os ns' = Some rv"
      by (auto simp: ss_check_def Let_def split: if_splits)
    from soft_check_ok [OF this committed(3) os] committed(4) show ?thesis
      by (simp add: read_state_ss_commit assms(3))
  qed
  have "data_safe c i ns'"
    using * sane by (intro is_valid_state_safe) (simp_all add: sane_def)
  with * show ?thesis by simp
qed

lemma conn_transition_ladder:
  assumes "SS_SUCCESS \<le> is_valid_conn_transition x y" "x \<noteq> y"
  shows "(x = C_STANDALONE \<longrightarrow> y = C_UNCONNECTED)
    \<and> (x = C_DISCONNECTING \<longrightarrow> y = C_STANDALONE)
    \<and> (C_TIMEOUT \<le> x \<and> x \<le> C_TEAR_DOWN \<longrightarrow> y = C_UNCONNECTED \<or> y = C_DISCONNECTING)
    \<and> (x < C_WF_REPORT_PARAMS \<longrightarrow> y < C_CONNECTED)"
proof -
  have e: "\<not> SS_SUCCESS \<le> SS_ALREADY_STANDALONE" "\<not> SS_SUCCESS \<le> SS_NEED_CONNECTION"
    "\<not> SS_SUCCESS \<le> SS_IN_TRANSIENT_STATE" by (simp_all add: enum_order_defs)
  show ?thesis
    using assms unfolding is_valid_conn_transition_def by (auto simp: e not_le split: if_splits)
qed

text \<open>
  C21: Whatever the flags, \<open>CS_HARD\<close> included, an accepted change moves the connection state only
  along its ladder: from StandAlone only to Unconnected, from Disconnecting only to StandAlone, from
  a network error only to Unconnected or Disconnecting, and no connected state is entered except
  from WFReportParams or another connected state; a detached disk does not fail again.
\<close>

theorem conn_ladder:
  assumes "drbd_set_state jif mem c i ns fl dn = Some (rv, c')" "SS_SUCCESS \<le> rv"
    and "i < length (peer_devices c)"
  shows "(let x = conn (drbd_read_state c i); y = conn (drbd_read_state c' i) in
      x \<noteq> y \<longrightarrow> (x = C_STANDALONE \<longrightarrow> y = C_UNCONNECTED)
         \<and> (x = C_DISCONNECTING \<longrightarrow> y = C_STANDALONE)
         \<and> (C_TIMEOUT \<le> x \<and> x \<le> C_TEAR_DOWN \<longrightarrow> y = C_UNCONNECTED \<or> y = C_DISCONNECTING)
         \<and> (x < C_WF_REPORT_PARAMS \<longrightarrow> y < C_CONNECTED))
    \<and> \<not> (disk (drbd_read_state c i) = D_DISKLESS \<and> disk (drbd_read_state c' i) = D_FAILED)"
proof -
  define os ns' where "os = drbd_read_state c i" and "ns' = sanitize_state c i os ns"
  have "ss_apply jif mem c i os ns' fl dn = Some (rv, c')"
    using assms(1) by (simp add: drbd_set_state_def Let_def os_def ns'_def)
  then show ?thesis
  proof (cases rule: ss_apply_cases)
    case same
    then show ?thesis by simp
  next
    case refused
    with assms(2) show ?thesis by simp
  next
    case committed
    have r: "drbd_read_state c' i = ns'" using committed(4) by (simp add: read_state_ss_commit assms(3))
    note ok = is_valid_transition_ok [OF ss_check_transition [OF committed(2,3)]]
    have "conn os \<noteq> conn ns' \<longrightarrow> (conn os = C_STANDALONE \<longrightarrow> conn ns' = C_UNCONNECTED)
         \<and> (conn os = C_DISCONNECTING \<longrightarrow> conn ns' = C_STANDALONE)
         \<and> (C_TIMEOUT \<le> conn os \<and> conn os \<le> C_TEAR_DOWN \<longrightarrow> conn ns' = C_UNCONNECTED \<or> conn ns' = C_DISCONNECTING)
         \<and> (conn os < C_WF_REPORT_PARAMS \<longrightarrow> conn ns' < C_CONNECTED)"
      using conn_transition_ladder [OF conjunct1 [OF ok]] by blast
    with ok show ?thesis unfolding Let_def r os_def [symmetric] by blast
  qed
qed

lemma bit_mdf:
  "bit MDF_CONSISTENT n \<longleftrightarrow> n = 0" "bit MDF_PRIMARY_IND n \<longleftrightarrow> n = 1" "bit MDF_CONNECTED_IND n \<longleftrightarrow> n = 2"
  "bit MDF_WAS_UP_TO_DATE n \<longleftrightarrow> n = 4" "bit MDF_PEER_OUT_DATED n \<longleftrightarrow> n = 5"
  "bit MDF_CRASHED_PRIMARY n \<longleftrightarrow> n = 6" "bit MDF_AL_CLEAN n \<longleftrightarrow> n = 7"
proof -
  have e: "bit (2 ^ m :: u32) n \<longleftrightarrow> n = m" if "m < 32" for m
    using that by (auto simp: bit_exp_iff)
  show "bit MDF_CONSISTENT n \<longleftrightarrow> n = 0" "bit MDF_PRIMARY_IND n \<longleftrightarrow> n = 1" "bit MDF_CONNECTED_IND n \<longleftrightarrow> n = 2"
  "bit MDF_WAS_UP_TO_DATE n \<longleftrightarrow> n = 4" "bit MDF_PEER_OUT_DATED n \<longleftrightarrow> n = 5"
  "bit MDF_CRASHED_PRIMARY n \<longleftrightarrow> n = 6" "bit MDF_AL_CLEAN n \<longleftrightarrow> n = 7"
    unfolding mdf_defs using e [of 0] e [of 1] e [of 2] e [of 4] e [of 5] e [of 6] e [of 7] by simp_all
qed

lemma bit_if_or: "bit (if b then (x :: u32) OR y else x) n \<longleftrightarrow> bit x n \<or> b \<and> bit y n"
  by (simp add: bit_or_iff)

lemma bit_md_flags_of:
  assumes "n < 32"
  shows "bit (md_flags_of cr s old) n \<longleftrightarrow>
    (if n = 0 then disk s > D_INCONSISTENT
     else if n = 1 then role s = R_PRIMARY \<or> (pdsk s < D_INCONSISTENT \<and> peer s = R_PRIMARY)
     else if n = 2 then conn s > C_WF_REPORT_PARAMS
     else if n = 4 then disk s > D_OUTDATED
     else if n = 5 then D_INCONSISTENT \<le> pdsk s \<and> pdsk s \<le> D_OUTDATED
     else if n = 6 then cr
     else if n = 7 then False else bit old n)"
  using assms unfolding md_flags_of_def Let_def bit_if_or bit_or_iff bit_and_iff bit_not_iff bit_mdf
  by auto

lemma set_ov_position_VERIFY_S:
  assumes "cs \<noteq> C_VERIFY_T" "90 \<le> apv" "bm_bits d \<noteq> 0"
  shows "let b = BM_SECT_TO_BIT (ov_start_sector d) in
     set_ov_position apv cs d =
      (if bm_bits d \<le> b
       then d\<lparr>rs_total := 1, ov_start_sector := BM_BIT_TO_SECT (bm_bits d - 1),
              ov_position := BM_BIT_TO_SECT (bm_bits d - 1), ov_left := 1\<rparr>
       else d\<lparr>rs_total := bm_bits d - b, ov_position := ov_start_sector d, ov_left := bm_bits d - b\<rparr>)"
  using assms by (cases d) (simp add: set_ov_position_def Let_def)

section \<open>Metadata flags\<close>

lemma ss_meta_data_flags:
  assumes "get_ldev d"
  shows "md_flags (ldev (ss_meta_data os ns d)) = md_flags_of (CRASHED_PRIMARY d) (state d) (md_flags (ldev d))"
  using assms by (simp add: ss_meta_data_def Let_def)

lemma ss_blocks_ldev:
  "ldev (ss_local_cnt os ns d) = ldev d" "ldev (ss_verify_stopped os ns d) = ldev d"
  "ldev (ss_sync_continues jif os ns d) = ldev d" "ldev (ss_sync_suspended jif os ns d) = ldev d"
  "ldev (ss_consider_resync os ns d) = ldev d"
  "ldev (ss_connected os ns d) = ldev d" "ldev (ss_reattach jif os ns d) = ldev d"
  by (simp_all add: ss_local_cnt_def ss_verify_stopped_def ss_sync_continues_def ss_sync_suspended_def
        ss_consider_resync_def ss_connected_def ss_reattach_def drbd_resume_al_def)

lemma set_ov_position_ldev: "ldev (set_ov_position apv cs d) = ldev d"
  "CRASHED_PRIMARY (set_ov_position apv cs d) = CRASHED_PRIMARY d"
proof -
  have "ldev (if b then x else y) = (if b then ldev x else ldev y)" for b x y by simp
  then show "ldev (set_ov_position apv cs d) = ldev d" by (simp add: set_ov_position_def Let_def)
  have "CRASHED_PRIMARY (if b then x else y) = (if b then CRASHED_PRIMARY x else CRASHED_PRIMARY y)" for b x y by simp
  then show "CRASHED_PRIMARY (set_ov_position apv cs d) = CRASHED_PRIMARY d" by (simp add: set_ov_position_def Let_def)
qed

lemma ss_verify_starts_ldev: "ldev (ss_verify_starts apv jif os ns d) = ldev d"
  "CRASHED_PRIMARY (ss_verify_starts apv jif os ns d) = CRASHED_PRIMARY d"
  by (simp_all add: ss_verify_starts_def drbd_rs_controller_reset_def set_ov_position_ldev Let_def)

lemma ss_blocks_crashed:
  "CRASHED_PRIMARY (ss_local_cnt os ns d) = CRASHED_PRIMARY d"
  "CRASHED_PRIMARY (ss_verify_stopped os ns d) = CRASHED_PRIMARY d"
  "CRASHED_PRIMARY (ss_sync_continues jif os ns d) = CRASHED_PRIMARY d"
  "CRASHED_PRIMARY (ss_sync_suspended jif os ns d) = CRASHED_PRIMARY d"
  by (simp_all add: ss_local_cnt_def ss_verify_stopped_def ss_sync_continues_def ss_sync_suspended_def)

lemma get_ldev_state_cong: "state d = state e \<Longrightarrow> get_ldev d = get_ldev e"
  by (simp add: get_ldev_def get_ldev_if_state_def)

lemma ss_device_md_flags:
  assumes "D_INCONSISTENT \<le> disk ns"
  shows "md_flags (ldev (ss_device apv jif os ns d)) = md_flags_of (CRASHED_PRIMARY d) ns (md_flags (ldev d))"
proof -
  have "get_ldev (x :: drbd_device)" if "state x = ns" for x
    using assms that by (auto simp: get_ldev_def get_ldev_if_state_def enum_order_defs)
  then show ?thesis
    by (simp add: ss_device_def Let_def ss_blocks_ldev ss_meta_data_flags ss_verify_starts_ldev ss_blocks_crashed)
qed

text \<open>
  C24: When a change is committed with a usable local disk, the metadata flags record exactly the new
  state: consistent and up-to-date data, a primary on either side of the data, an established
  connection, an outdated peer, a crashed primary; \<open>MDF_AL_CLEAN\<close> is cleared and every other flag
  keeps its value.
\<close>

theorem md_flags_mirror_state:
  assumes "drbd_set_state jif mem c i ns fl dn = Some (rv, c')" "SS_SUCCESS \<le> rv"
    and "i < length (peer_devices c)" "c' \<noteq> c"
    and "D_INCONSISTENT \<le> disk (drbd_read_state c' i)"
  shows "let s = drbd_read_state c' i; f = md_flags (ldev (peer_devices c' ! i)) in
      \<forall>n < 32. bit f n \<longleftrightarrow>
       (if n = 0 then disk s > D_INCONSISTENT
        else if n = 1 then role s = R_PRIMARY \<or> (pdsk s < D_INCONSISTENT \<and> peer s = R_PRIMARY)
        else if n = 2 then conn s > C_WF_REPORT_PARAMS
        else if n = 4 then disk s > D_OUTDATED
        else if n = 5 then D_INCONSISTENT \<le> pdsk s \<and> pdsk s \<le> D_OUTDATED
        else if n = 6 then CRASHED_PRIMARY (peer_devices c ! i)
        else if n = 7 then False else bit (md_flags (ldev (peer_devices c ! i))) n)"
proof -
  define os ns' where "os = drbd_read_state c i" and "ns' = sanitize_state c i os ns"
  have "ss_apply jif mem c i os ns' fl dn = Some (rv, c')"
    using assms(1) by (simp add: drbd_set_state_def Let_def os_def ns'_def)
  then have "c' = ss_commit jif mem c i os ns' fl dn"
    by (cases rule: ss_apply_cases) (use assms(2,4) in auto)
  then have "drbd_read_state c' i = ns'"
    and "peer_devices c' ! i = ss_device (agreed_pro_version c) jif os ns' (peer_devices c ! i)"
    using assms(3) by (simp_all add: read_state_ss_commit ss_commit_fields)
  with assms(5) show ?thesis
    by (simp add: Let_def ss_device_md_flags bit_md_flags_of split del: if_split)
qed

section \<open>Online verify\<close>

lemma unat_push3: "unat (x :: u64) < 2 ^ 61 \<Longrightarrow> BM_SECT_TO_BIT (BM_BIT_TO_SECT x) = x"
proof (rule bit_word_eqI)
  fix n assume *: "unat x < 2 ^ 61" "n < LENGTH(64)"
  have "n < 61" if "bit x n"
    using nat_bit_less [OF *(1)] that *(2) by (simp add: bit_unsigned_iff)
  then show "bit (BM_SECT_TO_BIT (BM_BIT_TO_SECT x)) n = bit x n"
    using *(2) by (auto simp: BM_SECT_TO_BIT_def BM_BIT_TO_SECT_def bit_drop_bit_eq bit_push_bit_iff)
qed

text \<open>
  C25: A verify run that stops before the end records where it stopped, and starting it again (with a
  peer that supports it) continues there: the same number of blocks is left, the position is the
  recorded one, and covered plus remaining blocks are the whole device. A run that had reached the
  end starts over with the last block only.
\<close>

theorem verify_resumes:
  assumes "unat (bm_bits d) < 2 ^ 61" "bm_bits d \<noteq> 0" "ov_left d \<le> bm_bits d" "90 \<le> apv"
    and "is_verify os" "conn ns \<le> C_CONNECTED"
  shows "let d' = set_ov_position apv C_VERIFY_S (ss_verify_stopped os ns d) in
     bm_bits d' = bm_bits d \<and> ov_position d' = ov_start_sector d' \<and> rs_total d' = ov_left d'
   \<and> BM_SECT_TO_BIT (ov_start_sector d') + ov_left d' = bm_bits d
   \<and> (ov_left d' = (if ov_left d = 0 then 1 else ov_left d))"
proof -
  define e where "e = ss_verify_stopped os ns d"
  have e: "e = d\<lparr>ov_start_sector := BM_BIT_TO_SECT (bm_bits d - ov_left d)\<rparr>"
    using assms(5,6) by (simp add: e_def ss_verify_stopped_def)
  have lt: "unat (bm_bits d - ov_left d) < 2 ^ 61"
    using assms(1,3) by (simp add: unat_sub)
  then have b: "BM_SECT_TO_BIT (ov_start_sector e) = bm_bits d - ov_left d"
    by (simp add: e unat_push3)
  have "unat (bm_bits d - 1) < 2 ^ 61"
    using assms(1,2) by (simp add: unat_pred_word)
  then have last: "BM_SECT_TO_BIT (BM_BIT_TO_SECT (bm_bits d - 1)) = bm_bits d - 1"
    by (rule unat_push3)
  have le: "bm_bits d \<le> bm_bits d - ov_left d \<longleftrightarrow> ov_left d = 0"
  proof -
    have "bm_bits d \<le> bm_bits d - ov_left d \<longleftrightarrow> unat (bm_bits d) \<le> unat (bm_bits d) - unat (ov_left d)"
      using assms(3) by (simp add: word_le_nat_alt unat_sub)
    moreover have "unat (bm_bits d) > 0" using assms(2) by (simp add: unat_gt_0)
    ultimately have "bm_bits d \<le> bm_bits d - ov_left d \<longleftrightarrow> unat (ov_left d) = 0" by auto
    then show ?thesis by (simp only: unat_eq_zero)
  qed
  have "bm_bits e = bm_bits d" by (simp add: e)
  with set_ov_position_VERIFY_S [of C_VERIFY_S apv e] assms(2,4) b le last show ?thesis
    unfolding e_def [symmetric] by (auto simp: Let_def e)
qed

section \<open>No missing network configuration is read\<close>

lemma rv_some_if: "(\<not> b \<Longrightarrow> x \<noteq> None) \<Longrightarrow> (if b then Some e else x) \<noteq> None"
  by simp

lemma is_valid_state_defined:
  assumes "\<not> (is_verify ns \<and> the_net_conf c = None)"
  shows "is_valid_state c i ns \<noteq> None"
  unfolding is_valid_state_def Let_def
  by (intro rv_some_if) (use assms in simp)

text \<open>The network configuration exists unless the volumes are StandAlone.\<close>

definition net_conf_ok :: "drbd_connection \<Rightarrow> bool" where
  "net_conf_ok c \<longleftrightarrow> the_net_conf c = None \<longrightarrow> list_all (\<lambda>d. conn (state d) = C_STANDALONE) (peer_devices c)"

lemma ss_check_defined:
  assumes "net_conf_ok c" "i < length (peer_devices c)"
  shows "ss_check c i (drbd_read_state c i) ns fl \<noteq> None"
proof (cases "SS_SUCCESS \<le> is_valid_transition (drbd_read_state c i) ns")
  case True
  have sa: "conn (drbd_read_state c i) = C_STANDALONE" if "the_net_conf c = None"
    using assms that by (auto simp: net_conf_ok_def list_all_length drbd_read_state_def)
  have "is_valid_state c i (drbd_read_state c i) \<noteq> None"
    by (rule is_valid_state_defined) (use sa in \<open>auto simp: is_verify_def\<close>)
  moreover have "\<not> (is_verify ns \<and> the_net_conf c = None)"
    using conn_transition_ladder [OF is_valid_transition_ok [OF True, THEN conjunct1]] sa
    by (auto simp: is_verify_def)
  then have "is_valid_state c i ns \<noteq> None" by (rule is_valid_state_defined)
  ultimately show ?thesis
    by (auto simp: ss_check_def soft_check_def Let_def)
qed (auto simp: ss_check_def Let_def)


section \<open>Sanitizing twice\<close>

text \<open>
  C11: \<open>sanitize_state\<close> turns any requested state into a consistent one: disconnected means the
  peer and its pause flag are unknown, a sync target has at most outdated local and up-to-date remote
  data, a sync source the converse, verify needs both sides up to date, and the paused resync
  states are taken exactly while a pause flag is set. It leaves the role, the user's pause flag and the
  user's suspend flag alone, never clears a suspend flag and never connects or disconnects.
\<close>

theorem sanitize_consistent:
  "sane (sanitize_state c i os ns)
   \<and> role (sanitize_state c i os ns) = role ns \<and> user_isp (sanitize_state c i os ns) = user_isp ns
   \<and> susp (sanitize_state c i os ns) = susp ns
   \<and> (susp_fen ns \<longrightarrow> susp_fen (sanitize_state c i os ns)) \<and> (susp_nod ns \<longrightarrow> susp_nod (sanitize_state c i os ns))
   \<and> (conn (sanitize_state c i os ns) < C_CONNECTED \<longleftrightarrow> conn ns < C_CONNECTED)
   \<and> (conn ns < C_CONNECTED \<longrightarrow> conn (sanitize_state c i os ns) = conn ns)"
  by (simp add: sanitize_sane sanitize_keeps sanitize_conn_low sanitize_conn_disconnected)

lemma san_disconnected_sane: "sane s \<Longrightarrow> san_disconnected s = s"
  by (cases s) (auto simp: sane_def san_disconnected_def)

lemma san_abort_resync_sane: "sane s \<Longrightarrow> conn s \<noteq> C_MASK \<Longrightarrow> san_abort_resync s = s"
  by (cases "conn s")
     (auto simp: sane_def san_abort_resync_def is_verify_def sync_target_conns_def sync_source_conns_def enum_order_defs)

lemma san_pause_sane: "sane s \<Longrightarrow> san_pause s = s"
  by (auto simp: sane_def san_pause_def)

lemma sane_resync_disks:
  assumes "sane s" "C_CONNECTED < conn s" "conn s \<noteq> C_MASK"
  shows "D_FAILED < disk s \<and> D_FAILED < pdsk s"
proof -
  have "conn s \<in> set sync_target_conns \<or> conn s \<in> set sync_source_conns \<or> is_verify s"
    using assms(2,3) by (cases "conn s")
      (simp_all add: sync_target_conns_def sync_source_conns_def is_verify_def enum_order_defs)
  then show ?thesis
    using assms(1) unfolding sane_def by (elim disjE) (auto simp: enum_order_defs)
qed

lemma sanitize_conn_sane:
  assumes "sane s" "conn s \<noteq> C_MASK"
  shows "conn (sanitize_state c i os s) = conn s"
proof -
  have abort: "conn (san_abort_resync (san_unconfigured s)) = conn s"
    using sane_resync_disks [OF assms(1) _ assms(2)] by (auto simp: san_abort_resync_def)
  have "conn s = C_STANDALONE \<or> any_isp (san_unconfigured s) = any_isp s"
    by (auto simp: san_unconfigured_def any_isp_def)
  moreover have "conn (san_pause t) = conn t" if "conn t = conn s" "conn s = C_STANDALONE \<or> any_isp t = any_isp s" for t
    using that assms(1) by (auto simp: san_pause_def sane_def)
  ultimately show ?thesis
    using abort by (simp add: sanitize_state_def Let_def san_disconnected_sane [OF assms(1)])
qed

lemma clamp_eqD: "clamp lo hi x = v \<Longrightarrow> lo \<noteq> v \<Longrightarrow> hi \<noteq> v \<Longrightarrow> x = v"
  by (auto simp: clamp_def Let_def split: if_splits)

lemma disk_blocks_low:
  assumes "disk (san_limits (san_connected s)) = v" "v = D_FAILED \<or> v = D_NEGOTIATING"
  shows "disk s = v"
proof -
  obtain lo hi r where L: "disk_limits (conn s) = (lo, hi, r)" by (metis prod_cases3)
  have "case disk_limits x of (lo, hi, _) \<Rightarrow> lo \<notin> {D_FAILED, D_NEGOTIATING} \<and> hi \<notin> {D_FAILED, D_NEGOTIATING}" for x
    by (cases x) simp_all
  from this [of "conn s"] L assms(2) have ne: "lo \<noteq> v" "hi \<noteq> v" by auto
  have "clamp lo hi (disk (san_connected s)) = v"
    using assms(1) L by (simp add: san_limits_def split: prod.splits)
  then have "disk (san_connected s) = v" using ne by (rule clamp_eqD)
  with assms(2) show ?thesis by (auto simp: san_connected_def connected_disk_def split: if_splits)
qed

text \<open>A second pass does not fail the disk.\<close>

lemma sanitize_disk_FAILED:
  assumes "disk (sanitize_state c i os' (sanitize_state c i os s)) = D_FAILED"
  shows "disk (sanitize_state c i os s) = D_FAILED"
proof (rule ccontr)
  define d t where "d = peer_devices c ! i" and "t = sanitize_state c i os s"
  define before where "before = (\<lambda>x. san_abort_resync (san_unconfigured (san_disconnected x)))"
  have pass: "disk (san_negotiating d (before x)) = v"
    if "disk (sanitize_state c i oo x) = v" "v = D_FAILED \<or> v = D_NEGOTIATING" for oo x v
    using disk_blocks_low [OF _ that(2)] that(1) unfolding sanitize_state_def Let_def d_def before_def by simp
  have b: "disk (before x) = disk x" "conn (before x) < C_CONNECTED \<longleftrightarrow> conn x < C_CONNECTED" for x
    by (simp_all add: before_def)
  assume "disk (sanitize_state c i os s) \<noteq> D_FAILED"
  then have nf: "disk (before t) \<noteq> D_FAILED" by (simp add: b t_def)
  have f: "disk (san_negotiating d (before t)) = D_FAILED"
    unfolding t_def by (rule pass [OF assms]) simp
  with nf have neg: "conn t < C_CONNECTED" "disk t = D_NEGOTIATING" "get_ldev_if_state d D_NEGOTIATING"
     and tmp: "disk (new_state_tmp d) = D_FAILED"
    by (auto simp: san_negotiating_def b split: if_splits)
  have "conn s < C_CONNECTED" using neg(1) by (simp add: t_def sanitize_conn_low)
  moreover have n: "disk (san_negotiating d (before s)) = D_NEGOTIATING"
    by (rule pass [where oo = os]) (use neg(2) in \<open>simp_all add: t_def\<close>)
  ultimately show False
    using neg(3) tmp by (auto simp: san_negotiating_def b split: if_splits)
qed

section \<open>A concrete connection\<close>

text \<open>Two volumes of a connected pair, used to instantiate the theorems.\<close>

definition ex_state :: "drbd_role \<Rightarrow> drbd_role \<Rightarrow> drbd_conns \<Rightarrow> drbd_disk_state \<Rightarrow> drbd_disk_state \<Rightarrow> drbd_state" where
  "ex_state r p co d pd = \<lparr>role = r, peer = p, conn = co, disk = d, pdsk = pd, susp = False, aftr_isp = False,
     peer_isp = False, user_isp = False, susp_nod = False, susp_fen = False\<rparr>"

definition ex_ldev :: drbd_ldev where
  "ex_ldev = \<lparr>md_uuid = [0x1000, 0, 0, 0], md_flags = 0, fencing = FP_DONT_CARE\<rparr>"

definition ex_device :: "drbd_state \<Rightarrow> drbd_device" where
  "ex_device s = \<lparr>state = s, new_state_tmp = s, open_cnt = 0, ed_uuid = 0x1000, ldev = ex_ldev, local_cnt = 0,
     CRASHED_PRIMARY = False, CONSIDER_RESYNC = False, AL_SUSPENDED = False, MD_DIRTY = False,
     CL_ST_CHG_SUCCESS = False, CL_ST_CHG_FAIL = False, DISCARD_MY_DATA = False, has_sdev = False, p_uuid = [0x1000, 0, 0, 0, 0, 0], comm_bm_set = 0,
     bm_bits = 1000, bm_total_weight = 0, rs_total = 0, rs_start = 0, rs_paused = 0,
     rs_mark_left = replicate 8 0, rs_mark_time = replicate 8 0, rs_last_mark = 0, rs_last_events = 0,
     rs_last_sect_ev = 0, rs_sect_in = 0, rs_sect_ev = 0, rs_in_flight = 0,
     rs_plan_s = \<lparr>fifo_total = 0, fifo_values = [0]\<rparr>, ov_start_sector = 0, ov_position = 0, ov_left = 400,
     ov_last_oos_start = 0, ov_last_oos_size = 0, last_reattach_jif = 0\<rparr>"

definition ex_conn :: "drbd_state list \<Rightarrow> drbd_connection" where
  "ex_conn ss = \<lparr>resource = \<lparr>res_susp = False, res_susp_nod = False, res_susp_fen = False, on_no_data = OND_IO_ERROR\<rparr>,
     cstate = C_WF_REPORT_PARAMS,
     the_net_conf = Some \<lparr>two_primaries = False, verify_alg = ''sha1'', wire_protocol = 3,
       after_sb_0p = ASB_DISCONNECT, after_sb_1p = ASB_DISCONNECT, after_sb_2p = ASB_DISCONNECT,
       rr_conflict = ASB_DISCONNECT, always_asbp = False, tentative = False, discard_my_data = False\<rparr>,
     agreed_pro_version = 101, STATE_SENT = False, CONN_WD_ST_CHG_REQ = False, CONN_WD_ST_CHG_OKAY = False,
     CONN_WD_ST_CHG_FAIL = False, DISCONNECT_SENT = False, RESOLVE_CONFLICTS = False, CONN_DRY_RUN = False, current_tle_nr = 1, current_tle_writes = 2,
     connect_cnt = 1, last_reconnect_jif = 0, peer_devices = map ex_device ss, todo = []\<rparr>"

definition ex_connected :: drbd_state where
  "ex_connected = ex_state R_SECONDARY R_SECONDARY C_CONNECTED D_UP_TO_DATE D_UP_TO_DATE"

definition ex_pair :: drbd_connection where
  "ex_pair = ex_conn [ex_connected, ex_connected]"

definition ex_promoted :: drbd_state where
  "ex_promoted = ex_connected\<lparr>role := R_PRIMARY\<rparr>"

definition ex_after :: "drbd_state_rv \<times> drbd_connection" where
  "ex_after = the (drbd_set_state 7 True ex_pair 0 ex_promoted 0 False)"

lemma ex_after_eq: "drbd_set_state 7 True ex_pair 0 ex_promoted 0 False = Some (fst ex_after, snd ex_after)"
  by code_simp

lemma ex_after_facts: "fst ex_after = SS_SUCCESS" "0 < length (peer_devices ex_pair)" "\<not> cs_test 0 CS_HARD"
  "is_valid_state ex_pair 0 (drbd_read_state ex_pair 0) = Some SS_SUCCESS"
  "disk (drbd_read_state (snd ex_after) 0) = D_UP_TO_DATE"
  "role (drbd_read_state (snd ex_after) 0) = R_PRIMARY"
  by code_simp+

lemma ex_after_ok: "SS_SUCCESS \<le> fst ex_after" "snd ex_after \<noteq> ex_pair"
  "D_INCONSISTENT \<le> disk (drbd_read_state (snd ex_after) 0)"
  by code_simp+

theorem drbd_set_state_outcome_witness:
  "SS_SUCCESS \<le> fst ex_after \<and> sane (drbd_read_state (snd ex_after) 0)
   \<and> drbd_read_state (snd ex_after) 0 = sanitize_state ex_pair 0 (drbd_read_state ex_pair 0) ex_promoted"
  using drbd_set_state_outcome [OF ex_after_eq ex_after_facts(2)] ex_after_ok(1)
  by (auto simp: not_less [symmetric] split: if_splits)

theorem soft_change_safe_witness:
  "is_valid_state ex_pair 0 (drbd_read_state (snd ex_after) 0) = Some SS_SUCCESS
   \<and> data_safe ex_pair 0 (drbd_read_state (snd ex_after) 0)"
  by (rule soft_change_safe [OF ex_after_eq ex_after_ok(1) ex_after_facts(2-4)])

definition ex_lost :: "drbd_state_rv \<times> drbd_connection" where
  "ex_lost = the (drbd_set_state 7 True ex_pair 0 (ex_connected\<lparr>conn := C_NETWORK_FAILURE\<rparr>) CS_HARD False)"

lemma ex_lost_facts:
  "drbd_set_state 7 True ex_pair 0 (ex_connected\<lparr>conn := C_NETWORK_FAILURE\<rparr>) CS_HARD False = Some (fst ex_lost, snd ex_lost)"
  "SS_SUCCESS \<le> fst ex_lost" "conn (drbd_read_state (snd ex_lost) 0) = C_NETWORK_FAILURE"
  by code_simp+

theorem conn_ladder_witness:
  "conn (drbd_read_state (snd ex_lost) 0) = C_NETWORK_FAILURE
   \<and> \<not> (disk (drbd_read_state ex_pair 0) = D_DISKLESS \<and> disk (drbd_read_state (snd ex_lost) 0) = D_FAILED)"
  using conn_ladder [OF ex_lost_facts(1,2) ex_after_facts(2)] ex_lost_facts(3) by blast

theorem md_flags_mirror_state_witness:
  "bit (md_flags (ldev (peer_devices (snd ex_after) ! 0))) 1"
  using md_flags_mirror_state [OF ex_after_eq ex_after_ok(1) ex_after_facts(2) ex_after_ok(2,3)]
  by (simp add: Let_def ex_after_facts)

theorem verify_resumes_witness:
  "let d' = set_ov_position 101 C_VERIFY_S (ss_verify_stopped (ex_connected\<lparr>conn := C_VERIFY_S\<rparr>) ex_connected (ex_device ex_connected))
   in ov_left d' = 400 \<and> BM_SECT_TO_BIT (ov_start_sector d') = 600"
proof -
  have "unat (bm_bits (ex_device ex_connected)) < 2 ^ 61" "bm_bits (ex_device ex_connected) \<noteq> 0"
    "ov_left (ex_device ex_connected) \<le> bm_bits (ex_device ex_connected)" "90 \<le> (101 :: int)"
    "is_verify (ex_connected\<lparr>conn := C_VERIFY_S\<rparr>)" "conn ex_connected \<le> C_CONNECTED"
    by (simp_all add: ex_device_def ex_connected_def ex_state_def is_verify_def)
  from verify_resumes [OF this] show ?thesis
    by (simp add: Let_def ex_device_def eq_diff_eq [symmetric])
qed


theorem sanitize_consistent_witness:
  "sane (sanitize_state ex_pair 0 ex_connected (ex_connected\<lparr>conn := C_NETWORK_FAILURE, susp_fen := True\<rparr>))
   \<and> susp_fen (sanitize_state ex_pair 0 ex_connected (ex_connected\<lparr>conn := C_NETWORK_FAILURE, susp_fen := True\<rparr>))"
  using sanitize_consistent [of ex_pair 0 ex_connected "ex_connected\<lparr>conn := C_NETWORK_FAILURE, susp_fen := True\<rparr>"]
  by simp

end
