(* ===== verification/State_Conn.thy ===== *)
theory State_Conn
  imports State_Facts
begin

text \<open>
  Requests for state changes (\<open>drbd_req_state\<close>, \<open>_drbd_request_state\<close>) and the changes that
  concern every volume of a connection (\<open>conn_is_valid_transition\<close>, \<open>conn_set_state\<close>,
  \<open>_conn_request_state\<close>), of \<open>drbd/drbd_state.c\<close>.

  A request may wait for the peer. What other threads do while it sleeps is an argument: a list of
  functions on the connection, one per wakeup, each applied before the wait condition is evaluated
  again. A call whose condition never becomes true within the list is \<open>Blocked\<close>.
\<close>

datatype 'a outcome = Oops | Blocked | Returned 'a

section \<open>Requests of one device\<close>

definition req_st_cond :: "drbd_connection \<Rightarrow> nat \<Rightarrow> st_chg \<Rightarrow> (drbd_state_rv \<times> drbd_connection) option" where
  "req_st_cond c i chg =
    (let d = peer_devices c ! i in
     if CL_ST_CHG_SUCCESS d then Some (SS_CW_SUCCESS, upd_device i (\<lambda>d. d\<lparr>CL_ST_CHG_SUCCESS := False\<rparr>) c)
     else if CL_ST_CHG_FAIL d then Some (SS_CW_FAILED_BY_PEER, upd_device i (\<lambda>d. d\<lparr>CL_ST_CHG_FAIL := False\<rparr>) c)
     else
       let os = drbd_read_state c i;
           ns = sanitize_state c i os (apply_mask_val os chg);
           rv = is_valid_transition os ns;
           rv = (if rv \<ge> SS_SUCCESS then SS_UNKNOWN_ERROR else rv);
           rv = (if \<not> cl_wide_st_chg os ns then SS_CW_NO_NEED else rv)
       in if rv = SS_UNKNOWN_ERROR then do {
            rv \<leftarrow> is_valid_state c i ns;
            Some (if rv \<ge> SS_SUCCESS
                  then let rv = is_valid_soft_transition os ns c in
                       if rv \<ge> SS_SUCCESS then SS_UNKNOWN_ERROR else rv
                  else rv, c)
          } else Some (rv, c))"

fun req_wait :: "drbd_connection \<Rightarrow> nat \<Rightarrow> st_chg \<Rightarrow> (drbd_connection \<Rightarrow> drbd_connection) list
    \<Rightarrow> (drbd_state_rv \<times> drbd_connection \<times> (drbd_connection \<Rightarrow> drbd_connection) list) outcome" where
  "req_wait c i chg [] = Blocked"
| "req_wait c i chg (f # fs) =
    (case req_st_cond (f c) i chg of
       None \<Rightarrow> Oops
     | Some (rv, c') \<Rightarrow> if rv = SS_UNKNOWN_ERROR then req_wait c' i chg fs else Returned (rv, c', fs))"

definition of_option :: "'a option \<Rightarrow> 'a outcome" where
  "of_option x = (case x of None \<Rightarrow> Oops | Some y \<Rightarrow> Returned y)"

text \<open>
  \<open>snd_err\<close>: \<open>drbd_send_state_req\<close> fails. The lock is dropped between the wait and the change,
  so one more function of the environment may run there.
\<close>

definition drbd_req_state :: "u64 \<Rightarrow> bool \<Rightarrow> bool \<Rightarrow> (drbd_connection \<Rightarrow> drbd_connection) list
    \<Rightarrow> drbd_connection \<Rightarrow> nat \<Rightarrow> st_chg \<Rightarrow> chg_state_flags \<Rightarrow> (drbd_state_rv \<times> drbd_connection) outcome" where
  "drbd_req_state jif mem snd_err env c i chg fl =
    (let os = drbd_read_state c i;
         ns = sanitize_state c i os (apply_mask_val os chg);
         rv = is_valid_transition os ns
     in if rv < SS_SUCCESS then Returned (rv, c)
        else if cl_wide_st_chg os ns then
          (case is_valid_state c i ns of
             None \<Rightarrow> Oops
           | Some rv \<Rightarrow>
             let rv = (if rv = SS_SUCCESS then is_valid_soft_transition os ns c else rv) in
             if rv < SS_SUCCESS then Returned (rv, c)
             else if snd_err then Returned (SS_CW_FAILED_BY_PEER, c)
             else case req_wait (push_work (Send_State_Req i chg) c) i chg env of
                    Oops \<Rightarrow> Oops
                  | Blocked \<Rightarrow> Blocked
                  | Returned (rv, c', env') \<Rightarrow>
                      if rv < SS_SUCCESS then Returned (rv, c')
                      else let c' = (case env' of [] \<Rightarrow> c' | f # _ \<Rightarrow> f c') in
                           of_option (drbd_set_state jif mem c' i (apply_mask_val (drbd_read_state c' i) chg) fl True))
        else of_option (drbd_set_state jif mem c i ns fl True))"

text \<open>The retry loop; each attempt has its own time, memory, sending and environment.\<close>

fun drbd_request_state :: "(u64 \<times> bool \<times> bool \<times> (drbd_connection \<Rightarrow> drbd_connection) list) list
    \<Rightarrow> drbd_connection \<Rightarrow> nat \<Rightarrow> st_chg \<Rightarrow> chg_state_flags \<Rightarrow> (drbd_state_rv \<times> drbd_connection) outcome" where
  "drbd_request_state [] c i chg fl = Blocked"
| "drbd_request_state ((jif, mem, snd_err, env) # tries) c i chg fl =
    (case drbd_req_state jif mem snd_err env c i chg fl of
       Returned (rv, c') \<Rightarrow>
         if rv = SS_IN_TRANSIENT_STATE then drbd_request_state tries c' i chg fl else Returned (rv, c')
     | r \<Rightarrow> r)"

section \<open>Changes of a whole connection\<close>

definition common_flags :: "drbd_state \<Rightarrow> drbd_state \<Rightarrow> chg_state_flags \<Rightarrow> chg_state_flags" where
  "common_flags cs os fl =
    (let fl = (if role cs \<noteq> role os then fl AND NOT CS_DC_ROLE else fl);
         fl = (if peer cs \<noteq> peer os then fl AND NOT CS_DC_PEER else fl);
         fl = (if conn cs \<noteq> conn os then fl AND NOT CS_DC_CONN else fl);
         fl = (if disk cs \<noteq> disk os then fl AND NOT CS_DC_DISK else fl);
         fl = (if pdsk cs \<noteq> pdsk os then fl AND NOT CS_DC_PDSK else fl)
     in fl)"

definition dev_state0 :: "drbd_conns \<Rightarrow> drbd_state" where
  "dev_state0 co = \<lparr>role = R_SECONDARY, peer = R_UNKNOWN, conn = co, disk = D_DISKLESS, pdsk = D_UNKNOWN,
     susp = False, aftr_isp = False, peer_isp = False, user_isp = False, susp_nod = False, susp_fen = False\<rparr>"

definition conn_old_common_state :: "drbd_connection \<Rightarrow> chg_state_flags \<Rightarrow> drbd_state \<times> chg_state_flags" where
  "conn_old_common_state c pf =
    (case peer_devices c of
       [] \<Rightarrow> (dev_state0 (cstate c), (pf OR CS_DC_MASK) AND NOT 0)
     | d # ds \<Rightarrow> (state d, (pf OR CS_DC_MASK) AND
                        foldl (\<lambda>fl e. common_flags (state d) (state e) fl) (NOT 0) ds))"

definition ign_outd_fail :: "chg_state_flags \<Rightarrow> drbd_state \<Rightarrow> drbd_state \<Rightarrow> drbd_state" where
  "ign_outd_fail fl os ns =
     (if cs_test fl CS_IGN_OUTD_FAIL \<and> disk ns = D_OUTDATED \<and> disk os < D_OUTDATED
      then ns\<lparr>disk := disk os\<rparr> else ns)"

definition wanted_state :: "drbd_connection \<Rightarrow> nat \<Rightarrow> st_chg \<Rightarrow> chg_state_flags \<Rightarrow> drbd_state" where
  "wanted_state c i chg fl =
    (let os = drbd_read_state c i in ign_outd_fail fl os (sanitize_state c i os (apply_mask_val os chg)))"

text \<open>The verdict on each volume in turn; the loop stops at the first refusal.\<close>

fun conn_valid_loop :: "drbd_connection \<Rightarrow> st_chg \<Rightarrow> chg_state_flags \<Rightarrow> nat list \<Rightarrow> drbd_state_rv \<Rightarrow> drbd_state_rv option" where
  "conn_valid_loop c chg fl [] rv = Some rv"
| "conn_valid_loop c chg fl (i # is) rv =
    (let os = drbd_read_state c i; ns = wanted_state c i chg fl in
     if ns = os then conn_valid_loop c chg fl is rv
     else case ss_check c i os ns fl of
            None \<Rightarrow> None
          | Some rv \<Rightarrow> if rv < SS_SUCCESS then Some rv else conn_valid_loop c chg fl is rv)"

definition conn_is_valid_transition :: "drbd_connection \<Rightarrow> st_chg \<Rightarrow> chg_state_flags \<Rightarrow> drbd_state_rv option" where
  "conn_is_valid_transition c chg fl = conn_valid_loop c chg fl [0..<length (peer_devices c)] SS_SUCCESS"

definition val_conn :: "st_chg \<Rightarrow> drbd_conns" where
  "val_conn chg = (case c_conn chg of None \<Rightarrow> C_STANDALONE | Some x \<Rightarrow> x)"

definition ns_max_upd :: "drbd_state \<Rightarrow> drbd_state \<Rightarrow> drbd_state" where
  "ns_max_upd ns m = m\<lparr>role := max_role (role ns) (role m), peer := max_role (peer ns) (peer m),
     conn := max (conn ns) (conn m), disk := max (disk ns) (disk m), pdsk := max (pdsk ns) (pdsk m)\<rparr>"

definition ns_min_upd :: "drbd_state \<Rightarrow> drbd_state \<Rightarrow> drbd_state" where
  "ns_min_upd ns m = m\<lparr>role := min_role (role ns) (role m), peer := min_role (peer ns) (peer m),
     conn := min (conn ns) (conn m), disk := min (disk ns) (disk m), pdsk := min (pdsk ns) (pdsk m)\<rparr>"

text \<open>The commit loop. A refusal here is the \<open>BUG()\<close> of the code.\<close>

fun conn_set_loop :: "u64 \<Rightarrow> (nat \<Rightarrow> bool) \<Rightarrow> st_chg \<Rightarrow> chg_state_flags \<Rightarrow> nat list
    \<Rightarrow> drbd_state \<times> drbd_state \<times> drbd_connection \<Rightarrow> (drbd_state \<times> drbd_state \<times> drbd_connection) option" where
  "conn_set_loop jif mem chg fl [] acc = Some acc"
| "conn_set_loop jif mem chg fl (i # is) (ns_min, ns_max, c) = do {
     (rv, c') \<leftarrow> drbd_set_state jif (mem i) c i (wanted_state c i chg fl) fl False;
     bug_on (rv < SS_SUCCESS);
     let ns = state (peer_devices c' ! i);
     conn_set_loop jif mem chg fl is (ns_min_upd ns ns_min, ns_max_upd ns ns_max, c')
   }"

definition conn_set_cstate :: "u64 \<Rightarrow> st_chg \<Rightarrow> drbd_connection \<Rightarrow> drbd_connection" where
  "conn_set_cstate jif chg c =
    (if c_conn chg \<noteq> None then
       (let c = (if cstate c \<noteq> C_WF_REPORT_PARAMS \<and> val_conn chg = C_WF_REPORT_PARAMS
                 then c\<lparr>last_reconnect_jif := jif\<rparr> else c)
        in c\<lparr>cstate := val_conn chg\<rparr>)
     else c)"

definition conn_set_state :: "u64 \<Rightarrow> (nat \<Rightarrow> bool) \<Rightarrow> drbd_connection \<Rightarrow> st_chg \<Rightarrow> chg_state_flags
    \<Rightarrow> (drbd_state \<times> drbd_state \<times> drbd_connection) option" where
  "conn_set_state jif mem c chg fl = do {
     let c = conn_set_cstate jif chg c;
     let ns_max = (dev_state0 C_STANDALONE)\<lparr>role := R_UNKNOWN, pdsk := D_DISKLESS\<rparr>;
     let ns_min = (dev_state0 (val_conn chg))\<lparr>role := R_MASK, peer := R_MASK, disk := D_MASK, pdsk := D_MASK\<rparr>;
     (ns_min, ns_max, c) \<leftarrow> conn_set_loop jif mem chg fl [0..<length (peer_devices c)] (ns_min, ns_max, c);
     let none = (peer_devices c = []);
     let ns_min = (if none then dev_state0 (val_conn chg) else ns_min);
     let ns_max = (if none then dev_state0 (val_conn chg) else ns_max);
     let res = (\<lambda>s. s\<lparr>susp := res_susp (resource c), susp_nod := res_susp_nod (resource c),
                      susp_fen := res_susp_fen (resource c)\<rparr>);
     Some (res ns_min, res ns_max, c)
   }"

definition conn_rq_cond :: "drbd_connection \<Rightarrow> st_chg \<Rightarrow> (drbd_state_rv \<times> drbd_connection) option" where
  "conn_rq_cond c chg = do {
     let (rv, c) = (if CONN_WD_ST_CHG_OKAY c then (SS_CW_SUCCESS, c\<lparr>CONN_WD_ST_CHG_OKAY := False\<rparr>)
                    else (SS_UNKNOWN_ERROR, c));
     let (rv, c) = (if CONN_WD_ST_CHG_FAIL c then (SS_CW_FAILED_BY_PEER, c\<lparr>CONN_WD_ST_CHG_FAIL := False\<rparr>)
                    else (rv, c));
     err \<leftarrow> conn_is_valid_transition c chg 0;
     Some (if err = SS_SUCCESS \<and> cstate c = C_WF_REPORT_PARAMS then (rv, c) else (err, c))
   }"

fun conn_wait :: "drbd_connection \<Rightarrow> st_chg \<Rightarrow> (drbd_connection \<Rightarrow> drbd_connection) list
    \<Rightarrow> (drbd_state_rv \<times> drbd_connection) outcome" where
  "conn_wait c chg [] = Blocked"
| "conn_wait c chg (f # fs) =
    (case conn_rq_cond (f c) chg of
       None \<Rightarrow> Oops
     | Some (rv, c') \<Rightarrow> if rv = SS_UNKNOWN_ERROR then conn_wait c' chg fs else Returned (rv, c'))"

definition conn_commit :: "u64 \<Rightarrow> (nat \<Rightarrow> bool) \<Rightarrow> bool \<Rightarrow> drbd_connection \<Rightarrow> st_chg \<Rightarrow> chg_state_flags \<Rightarrow> drbd_state_rv
    \<Rightarrow> (drbd_state_rv \<times> drbd_connection) outcome" where
  "conn_commit jif mem cmem c chg fl rv =
    (let (os, fl) = conn_old_common_state c fl; fl = fl OR CS_DC_SUSP in
     case conn_set_state jif mem c chg fl of
       None \<Rightarrow> Oops
     | Some (ns_min, ns_max, c') \<Rightarrow>
         Returned (rv, if cmem then push_work (After_Conn_State_Ch (conn os) ns_min ns_max fl) c' else c'))"

definition conn_request_state :: "u64 \<Rightarrow> (nat \<Rightarrow> bool) \<Rightarrow> bool \<Rightarrow> bool \<Rightarrow> (drbd_connection \<Rightarrow> drbd_connection) list
    \<Rightarrow> drbd_connection \<Rightarrow> st_chg \<Rightarrow> chg_state_flags \<Rightarrow> (drbd_state_rv \<times> drbd_connection) outcome" where
  "conn_request_state jif mem cmem snd_err env c chg fl =
    (let oc = cstate c;
         rv = (if c_conn chg \<noteq> None then is_valid_conn_transition oc (val_conn chg) else SS_SUCCESS)
     in if rv < SS_SUCCESS then Returned (rv, c)
        else case conn_is_valid_transition c chg fl of
          None \<Rightarrow> Oops
        | Some rv \<Rightarrow>
          if rv < SS_SUCCESS then Returned (rv, c)
          else if oc = C_WF_REPORT_PARAMS \<and> val_conn chg = C_DISCONNECTING \<and> \<not> cs_test fl (CS_LOCAL_ONLY OR CS_HARD)
          then if snd_err then Returned (SS_CW_FAILED_BY_PEER, c)
               else (case conn_wait (push_work (Conn_Send_State_Req chg)
                              (c\<lparr>CONN_WD_ST_CHG_REQ := True, DISCONNECT_SENT := True\<rparr>)) chg env of
                       Oops \<Rightarrow> Oops
                     | Blocked \<Rightarrow> Blocked
                     | Returned (rv, c') \<Rightarrow>
                         let c' = c'\<lparr>CONN_WD_ST_CHG_REQ := False\<rparr> in
                         if rv < SS_SUCCESS then Returned (rv, c') else conn_commit jif mem cmem c' chg fl rv)
          else conn_commit jif mem cmem c chg fl rv)"

section \<open>Cluster-wide changes need the peer\<close>

lemma upd_device_read [simp]:
  "i < length (peer_devices c) \<Longrightarrow> peer_devices (upd_device i f c) ! i = f (peer_devices c ! i)"
  by (simp add: upd_device_def)

lemma req_st_cond_waiting:
  assumes "req_st_cond c i chg = Some (SS_UNKNOWN_ERROR, c')"
  shows "c' = c"
  using assms by (auto simp: req_st_cond_def Let_def split: if_splits Option.bind_splits)

definition change_is_local :: "drbd_connection \<Rightarrow> nat \<Rightarrow> st_chg \<Rightarrow> bool" where
  "change_is_local c i chg \<longleftrightarrow> (let os = drbd_read_state c i in
     \<not> cl_wide_st_chg os (sanitize_state c i os (apply_mask_val os chg)))"

lemma req_st_cond_agreed:
  assumes "req_st_cond c i chg = Some (rv, c')" "SS_SUCCESS \<le> rv"
  shows "CL_ST_CHG_SUCCESS (peer_devices c ! i) \<or> change_is_local c i chg"
proof (rule ccontr)
  assume neg: "\<not> ?thesis"
  then have n: "\<not> CL_ST_CHG_SUCCESS (peer_devices c ! i)" by simp
  define os ns where "os = drbd_read_state c i" and "ns = sanitize_state c i os (apply_mask_val os chg)"
  from neg have wide: "cl_wide_st_chg os ns" by (simp add: change_is_local_def Let_def os_def ns_def)
  have bad: "\<not> SS_SUCCESS \<le> SS_CW_FAILED_BY_PEER" "\<not> SS_SUCCESS \<le> SS_UNKNOWN_ERROR"
    by (simp_all add: enum_order_defs)
  have "\<not> SS_SUCCESS \<le> rv"
    using assms(1) n wide bad unfolding req_st_cond_def Let_def os_def [symmetric] ns_def [symmetric]
    by (auto split: if_splits Option.bind_splits)
  with assms(2) show False by contradiction
qed

definition env_run :: "drbd_connection \<Rightarrow> (drbd_connection \<Rightarrow> drbd_connection) list \<Rightarrow> drbd_connection" where
  "env_run c fs = foldl (\<lambda>c f. f c) c fs"

lemma req_wait_agreed:
  assumes "req_wait c i chg env = Returned (rv, c', env')" "SS_SUCCESS \<le> rv"
  shows "\<exists>k. 0 < k \<and> k \<le> length env \<and> (CL_ST_CHG_SUCCESS (peer_devices (env_run c (take k env)) ! i)
           \<or> change_is_local (env_run c (take k env)) i chg)"
  using assms(1)
proof (induction env arbitrary: c)
  case (Cons f fs)
  then obtain r c1 where r: "req_st_cond (f c) i chg = Some (r, c1)"
    by (auto split: option.splits)
  show ?case
  proof (cases "r = SS_UNKNOWN_ERROR")
    case True
    with r have "c1 = f c" using req_st_cond_waiting by simp
    with Cons.prems r True have "req_wait (f c) i chg fs = Returned (rv, c', env')" by simp
    from Cons.IH [OF this] obtain k where "0 < k" "k \<le> length fs"
      "CL_ST_CHG_SUCCESS (peer_devices (env_run (f c) (take k fs)) ! i) \<or> change_is_local (env_run (f c) (take k fs)) i chg"
      by blast
    then show ?thesis by (intro exI [of _ "Suc k"]) (simp add: env_run_def)
  next
    case False
    with Cons.prems r have "r = rv" by simp
    with req_st_cond_agreed r assms(2) show ?thesis
      by (intro exI [of _ 1]) (simp add: env_run_def)
  qed
qed simp

text \<open>
  C12: A change that concerns the pair (promotion while connected, starting a resync or a verify,
  disconnecting) is never committed on this node's own decision: when \<open>drbd_req_state\<close> succeeds, the
  request was sent, and at some wakeup either the peer's consent (\<open>CL_ST_CHG_SUCCESS\<close>) was there or
  the change had ceased to be a cluster-wide one.
\<close>

theorem cluster_wide_needs_peer:
  assumes "drbd_req_state jif mem snd_err env c i chg fl = Returned (rv, c')" "SS_SUCCESS \<le> rv"
    and "\<not> change_is_local c i chg"
  shows "\<not> snd_err \<and> (\<exists>k. 0 < k \<and> k \<le> length env
     \<and> (let c1 = env_run (push_work (Send_State_Req i chg) c) (take k env) in
         CL_ST_CHG_SUCCESS (peer_devices c1 ! i) \<or> change_is_local c1 i chg))"
proof -
  define os ns where "os = drbd_read_state c i" and "ns = sanitize_state c i os (apply_mask_val os chg)"
  have wide: "cl_wide_st_chg os ns" using assms(3) by (simp add: change_is_local_def Let_def os_def ns_def)
  have bad: "\<not> SS_SUCCESS \<le> SS_CW_FAILED_BY_PEER" by (simp add: enum_order_defs)
  note eq = assms(1) [unfolded drbd_req_state_def Let_def, folded os_def, folded ns_def]
  have 1: "\<not> is_valid_transition os ns < SS_SUCCESS" using eq assms(2) by auto
  obtain rv0 where 2: "is_valid_state c i ns = Some rv0"
    using eq 1 wide by (auto split: option.splits)
  have 3: "\<not> (if rv0 = SS_SUCCESS then is_valid_soft_transition os ns c else rv0) < SS_SUCCESS"
    using eq 1 2 wide assms(2) by (auto split: if_splits)
  have 4: "\<not> snd_err" using eq 1 2 3 wide assms(2) bad by (auto split: if_splits)
  obtain rv1 c1 env' where 5: "req_wait (push_work (Send_State_Req i chg) c) i chg env = Returned (rv1, c1, env')"
    using eq 1 2 3 4 wide by (cases "req_wait (push_work (Send_State_Req i chg) c) i chg env") auto
  have "\<not> rv1 < SS_SUCCESS" using eq 1 2 3 4 5 wide assms(2) by auto
  then have "SS_SUCCESS \<le> rv1" by simp
  from req_wait_agreed [OF 5 this] 4 show ?thesis by (simp add: Let_def)
qed

section \<open>Hard changes of a connection\<close>

definition nosusp :: "drbd_state \<Rightarrow> drbd_state" where
  "nosusp s = s\<lparr>susp := False, susp_nod := False, susp_fen := False\<rparr>"

lemma nosusp_fields [simp]:
  "role (nosusp s) = role s" "peer (nosusp s) = peer s" "conn (nosusp s) = conn s" "disk (nosusp s) = disk s"
  "pdsk (nosusp s) = pdsk s" "aftr_isp (nosusp s) = aftr_isp s" "peer_isp (nosusp s) = peer_isp s"
  "user_isp (nosusp s) = user_isp s" "any_isp (nosusp s) = any_isp s"
  by (simp_all add: nosusp_def any_isp_def)

definition san_core :: "drbd_device \<Rightarrow> drbd_state \<Rightarrow> drbd_state" where
  "san_core d s = san_pause (san_limits (san_connected (san_negotiating d (san_abort_resync
     (san_unconfigured (san_disconnected s))))))"

lemma nosusp_blocks:
  "nosusp (san_disconnected s) = san_disconnected (nosusp s)"
  "nosusp (san_unconfigured s) = san_unconfigured (nosusp s)"
  "nosusp (san_abort_resync s) = san_abort_resync (nosusp s)"
  "nosusp (san_negotiating d s) = san_negotiating d (nosusp s)"
  "nosusp (san_connected s) = san_connected (nosusp s)"
  "nosusp (san_susp fp ond os s) = nosusp s"
  "nosusp (san_pause s) = san_pause (nosusp s)"
  by (auto simp: nosusp_def san_disconnected_def san_unconfigured_def san_abort_resync_def
        san_negotiating_def san_connected_def san_susp_def san_pause_def any_isp_def)

lemma nosusp_san_limits: "nosusp (san_limits s) = san_limits (nosusp s)"
  by (simp add: nosusp_def san_limits_def split: prod.split)

lemma nosusp_sanitize: "nosusp (sanitize_state c i os s) = san_core (peer_devices c ! i) (nosusp s)"
  by (simp add: sanitize_state_def Let_def san_core_def nosusp_blocks nosusp_san_limits)

lemma nosusp_apply: "nosusp s = nosusp t \<Longrightarrow> nosusp (apply_mask_val s chg) = nosusp (apply_mask_val t chg)"
  by (cases s; cases t) (simp add: nosusp_def apply_mask_val_def)

lemma nosusp_read:
  "peer_devices c ! i = peer_devices c' ! i \<Longrightarrow> nosusp (drbd_read_state c i) = nosusp (drbd_read_state c' i)"
  by (simp add: drbd_read_state_def nosusp_def)

lemma is_valid_transition_nosusp:
  "nosusp a = nosusp b \<Longrightarrow> nosusp x = nosusp y \<Longrightarrow> is_valid_transition a x = is_valid_transition b y"
  by (metis is_valid_transition_def nosusp_fields(3,4))

lemma set_state_other_volumes:
  assumes "drbd_set_state jif mem c i ns fl dn = Some (rv, c')"
  shows "(\<forall>j. j \<noteq> i \<longrightarrow> peer_devices c' ! j = peer_devices c ! j)
       \<and> length (peer_devices c') = length (peer_devices c)"
proof -
  have "ss_apply jif mem c i (drbd_read_state c i) (sanitize_state c i (drbd_read_state c i) ns) fl dn = Some (rv, c')"
    using assms by (simp add: drbd_set_state_def Let_def)
  then show ?thesis
    by (cases rule: ss_apply_cases) (simp_all add: ss_commit_fields)
qed

lemma nosusp_cong_conn: "nosusp a = nosusp b \<Longrightarrow> conn a = conn b \<and> disk a = disk b"
  by (metis nosusp_fields(3,4))

lemma sanitize_nosusp_cong:
  assumes "peer_devices c ! i = peer_devices c' ! i" "nosusp s = nosusp t"
  shows "nosusp (sanitize_state c i os s) = nosusp (sanitize_state c' i os' t)"
  using assms by (simp add: nosusp_sanitize)

text \<open>No volume is in, and no request asks for, the pseudo state \<open>C_MASK\<close>.\<close>

definition no_mask :: "drbd_connection \<Rightarrow> st_chg \<Rightarrow> bool" where
  "no_mask c chg \<longleftrightarrow> c_conn chg \<noteq> Some C_MASK \<and> list_all (\<lambda>d. conn (state d) \<noteq> C_MASK) (peer_devices c)"

lemma apply_mask_val_no_mask:
  assumes "no_mask c chg" "i < length (peer_devices c)"
  shows "conn (apply_mask_val (drbd_read_state c i) chg) \<noteq> C_MASK"
  using assms by (auto simp: no_mask_def list_all_length drbd_read_state_def apply_mask_val_def override_def split: option.split)

lemma sanitize_no_mask: "conn s \<noteq> C_MASK \<Longrightarrow> conn (sanitize_state c i os s) \<noteq> C_MASK"
  by (auto simp: sanitize_state_def Let_def san_pause_def san_abort_resync_def split: if_splits)

text \<open>
  The check looked at the volume in the connection \<open>c\<close>; the commit meets it in \<open>c'\<close>, where only
  other volumes and the suspend flags of the resource have changed.
\<close>

lemma hard_commit_accepts:
  assumes valid: "wanted_state c i chg fl = drbd_read_state c i
      \<or> SS_SUCCESS \<le> is_valid_transition (drbd_read_state c i) (wanted_state c i chg fl)"
    and fl: "\<not> cs_test fl CS_IGN_OUTD_FAIL" "cs_test fl CS_HARD"
    and dev: "peer_devices c' ! i = peer_devices c ! i" and i: "i < length (peer_devices c)"
    and nm: "no_mask c chg"
  shows "\<exists>rv c''. drbd_set_state jif mem c' i (wanted_state c' i chg fl) fl dn = Some (rv, c'') \<and> SS_SUCCESS \<le> rv"
proof -
  define os os' where "os = drbd_read_state c i" and "os' = drbd_read_state c' i"
  define w w' where "w = wanted_state c i chg fl" and "w' = wanted_state c' i chg fl"
  define n where "n = sanitize_state c' i os' w'"
  have w: "w = sanitize_state c i os (apply_mask_val os chg)"
    "w' = sanitize_state c' i os' (apply_mask_val os' chg)"
    using fl(1) by (simp_all add: w_def w'_def os_def os'_def wanted_state_def ign_outd_fail_def Let_def)
  have os: "nosusp os' = nosusp os" unfolding os_def os'_def by (rule nosusp_read [OF dev])
  have ww: "nosusp w' = nosusp w"
    unfolding w by (rule sanitize_nosusp_cong [OF dev nosusp_apply [OF os]])
  have "conn w \<noteq> C_MASK"
    unfolding w os_def by (rule sanitize_no_mask [OF apply_mask_val_no_mask [OF nm i]])
  with nosusp_cong_conn [OF ww] have "conn w' \<noteq> C_MASK" by simp
  moreover have "sane w'" by (simp add: w sanitize_sane)
  ultimately have cn: "conn n = conn w'" unfolding n_def by (intro sanitize_conn_sane)
  have df: "disk n = D_FAILED \<Longrightarrow> disk w' = D_FAILED"
    unfolding n_def w(2) by (rule sanitize_disk_FAILED)
  have ok: "SS_SUCCESS \<le> is_valid_transition os' n"
  proof (cases "w = os")
    case True
    then have "conn n = conn os'" "\<not> (disk n = D_FAILED \<and> disk os' = D_DISKLESS)"
      using cn df nosusp_cong_conn [OF ww] nosusp_cong_conn [OF os] by auto
    then show ?thesis
      by (simp add: is_valid_transition_def is_valid_conn_transition_def enum_order_defs)
  next
    case False
    then have "SS_SUCCESS \<le> is_valid_transition os w" using valid by (simp add: w_def os_def)
    from is_valid_transition_ok [OF this] show ?thesis
      using cn df nosusp_cong_conn [OF ww] nosusp_cong_conn [OF os]
      by (auto simp: is_valid_transition_def)
  qed
  have "drbd_set_state jif mem c' i w' fl dn = ss_apply jif mem c' i os' n fl dn"
    by (simp add: drbd_set_state_def Let_def os'_def n_def)
  moreover have "ss_check c' i os' n fl = Some (is_valid_transition os' n)"
    using fl(2) by (simp add: ss_check_def Let_def)
  moreover have "\<not> is_valid_transition os' n < SS_SUCCESS" using ok by simp
  moreover have "SS_SUCCESS \<le> SS_NOTHING_TO_DO" by (simp add: enum_order_defs)
  ultimately show ?thesis
    using ok unfolding w'_def [symmetric] by (simp add: ss_apply_def)
qed

lemma conn_valid_loop_sound:
  assumes "conn_valid_loop c chg fl is rv0 = Some rv" "SS_SUCCESS \<le> rv" "cs_test fl CS_HARD" "j \<in> set is"
  shows "wanted_state c j chg fl = drbd_read_state c j
      \<or> SS_SUCCESS \<le> is_valid_transition (drbd_read_state c j) (wanted_state c j chg fl)"
  using assms
proof (induction "is" arbitrary: rv0)
  case (Cons i "is")
  show ?case
  proof (cases "wanted_state c i chg fl = drbd_read_state c i")
    case True
    with Cons show ?thesis by (auto simp: Let_def)
  next
    case False
    have hard: "ss_check c i (drbd_read_state c i) (wanted_state c i chg fl) fl
        = Some (is_valid_transition (drbd_read_state c i) (wanted_state c i chg fl))"
      using Cons.prems(3) by (simp add: ss_check_def Let_def)
    show ?thesis
    proof (cases "is_valid_transition (drbd_read_state c i) (wanted_state c i chg fl) < SS_SUCCESS")
      case True
      with Cons.prems(1,2) False hard show ?thesis by (simp add: Let_def)
    next
      case ok: False
      with Cons.prems False hard have
        "conn_valid_loop c chg fl is (is_valid_transition (drbd_read_state c i) (wanted_state c i chg fl)) = Some rv"
        by (simp add: Let_def)
      with Cons.IH Cons.prems ok show ?thesis by auto
    qed
  qed
qed simp

lemma conn_set_loop_hard:
  assumes "\<forall>j \<in> set is. j < length (peer_devices c) \<and> peer_devices c' ! j = peer_devices c ! j
      \<and> (wanted_state c j chg fl = drbd_read_state c j
      \<or> SS_SUCCESS \<le> is_valid_transition (drbd_read_state c j) (wanted_state c j chg fl))"
    and "distinct is" and "length (peer_devices c') = length (peer_devices c)"
    and "\<not> cs_test fl CS_IGN_OUTD_FAIL" "cs_test fl CS_HARD" "no_mask c chg"
  shows "\<exists>r. conn_set_loop jif mem chg fl is (a, b, c') = Some r"
  using assms(1-3)
proof (induction "is" arbitrary: a b c')
  case (Cons i "is")
  have len: "i < length (peer_devices c)" and dev: "peer_devices c' ! i = peer_devices c ! i"
    and valid: "wanted_state c i chg fl = drbd_read_state c i
      \<or> SS_SUCCESS \<le> is_valid_transition (drbd_read_state c i) (wanted_state c i chg fl)"
    using Cons.prems(1) by auto
  obtain rv c2 where s: "drbd_set_state jif (mem i) c' i (wanted_state c' i chg fl) fl False = Some (rv, c2)"
    "SS_SUCCESS \<le> rv"
    using hard_commit_accepts [OF valid assms(4,5) dev len assms(6)] by blast
  have o: "\<forall>j. j \<noteq> i \<longrightarrow> peer_devices c2 ! j = peer_devices c' ! j" "length (peer_devices c2) = length (peer_devices c')"
    using set_state_other_volumes [OF s(1)] by blast+
  have "\<exists>r. conn_set_loop jif mem chg fl is
     (ns_min_upd (state (peer_devices c2 ! i)) a, ns_max_upd (state (peer_devices c2 ! i)) b, c2) = Some r"
    using Cons.prems o by (intro Cons.IH) auto
  with s show ?case by (simp add: not_less Let_def)
qed simp

lemma conn_set_cstate_keeps:
  "peer_devices (conn_set_cstate jif chg c) = peer_devices c" "resource (conn_set_cstate jif chg c) = resource c"
  by (simp_all add: conn_set_cstate_def Let_def)

text \<open>
  C22: When \<open>conn_is_valid_transition\<close> accepts a hard change for all volumes of a connection, the loop
  of \<open>conn_set_state\<close> commits it on every one of them: its \<open>BUG()\<close> is not reached, although each
  volume is re-checked in the state the earlier ones left behind.
\<close>

theorem conn_hard_change_no_bug:
  assumes "conn_is_valid_transition c chg fl = Some rv" "SS_SUCCESS \<le> rv"
    and "cs_test fl CS_HARD" "\<not> cs_test fl CS_IGN_OUTD_FAIL" "no_mask c chg"
  shows "\<exists>ns_min ns_max c'. conn_set_state jif mem c chg fl = Some (ns_min, ns_max, c')"
proof -
  let ?is = "[0..<length (peer_devices c)]"
  have "\<forall>j \<in> set ?is. wanted_state c j chg fl = drbd_read_state c j
      \<or> SS_SUCCESS \<le> is_valid_transition (drbd_read_state c j) (wanted_state c j chg fl)"
    using conn_valid_loop_sound [OF assms(1) [unfolded conn_is_valid_transition_def] assms(2,3)] by blast
  then have loop: "\<exists>r. conn_set_loop jif mem chg fl ?is (a, b, conn_set_cstate jif chg c) = Some r" for a b
    by (intro conn_set_loop_hard [where c = c]) (use assms in \<open>simp_all add: conn_set_cstate_keeps\<close>)
  show ?thesis
    using loop [of "(dev_state0 (val_conn chg))\<lparr>role := R_MASK, peer := R_MASK, disk := D_MASK, pdsk := D_MASK\<rparr>"
        "(dev_state0 C_STANDALONE)\<lparr>role := R_UNKNOWN, pdsk := D_DISKLESS\<rparr>"]
    by (elim exE) (simp add: conn_set_state_def conn_set_cstate_keeps Let_def split: prod.splits)
qed

definition ex_net_failure :: st_chg where
  "ex_net_failure = NS_none\<lparr>c_conn := Some C_NETWORK_FAILURE\<rparr>"

theorem conn_hard_change_no_bug_witness:
  "\<exists>ns_min ns_max c'. conn_set_state 7 (\<lambda>_. True) ex_pair ex_net_failure CS_HARD = Some (ns_min, ns_max, c')"
proof -
  have "conn_is_valid_transition ex_pair ex_net_failure CS_HARD = Some SS_SUCCESS" "SS_SUCCESS \<le> SS_SUCCESS"
    "cs_test CS_HARD CS_HARD" "\<not> cs_test CS_HARD CS_IGN_OUTD_FAIL" "no_mask ex_pair ex_net_failure"
    by code_simp+
  then show ?thesis by (rule conn_hard_change_no_bug)
qed


lemma Some_the: "map_option fst x = Some a \<Longrightarrow> x = Some (a, snd (the x))"
  by (cases x) auto

definition ex_promote :: st_chg where
  "ex_promote = NS_none\<lparr>c_role := Some R_PRIMARY\<rparr>"

definition ex_peer_agrees :: "drbd_connection \<Rightarrow> drbd_connection" where
  "ex_peer_agrees c = upd_device 0 (\<lambda>d. d\<lparr>CL_ST_CHG_SUCCESS := True\<rparr>) c"

definition ex_sent :: drbd_connection where
  "ex_sent = push_work (Send_State_Req 0 ex_promote) ex_pair"

lemma ex_promote_facts:
  "drbd_read_state ex_pair 0 = ex_connected" "apply_mask_val ex_connected ex_promote = ex_promoted"
  "sanitize_state ex_pair 0 ex_connected ex_promoted = ex_promoted"
  "is_valid_transition ex_connected ex_promoted = SS_NOTHING_TO_DO"
  "cl_wide_st_chg ex_connected ex_promoted" "is_valid_state ex_pair 0 ex_promoted = Some SS_SUCCESS"
  "is_valid_soft_transition ex_connected ex_promoted ex_pair = SS_SUCCESS"
  "req_st_cond ex_sent 0 ex_promote = Some (SS_UNKNOWN_ERROR, ex_sent)"
  "req_st_cond (ex_peer_agrees ex_sent) 0 ex_promote = Some (SS_CW_SUCCESS, ex_sent)"
  "drbd_read_state ex_sent 0 = ex_connected"
  "map_option fst (drbd_set_state 7 True ex_sent 0 ex_promoted CS_VERBOSE True) = Some SS_SUCCESS"
  "\<not> SS_NOTHING_TO_DO < SS_SUCCESS" "\<not> SS_CW_SUCCESS < SS_SUCCESS"
  by code_simp+

definition ex_done :: drbd_connection where
  "ex_done = snd (the (drbd_set_state 7 True ex_sent 0 ex_promoted CS_VERBOSE True))"

lemma ex_promote_succeeds:
  "drbd_req_state 7 True False [id, ex_peer_agrees] ex_pair 0 ex_promote CS_VERBOSE = Returned (SS_SUCCESS, ex_done)"
  unfolding drbd_req_state_def Let_def ex_sent_def [symmetric]
  by (simp add: ex_promote_facts Some_the [OF ex_promote_facts(11), folded ex_done_def] of_option_def)

theorem cluster_wide_needs_peer_witness:
  "\<exists>k. 0 < k \<and> k \<le> 2 \<and> (let c1 = env_run (push_work (Send_State_Req 0 ex_promote) ex_pair) (take k [id, ex_peer_agrees]) in
         CL_ST_CHG_SUCCESS (peer_devices c1 ! 0) \<or> change_is_local c1 0 ex_promote)"
proof -
  have "SS_SUCCESS \<le> SS_SUCCESS" "\<not> change_is_local ex_pair 0 ex_promote" by code_simp+
  from cluster_wide_needs_peer [OF ex_promote_succeeds this] show ?thesis by (simp add: numeral_2_eq_2)
qed

section \<open>A soft change that reaches \<open>BUG()\<close>\<close>

text \<open>
  Volume 0 is primary on the peer, volume 1 is primary here, and two primaries are not allowed: first
  while volume 1 reports its state during the handshake, then after its local disk has failed.
\<close>

definition ex_vol0 :: drbd_state where
  "ex_vol0 = ex_state R_SECONDARY R_PRIMARY C_CONNECTED D_UP_TO_DATE D_UP_TO_DATE"

definition ex_handshake :: drbd_connection where
  "ex_handshake = ex_conn [ex_vol0, ex_state R_PRIMARY R_UNKNOWN C_WF_REPORT_PARAMS D_UP_TO_DATE D_UNKNOWN]"

definition ex_vol1_connects :: st_chg where
  "ex_vol1_connects = NS_none\<lparr>c_conn := Some C_CONNECTED, c_peer := Some R_SECONDARY, c_pdsk := Some D_UP_TO_DATE\<rparr>"

definition ex_split :: drbd_connection where
  "ex_split = ex_conn [ex_vol0, ex_state R_PRIMARY R_SECONDARY C_CONNECTED D_DISKLESS D_UP_TO_DATE]"

definition ex_disconnect :: st_chg where
  "ex_disconnect = NS_none\<lparr>c_conn := Some C_DISCONNECTING\<rparr>"

definition ex_waiting :: drbd_connection where
  "ex_waiting = ex_split\<lparr>CONN_WD_ST_CHG_REQ := True, DISCONNECT_SENT := True,
     todo := [Conn_Send_State_Req ex_disconnect]\<rparr>"

definition ex_agreed :: drbd_connection where
  "ex_agreed = ex_waiting\<lparr>CONN_WD_ST_CHG_REQ := False\<rparr>"

definition ex_fl :: chg_state_flags where
  "ex_fl = snd (conn_old_common_state ex_agreed 0) OR CS_DC_SUSP"

definition ex_down :: drbd_connection where
  "ex_down = conn_set_cstate 5 ex_disconnect ex_agreed"

definition ex_vol0_down :: drbd_connection where
  "ex_vol0_down = snd (the (drbd_set_state 5 True ex_down 0 (wanted_state ex_down 0 ex_disconnect ex_fl) ex_fl False))"

lemma ex_bug_facts:
  "is_valid_conn_transition (cstate ex_split) (val_conn ex_disconnect) = SS_SUCCESS"
  "conn_is_valid_transition ex_split ex_disconnect 0 = Some SS_SUCCESS"
  "cstate ex_split = C_WF_REPORT_PARAMS" "val_conn ex_disconnect = C_DISCONNECTING"
  "c_conn ex_disconnect \<noteq> None" "\<not> cs_test 0 (CS_LOCAL_ONLY OR CS_HARD)"
  "conn_rq_cond (ex_waiting\<lparr>CONN_WD_ST_CHG_OKAY := True\<rparr>) ex_disconnect = Some (SS_CW_SUCCESS, ex_waiting)"
  "\<not> SS_SUCCESS < SS_SUCCESS" "\<not> SS_CW_SUCCESS < SS_SUCCESS" "SS_NO_UP_TO_DATE_DISK < SS_SUCCESS"
  "length (peer_devices ex_down) = 2"
  "map_option fst (drbd_set_state 5 True ex_down 0 (wanted_state ex_down 0 ex_disconnect ex_fl) ex_fl False) = Some SS_SUCCESS"
  "map_option fst (drbd_set_state 5 True ex_vol0_down 1 (wanted_state ex_vol0_down 1 ex_disconnect ex_fl) ex_fl False)
     = Some SS_NO_UP_TO_DATE_DISK"
  by code_simp+

definition ex_refused :: drbd_connection where
  "ex_refused = snd (the (drbd_set_state 5 True ex_vol0_down 1 (wanted_state ex_vol0_down 1 ex_disconnect ex_fl) ex_fl False))"

lemma ex_waiting_eq:
  "push_work (Conn_Send_State_Req ex_disconnect) (ex_split\<lparr>CONN_WD_ST_CHG_REQ := True, DISCONNECT_SENT := True\<rparr>) = ex_waiting"
  by (simp add: push_work_def ex_waiting_def ex_split_def ex_conn_def)

lemma ex_conn_set_state_bug: "conn_set_state 5 (\<lambda>_. True) ex_agreed ex_disconnect ex_fl = None"
proof -
  note s1 = Some_the [OF ex_bug_facts(12), folded ex_vol0_down_def]
  note s2 = Some_the [OF ex_bug_facts(13), folded ex_refused_def, unfolded One_nat_def]
  have l: "[0..<length (peer_devices ex_down)] = [0, 1]" by (simp add: ex_bug_facts upt_rec)
  have "conn_set_loop 5 (\<lambda>_. True) ex_disconnect ex_fl [0, 1] (a, b, ex_down) = None" for a b
    by (simp add: s1 s2 ex_bug_facts Let_def)
  then show ?thesis
    by (simp add: conn_set_state_def Let_def ex_down_def [symmetric] l)
qed

text \<open>
  C23: For soft changes the check of all volumes does not protect the commit. With two volumes that are
  primary on different nodes without \<open>allow-two-primaries\<close> (the handshake accepts this, because the
  old state of the second volume has the same fault), a disconnect requested after the local disk of
  the primary volume failed passes \<open>conn_is_valid_transition\<close>, the peer agrees, volume 0 is committed,
  which hides the peer's primary role, and the re-check of volume 1 then fails for another reason:
  \<open>conn_set_state\<close> calls \<open>BUG()\<close>.
\<close>

theorem conn_soft_change_bug:
  "map_option fst (drbd_change_state 1 True ex_handshake 1 CS_VERBOSE ex_vol1_connects) = Some SS_SUCCESS
   \<and> conn_is_valid_transition ex_split ex_disconnect 0 = Some SS_SUCCESS
   \<and> conn_request_state 5 (\<lambda>_. True) True False [\<lambda>c. c\<lparr>CONN_WD_ST_CHG_OKAY := True\<rparr>] ex_split ex_disconnect 0 = Oops"
proof (intro conjI)
  show "map_option fst (drbd_change_state 1 True ex_handshake 1 CS_VERBOSE ex_vol1_connects) = Some SS_SUCCESS"
    by code_simp
  show "conn_is_valid_transition ex_split ex_disconnect 0 = Some SS_SUCCESS" by (rule ex_bug_facts)
  have "conn_commit 5 (\<lambda>_. True) True ex_agreed ex_disconnect 0 SS_CW_SUCCESS = Oops"
    unfolding conn_commit_def Let_def case_prod_beta ex_fl_def [symmetric] ex_conn_set_state_bug by simp
  then show "conn_request_state 5 (\<lambda>_. True) True False [\<lambda>c. c\<lparr>CONN_WD_ST_CHG_OKAY := True\<rparr>] ex_split ex_disconnect 0 = Oops"
    unfolding conn_request_state_def Let_def ex_waiting_eq
    by (simp add: ex_bug_facts(2-9) ex_bug_facts(1) [unfolded ex_bug_facts(3,4)] ex_agreed_def [symmetric])
qed


end
