(* ===== verification/Uuid.thy ===== *)
theory Uuid
  imports State_Conn
begin

text \<open>
  Data generation identifiers: the UUID slots of the metadata (\<open>drbd_uuid_set\<close> and its relatives of
  \<open>drbd_main.c\<close>), their exchange (\<open>_drbd_send_uuids\<close>, \<open>receive_uuids\<close>) and the decision who
  synchronises from whom (\<open>drbd_uuid_compare\<close>, the after-split-brain policies and
  \<open>drbd_sync_handshake\<close> of \<open>drbd_receiver.c\<close>). Random numbers, the outcome of I/O and of memory
  allocation are arguments; helper programs are appended to \<open>todo\<close>. Timers of the metadata writer
  and log messages are left out.
\<close>

section \<open>The UUID slots\<close>

definition UUID_JUST_CREATED :: u64 where "UUID_JUST_CREATED = 4"
definition UUID_NEW_BM_OFFSET :: u64 where "UUID_NEW_BM_OFFSET = 0x0001000000000000"

text \<open>\<open>x & ~((u64)1)\<close>: the lowest bit only tells whether the node was primary.\<close>

definition m1 :: "u64 \<Rightarrow> u64" where
  "m1 x = x AND NOT 1"

abbreviation md_uuid_of :: "drbd_device \<Rightarrow> nat \<Rightarrow> u64" where
  "md_uuid_of d i \<equiv> md_uuid (ldev d) ! i"

definition set_md_uuid :: "nat \<Rightarrow> u64 \<Rightarrow> drbd_device \<Rightarrow> drbd_device" where
  "set_md_uuid i v d = d\<lparr>ldev := (ldev d)\<lparr>md_uuid := (md_uuid (ldev d))[i := v]\<rparr>\<rparr>"

definition drbd_md_mark_dirty :: "drbd_device \<Rightarrow> drbd_device" where
  "drbd_md_mark_dirty d = d\<lparr>MD_DIRTY := True\<rparr>"

definition drbd_md_set_flag :: "u32 \<Rightarrow> drbd_device \<Rightarrow> drbd_device" where
  "drbd_md_set_flag flag d =
    (if md_flags (ldev d) AND flag \<noteq> flag
     then (drbd_md_mark_dirty d)\<lparr>ldev := (ldev d)\<lparr>md_flags := md_flags (ldev d) OR flag\<rparr>\<rparr> else d)"

definition drbd_md_clear_flag :: "u32 \<Rightarrow> drbd_device \<Rightarrow> drbd_device" where
  "drbd_md_clear_flag flag d =
    (if md_flags (ldev d) AND flag \<noteq> 0
     then (drbd_md_mark_dirty d)\<lparr>ldev := (ldev d)\<lparr>md_flags := md_flags (ldev d) AND NOT flag\<rparr>\<rparr> else d)"

text \<open>The superblock is written out; of the state kept here only the dirty flag changes.\<close>

definition drbd_md_sync :: "drbd_device \<Rightarrow> drbd_device" where
  "drbd_md_sync d = d\<lparr>MD_DIRTY := False\<rparr>"

definition drbd_uuid_move_history :: "drbd_device \<Rightarrow> drbd_device" where
  "drbd_uuid_move_history d =
     fold (\<lambda>i d. set_md_uuid (i + 1) (md_uuid_of d i) d) [UI_HISTORY_START..<UI_HISTORY_END] d"

definition drbd_uuid_set_nolock :: "nat \<Rightarrow> u64 \<Rightarrow> drbd_device \<Rightarrow> drbd_device" where
  "drbd_uuid_set_nolock idx val d =
    (let (val, d) = (if idx = UI_CURRENT
                     then let val = (if role (state d) = R_PRIMARY then val OR 1 else m1 val)
                          in (val, d\<lparr>ed_uuid := val\<rparr>)
                     else (val, d))
     in drbd_md_mark_dirty (set_md_uuid idx val d))"

definition drbd_uuid_set :: "nat \<Rightarrow> u64 \<Rightarrow> drbd_device \<Rightarrow> drbd_device" where
  "drbd_uuid_set idx val d =
    (let d = (if md_uuid_of d idx \<noteq> 0
              then let d = drbd_uuid_move_history d in set_md_uuid UI_HISTORY_START (md_uuid_of d idx) d
              else d)
     in drbd_uuid_set_nolock idx val d)"

definition drbd_uuid_new_current :: "u64 \<Rightarrow> drbd_device \<Rightarrow> drbd_device" where
  "drbd_uuid_new_current rnd d =
     drbd_md_sync (drbd_uuid_set_nolock UI_CURRENT rnd (set_md_uuid UI_BITMAP (md_uuid_of d UI_CURRENT) d))"

definition drbd_uuid_set_bm :: "u64 \<Rightarrow> drbd_device \<Rightarrow> drbd_device" where
  "drbd_uuid_set_bm val d =
    (if md_uuid_of d UI_BITMAP = 0 \<and> val = 0 then d
     else drbd_md_mark_dirty
       (if val = 0
        then let d = drbd_uuid_move_history d;
                 d = set_md_uuid UI_HISTORY_START (md_uuid_of d UI_BITMAP) d
             in set_md_uuid UI_BITMAP 0 d
        else set_md_uuid UI_BITMAP (m1 val) d))"

definition drbd_gen_and_send_sync_uuid :: "u64 \<Rightarrow> nat \<Rightarrow> drbd_connection \<Rightarrow> drbd_connection" where
  "drbd_gen_and_send_sync_uuid rnd i c =
    (let d = peer_devices c ! i;
         uuid = md_uuid_of d UI_BITMAP;
         uuid = (if uuid \<noteq> 0 \<and> uuid \<noteq> UUID_JUST_CREATED then uuid + UUID_NEW_BM_OFFSET else rnd)
     in push_work (Send_Sync_Uuid i uuid) (upd_device i (\<lambda>d. drbd_md_sync (drbd_uuid_set UI_BITMAP uuid d)) c))"

section \<open>Sending the UUIDs\<close>

definition send_uuids :: "nat \<Rightarrow> u64 \<Rightarrow> drbd_connection \<Rightarrow> drbd_connection" where
  "send_uuids i uuid_flags c =
    (let d = peer_devices c ! i in
     if \<not> get_ldev_if_state d D_NEGOTIATING then c
     else
       let c = upd_device i (\<lambda>d. d\<lparr>comm_bm_set := bm_total_weight d\<rparr>) c;
           fl = uuid_flags OR (if discard_my_data (the (the_net_conf c)) then 1 else 0);
           fl = fl OR (if CRASHED_PRIMARY d then 2 else 0);
           fl = fl OR (if disk (new_state_tmp d) = D_INCONSISTENT then 4 else 0)
       in push_work (Send_Uuids i (take UI_SIZE (md_uuid (ldev d)) @ [bm_total_weight d, fl])) c)"

section \<open>Comparing data generations\<close>

text \<open>The verdict, the number of the rule that gave it, and the device, whose slots a rule may correct.\<close>

type_synonym verdict = "int \<times> nat \<times> drbd_device"

abbreviation p_uuid_of :: "drbd_device \<Rightarrow> nat \<Rightarrow> u64" where
  "p_uuid_of d i \<equiv> p_uuid d ! i"

definition set_p_uuid :: "nat \<Rightarrow> u64 \<Rightarrow> drbd_device \<Rightarrow> drbd_device" where
  "set_p_uuid i v d = d\<lparr>p_uuid := (p_uuid d)[i := v]\<rparr>"

definition was_sync_source :: "int \<Rightarrow> drbd_device \<Rightarrow> verdict" where
  "was_sync_source apv d =
    (if apv < 91 then (-1091, 30, d)
     else if m1 (md_uuid_of d UI_BITMAP) = m1 (p_uuid_of d UI_HISTORY_START)
           \<and> m1 (md_uuid_of d UI_HISTORY_START) = m1 (p_uuid_of d (UI_HISTORY_START + 1))
     then let d = drbd_uuid_move_history d;
              d = set_md_uuid UI_HISTORY_START (md_uuid_of d UI_BITMAP) d;
              d = set_md_uuid UI_BITMAP 0 d
          in (1, 34, d)
     else (1, 36, d))"

definition was_sync_target :: "int \<Rightarrow> drbd_device \<Rightarrow> verdict" where
  "was_sync_target apv d =
    (if apv < 91 then (-1091, 30, d)
     else if m1 (md_uuid_of d UI_HISTORY_START) = m1 (p_uuid_of d UI_BITMAP)
           \<and> m1 (md_uuid_of d (UI_HISTORY_START + 1)) = m1 (p_uuid_of d UI_HISTORY_START)
     then let d = set_p_uuid (UI_HISTORY_START + 1) (p_uuid_of d UI_HISTORY_START) d;
              d = set_p_uuid UI_HISTORY_START (p_uuid_of d UI_BITMAP) d;
              d = set_p_uuid UI_BITMAP 0 d
          in (-1, 35, d)
     else (-1, 37, d))"

text \<open>Same current UUID on both nodes: \<open>dc\<close> is the \<open>RESOLVE_CONFLICTS\<close> flag.\<close>

definition compare_equal :: "int \<Rightarrow> bool \<Rightarrow> drbd_device \<Rightarrow> verdict" where
  "compare_equal apv dc d =
    (if p_uuid_of d UI_BITMAP = 0 \<and> md_uuid_of d UI_BITMAP \<noteq> 0 then was_sync_source apv d
     else if md_uuid_of d UI_BITMAP = 0 \<and> p_uuid_of d UI_BITMAP \<noteq> 0 then was_sync_target apv d
     else
       let self_pri = CRASHED_PRIMARY d; peer_pri = (p_uuid_of d UI_FLAGS AND 2 \<noteq> 0)
       in if \<not> self_pri \<and> \<not> peer_pri then (0, 40, d)
          else if self_pri \<and> \<not> peer_pri then (1, 40, d)
          else if \<not> self_pri \<and> peer_pri then (-1, 40, d)
          else (if dc then -1 else 1, 40, d))"

definition lost_sync_uuid_peer :: "int \<Rightarrow> drbd_device \<Rightarrow> bool" where
  "lost_sync_uuid_peer apv d =
    (if apv < 96 then m1 (md_uuid_of d UI_HISTORY_START) = m1 (p_uuid_of d (UI_HISTORY_START + 1))
     else m1 (p_uuid_of d UI_HISTORY_START) + UUID_NEW_BM_OFFSET = m1 (p_uuid_of d UI_BITMAP))"

definition lost_sync_uuid_self :: "int \<Rightarrow> drbd_device \<Rightarrow> bool" where
  "lost_sync_uuid_self apv d =
    (if apv < 96 then m1 (md_uuid_of d (UI_HISTORY_START + 1)) = m1 (p_uuid_of d UI_HISTORY_START)
     else m1 (md_uuid_of d UI_HISTORY_START) + UUID_NEW_BM_OFFSET = m1 (md_uuid_of d UI_BITMAP))"

definition in_history :: "u64 \<Rightarrow> u64 list \<Rightarrow> bool" where
  "in_history x us = list_ex (\<lambda>i. m1 (us ! i) = x) [UI_HISTORY_START..<UI_HISTORY_END + 1]"

text \<open>Different current UUIDs, rules 50 to 100. The current UUIDs are given without their lowest bit.\<close>

definition compare_history :: "int \<Rightarrow> u64 \<Rightarrow> u64 \<Rightarrow> drbd_device \<Rightarrow> verdict" where
  "compare_history apv self other d =
    (if self = m1 (p_uuid_of d UI_BITMAP) then (-1, 50, d)
     else if self = m1 (p_uuid_of d UI_HISTORY_START) \<and> lost_sync_uuid_peer apv d then
       (if apv < 91 then (-1091, 51, d)
        else let d = set_p_uuid UI_BITMAP (p_uuid_of d UI_HISTORY_START) d;
                 d = set_p_uuid UI_HISTORY_START (p_uuid_of d (UI_HISTORY_START + 1)) d
             in (-1, 51, d))
     else if in_history self (p_uuid d) then (-2, 60, d)
     else if m1 (md_uuid_of d UI_BITMAP) = other then (1, 70, d)
     else if m1 (md_uuid_of d UI_HISTORY_START) = other \<and> lost_sync_uuid_self apv d then
       (if apv < 91 then (-1091, 71, d)
        else let d = drbd_uuid_set_nolock UI_BITMAP (md_uuid_of d UI_HISTORY_START) d;
                 d = drbd_uuid_set_nolock UI_HISTORY_START (md_uuid_of d (UI_HISTORY_START + 1)) d
             in (1, 71, d))
     else if in_history other (md_uuid (ldev d)) then (2, 80, d)
     else if m1 (md_uuid_of d UI_BITMAP) = m1 (p_uuid_of d UI_BITMAP) \<and> m1 (md_uuid_of d UI_BITMAP) \<noteq> 0
       then (100, 90, d)
     else if list_ex (\<lambda>i. in_history (m1 (md_uuid_of d i)) (p_uuid d)) [UI_HISTORY_START..<UI_HISTORY_END + 1]
       then (-100, 100, d)
     else (-1000, 100, d))"

definition drbd_uuid_compare :: "int \<Rightarrow> bool \<Rightarrow> drbd_device \<Rightarrow> verdict" where
  "drbd_uuid_compare apv dc d =
    (let self = m1 (md_uuid_of d UI_CURRENT); other = m1 (p_uuid_of d UI_CURRENT) in
     if self = UUID_JUST_CREATED \<and> other = UUID_JUST_CREATED then (0, 10, d)
     else if (self = UUID_JUST_CREATED \<or> self = 0) \<and> other \<noteq> UUID_JUST_CREATED then (-2, 20, d)
     else if self \<noteq> UUID_JUST_CREATED \<and> (other = UUID_JUST_CREATED \<or> other = 0) then (2, 30, d)
     else if self = other then compare_equal apv dc d
     else compare_history apv self other d)"

section \<open>After split brain\<close>

text \<open>\<open>-1\<close>: discard the local changes, \<open>1\<close>: those of the peer, \<open>-100\<close>: no decision.\<close>

definition tie_break :: "bool \<Rightarrow> int" where
  "tie_break dc = (if dc then -1 else 1)"

definition asb_least_chg :: "bool \<Rightarrow> u64 \<Rightarrow> u64 \<Rightarrow> int" where
  "asb_least_chg dc ch_self ch_peer =
    (if ch_self < ch_peer then -1 else if ch_self > ch_peer then 1 else tie_break dc)"

definition asb_zero_chg :: "drbd_after_sb_p \<Rightarrow> bool \<Rightarrow> u64 \<Rightarrow> u64 \<Rightarrow> int" where
  "asb_zero_chg policy dc ch_self ch_peer =
    (if ch_peer = 0 \<and> ch_self = 0 then tie_break dc
     else if ch_peer = 0 then 1
     else if ch_self = 0 then -1
     else if policy = ASB_DISCARD_ZERO_CHG then -100
     else asb_least_chg dc ch_self ch_peer)"

definition asb_older_pri :: "drbd_after_sb_p \<Rightarrow> bool \<Rightarrow> bool \<Rightarrow> bool \<Rightarrow> u64 \<Rightarrow> u64 \<Rightarrow> int" where
  "asb_older_pri policy dc self other ch_self ch_peer =
    (if \<not> self \<and> other then 1 else if self \<and> \<not> other then -1
     else asb_zero_chg policy dc ch_self ch_peer)"

definition asb_decide :: "drbd_after_sb_p \<Rightarrow> bool \<Rightarrow> bool \<Rightarrow> bool \<Rightarrow> u64 \<Rightarrow> u64 \<Rightarrow> int" where
  "asb_decide policy dc self other ch_self ch_peer =
    (case policy of
       ASB_DISCARD_YOUNGER_PRI \<Rightarrow>
         if \<not> self \<and> other then -1 else if self \<and> \<not> other then 1
         else asb_older_pri policy dc self other ch_self ch_peer
     | ASB_DISCARD_OLDER_PRI \<Rightarrow> asb_older_pri policy dc self other ch_self ch_peer
     | ASB_DISCARD_ZERO_CHG \<Rightarrow> asb_zero_chg policy dc ch_self ch_peer
     | ASB_DISCARD_LEAST_CHG \<Rightarrow> asb_least_chg dc ch_self ch_peer
     | ASB_DISCARD_LOCAL \<Rightarrow> -1
     | ASB_DISCARD_REMOTE \<Rightarrow> 1
     | _ \<Rightarrow> -100)"

definition drbd_asb_recover_0p :: "drbd_connection \<Rightarrow> nat \<Rightarrow> int" where
  "drbd_asb_recover_0p c i =
    (let d = peer_devices c ! i in
     asb_decide (after_sb_0p (the (the_net_conf c))) (RESOLVE_CONFLICTS c)
       (md_uuid_of d UI_BITMAP AND 1 \<noteq> 0) (p_uuid_of d UI_BITMAP AND 1 \<noteq> 0)
       (comm_bm_set d) (p_uuid_of d UI_SIZE))"

text \<open>Giving up the primary role, for the \<open>call-pri-lost-after-sb\<close> policies.\<close>

definition asb_demote :: "u64 \<Rightarrow> bool \<Rightarrow> drbd_connection \<Rightarrow> nat \<Rightarrow> int \<Rightarrow> (int \<times> drbd_connection) option" where
  "asb_demote jif mem c i hg = do {
     (rv2, c) \<leftarrow> drbd_change_state jif mem c i CS_VERBOSE (NS_none\<lparr>c_role := Some R_SECONDARY\<rparr>);
     Some (if rv2 \<noteq> SS_SUCCESS then (-100, push_work (Khelper i ''pri-lost-after-sb'') c) else (hg, c))
   }"

definition drbd_asb_recover_1p :: "u64 \<Rightarrow> bool \<Rightarrow> drbd_connection \<Rightarrow> nat \<Rightarrow> (int \<times> drbd_connection) option" where
  "drbd_asb_recover_1p jif mem c i =
    (let r = role (state (peer_devices c ! i)); hg = drbd_asb_recover_0p c i in
     case after_sb_1p (the (the_net_conf c)) of
       ASB_CONSENSUS \<Rightarrow>
         Some (if (hg = -1 \<and> r = R_SECONDARY) \<or> (hg = 1 \<and> r = R_PRIMARY) then hg else -100, c)
     | ASB_VIOLENTLY \<Rightarrow> Some (hg, c)
     | ASB_DISCARD_SECONDARY \<Rightarrow> Some (if r = R_PRIMARY then 1 else -1, c)
     | ASB_CALL_HELPER \<Rightarrow> if hg = -1 \<and> r = R_PRIMARY then asb_demote jif mem c i hg else Some (hg, c)
     | _ \<Rightarrow> Some (-100, c))"

definition drbd_asb_recover_2p :: "u64 \<Rightarrow> bool \<Rightarrow> drbd_connection \<Rightarrow> nat \<Rightarrow> (int \<times> drbd_connection) option" where
  "drbd_asb_recover_2p jif mem c i =
    (let hg = drbd_asb_recover_0p c i in
     case after_sb_2p (the (the_net_conf c)) of
       ASB_VIOLENTLY \<Rightarrow> Some (hg, c)
     | ASB_CALL_HELPER \<Rightarrow> if hg = -1 then asb_demote jif mem c i hg else Some (hg, c)
     | _ \<Rightarrow> Some (-100, c))"

definition convert_after_sb :: "drbd_after_sb_p \<Rightarrow> drbd_after_sb_p" where
  "convert_after_sb p =
    (if p = ASB_DISCARD_REMOTE then ASB_DISCARD_LOCAL
     else if p = ASB_DISCARD_LOCAL then ASB_DISCARD_REMOTE else p)"

section \<open>The handshake\<close>

text \<open>\<open>io_err\<close>: writing the bitmap fails.\<close>

definition drbd_bmio_set_n_write :: "bool \<Rightarrow> drbd_device \<Rightarrow> bool \<times> drbd_device" where
  "drbd_bmio_set_n_write io_err d =
    (if get_ldev_if_state d D_ATTACHING then
       let d = drbd_md_sync (drbd_md_set_flag MDF_FULL_SYNC d);
           d = d\<lparr>bm_total_weight := bm_bits d\<rparr>
       in (io_err, if io_err then d else drbd_md_sync (drbd_md_clear_flag MDF_FULL_SYNC d))
     else (True, d))"

definition hs_disk_states :: "drbd_disk_state \<Rightarrow> drbd_disk_state \<Rightarrow> int \<Rightarrow> int" where
  "hs_disk_states mydisk peer_disk hg =
    (if (mydisk = D_INCONSISTENT \<and> peer_disk > D_INCONSISTENT) \<or>
        (peer_disk = D_INCONSISTENT \<and> mydisk > D_INCONSISTENT)
     then let f = (hg = -100 \<or> abs hg = 2); hg = (if mydisk > D_INCONSISTENT then 1 else -1)
          in if f then hg * 2 else hg
     else hg)"

definition hs_auto :: "u64 \<Rightarrow> bool \<Rightarrow> drbd_connection \<Rightarrow> nat \<Rightarrow> drbd_role \<Rightarrow> int \<Rightarrow> (int \<times> drbd_connection) option" where
  "hs_auto jif mem c i peer_role hg =
    (if hg = 100 \<or> (hg = -100 \<and> always_asbp (the (the_net_conf c))) then do {
       let self_pri = (role (state (peer_devices c ! i)) = R_PRIMARY);
       let peer_pri = (peer_role = R_PRIMARY);
       let forced = (hg = -100);
       (hg, c) \<leftarrow> (if self_pri \<and> peer_pri then drbd_asb_recover_2p jif mem c i
                   else if self_pri \<or> peer_pri then drbd_asb_recover_1p jif mem c i
                   else Some (drbd_asb_recover_0p c i, c));
       Some (if abs hg < 100 \<and> forced then hg * 2 else hg, c)
     } else Some (hg, c))"

definition hs_manual :: "drbd_device \<Rightarrow> int \<Rightarrow> int" where
  "hs_manual d hg =
    (if hg = -100 then
       (let peer_discards = (p_uuid_of d UI_FLAGS AND 1 \<noteq> 0) in
        if DISCARD_MY_DATA d \<and> \<not> peer_discards then -1
        else if \<not> DISCARD_MY_DATA d \<and> peer_discards then 1 else hg)
     else hg)"

text \<open>The last part, from the verdict to the new connection state; \<open>C_MASK\<close> is failure.\<close>

definition hs_finish :: "bool \<Rightarrow> drbd_connection \<Rightarrow> nat \<Rightarrow> drbd_disk_state \<Rightarrow> int \<Rightarrow> drbd_conns \<times> drbd_connection" where
  "hs_finish io_err c i mydisk hg =
    (let d = peer_devices c ! i; nc = the (the_net_conf c);
         lost = (hg < 0 \<and> role (state d) = R_PRIMARY \<and> disk (state d) \<ge> D_CONSISTENT) in
     if hg = -100 then (C_MASK, push_work (Khelper i ''split-brain'') c)
     else if hg > 0 \<and> mydisk \<le> D_INCONSISTENT then (C_MASK, c)
     else if lost \<and> rr_conflict nc = ASB_CALL_HELPER then (C_MASK, push_work (Khelper i ''pri-lost'') c)
     else if lost \<and> rr_conflict nc = ASB_DISCONNECT then (C_MASK, c)
     else if tentative nc \<or> CONN_DRY_RUN c then (C_MASK, c)
     else
       let (err, d) = (if abs hg \<ge> 2 then drbd_bmio_set_n_write io_err d else (False, d));
           c = upd_device i (\<lambda>_. d) c
       in if err then (C_MASK, c)
          else (if hg > 0 then C_WF_BITMAP_S else if hg < 0 then C_WF_BITMAP_T else C_CONNECTED, c))"

definition my_disk :: "drbd_device \<Rightarrow> drbd_disk_state" where
  "my_disk d = (if disk (state d) = D_NEGOTIATING then disk (new_state_tmp d) else disk (state d))"

definition drbd_sync_handshake :: "u64 \<Rightarrow> bool \<Rightarrow> bool \<Rightarrow> drbd_connection \<Rightarrow> nat \<Rightarrow> drbd_role \<Rightarrow> drbd_disk_state
    \<Rightarrow> (drbd_conns \<times> drbd_connection) option" where
  "drbd_sync_handshake jif mem io_err c i peer_role peer_disk =
    (let d = peer_devices c ! i;
         mydisk = my_disk d;
         c = (if md_flags (ldev d) AND MDF_SNAPSHOT_SYNC_S \<noteq> 0 \<and> \<not> has_sdev d
              then push_work (Snapshot_Sync_Setup i) c else c);
         (hg, rule_nr, d) = drbd_uuid_compare (agreed_pro_version c) (RESOLVE_CONFLICTS c) d;
         c = upd_device i (\<lambda>_. d) c
     in if hg \<le> -1000 then Some (C_MASK, c)
        else do {
          let hg = hs_disk_states mydisk peer_disk hg;
          let c = (if abs hg = 100 then push_work (Khelper i ''initial-split-brain'') c else c);
          (hg, c) \<leftarrow> hs_auto jif mem c i peer_role hg;
          Some (hs_finish io_err c i mydisk (hs_manual (peer_devices c ! i) hg))
        })"

section \<open>Requests and reports of the peer\<close>

text \<open>The peer's view of a change, seen from here. Connection states without an entry become 0.\<close>

definition convert_conn :: "drbd_conns \<Rightarrow> drbd_conns" where
  "convert_conn x =
    (case x of C_WF_REPORT_PARAMS \<Rightarrow> C_WF_REPORT_PARAMS | C_CONNECTED \<Rightarrow> C_CONNECTED
     | C_STARTING_SYNC_S \<Rightarrow> C_STARTING_SYNC_T | C_STARTING_SYNC_T \<Rightarrow> C_STARTING_SYNC_S
     | C_DISCONNECTING \<Rightarrow> C_TEAR_DOWN | C_VERIFY_S \<Rightarrow> C_VERIFY_T | C_MASK \<Rightarrow> C_MASK | _ \<Rightarrow> C_STANDALONE)"

definition or_opt :: "bool option \<Rightarrow> bool option \<Rightarrow> bool option" where
  "or_opt a b = (if a = None \<and> b = None then None else Some (a = Some True \<or> b = Some True))"

definition convert_chg :: "st_chg \<Rightarrow> st_chg" where
  "convert_chg ps = ps\<lparr>c_conn := map_option convert_conn (c_conn ps), c_peer := c_role ps, c_role := c_peer ps,
     c_pdsk := c_disk ps, c_disk := c_pdsk ps, c_peer_isp := or_opt (c_aftr_isp ps) (c_user_isp ps)\<rparr>"

text \<open>\<open>busy\<close>: a change of our own is under way (the state mutex is taken).\<close>

definition receive_req_state :: "u64 \<Rightarrow> bool \<Rightarrow> bool \<Rightarrow> drbd_connection \<Rightarrow> nat \<Rightarrow> st_chg \<Rightarrow> drbd_connection option" where
  "receive_req_state jif mem busy c i chg =
    (if RESOLVE_CONFLICTS c \<and> busy then Some (push_work (Send_Sr_Reply i SS_CONCURRENT_ST_CHG) c)
     else do {
       (rv, c) \<leftarrow> drbd_change_state jif mem c i CS_VERBOSE (convert_chg chg);
       Some (upd_device i drbd_md_sync (push_work (Send_Sr_Reply i rv) c))
     })"

definition receive_req_conn_state :: "u64 \<Rightarrow> (nat \<Rightarrow> bool) \<Rightarrow> bool \<Rightarrow> bool \<Rightarrow> drbd_connection \<Rightarrow> st_chg \<Rightarrow> drbd_connection outcome" where
  "receive_req_conn_state jif mem cmem busy c chg =
    (if RESOLVE_CONFLICTS c \<and> busy then Returned (push_work (Conn_Send_Sr_Reply SS_CONCURRENT_ST_CHG) c)
     else case conn_request_state jif mem cmem False [] c (convert_chg chg)
                 (CS_VERBOSE OR CS_LOCAL_ONLY OR CS_IGN_OUTD_FAIL) of
            Oops \<Rightarrow> Oops
          | Blocked \<Rightarrow> Blocked
          | Returned (rv, c) \<Rightarrow> Returned (push_work (Conn_Send_Sr_Reply rv) c))"

text \<open>
  The arrival of the peer's UUIDs \<open>u\<close>. \<open>None\<close> is an oops, \<open>Some (False, c)\<close> a dropped connection.
  \<open>alloc\<close> tells whether the buffer could be allocated.
\<close>

definition drbd_bmio_clear_n_write :: "drbd_device \<Rightarrow> drbd_device" where
  "drbd_bmio_clear_n_write d =
    (let d = drbd_resume_al d in
     if get_ldev_if_state d D_ATTACHING then d\<lparr>bm_total_weight := 0\<rparr> else d)"

definition skip_initial_sync :: "drbd_connection \<Rightarrow> drbd_device \<Rightarrow> bool" where
  "skip_initial_sync c d \<longleftrightarrow> conn (state d) = C_CONNECTED \<and> agreed_pro_version c \<ge> 90
     \<and> md_uuid_of d UI_CURRENT = UUID_JUST_CREATED \<and> p_uuid_of d UI_FLAGS AND 8 \<noteq> 0"

definition accept_skip_initial_sync :: "u64 \<Rightarrow> bool \<Rightarrow> drbd_connection \<Rightarrow> nat \<Rightarrow> drbd_connection option" where
  "accept_skip_initial_sync jif mem c i = do {
     let c = upd_device i (\<lambda>d. drbd_uuid_set_nolock UI_BITMAP 0
               (drbd_uuid_set_nolock UI_CURRENT (p_uuid_of d UI_CURRENT) (drbd_bmio_clear_n_write d))) c;
     (rv, c) \<leftarrow> drbd_set_state jif mem c i
        ((drbd_read_state c i)\<lparr>disk := D_UP_TO_DATE, pdsk := D_UP_TO_DATE\<rparr>) CS_VERBOSE False;
     Some (upd_device i drbd_md_sync c)
   }"

definition receive_uuids :: "u64 \<Rightarrow> (nat \<Rightarrow> bool) \<Rightarrow> bool \<Rightarrow> bool \<Rightarrow> drbd_connection \<Rightarrow> nat \<Rightarrow> u64 list
    \<Rightarrow> (bool \<times> drbd_connection) outcome" where
  "receive_uuids jif mem cmem alloc c i u =
    (if \<not> alloc then Returned (True, c)
     else
       let c = upd_device i (\<lambda>d. d\<lparr>p_uuid := u\<rparr>) c; d = peer_devices c ! i; s = state d in
       if conn s < C_CONNECTED \<and> disk s < D_INCONSISTENT \<and> role s = R_PRIMARY
          \<and> m1 (ed_uuid d) \<noteq> m1 (u ! UI_CURRENT)
       then (case conn_request_state jif mem cmem False [] c (NS_none\<lparr>c_conn := Some C_DISCONNECTING\<rparr>) CS_HARD of
               Oops \<Rightarrow> Oops | Blocked \<Rightarrow> Blocked | Returned (rv, c) \<Rightarrow> Returned (False, c))
       else
         case (if get_ldev d
               then if skip_initial_sync c d then accept_skip_initial_sync jif (mem i) c i else Some c
               else if disk s < D_INCONSISTENT \<and> role s = R_PRIMARY
               then Some (upd_device i (\<lambda>d. d\<lparr>ed_uuid := u ! UI_CURRENT\<rparr>) c)
               else Some c) of
           None \<Rightarrow> Oops
         | Some c \<Rightarrow>
             let s = state (peer_devices c ! i) in
             Returned (True, if conn s \<ge> C_CONNECTED \<and> disk s < D_INCONSISTENT
                             then upd_device i (\<lambda>d. d\<lparr>ed_uuid := u ! UI_CURRENT\<rparr>) c else c))"

end
