(* ===== verification/Uuid_Facts.thy ===== *)
theory Uuid_Facts
  imports Uuid
begin

text \<open>
  What the two ends of a connection make of each other's data generation identifiers: their verdicts
  are opposite, their handshakes agree, and a node that wrote alone is the source of the next resync.
\<close>

section \<open>The two ends of a connection\<close>

text \<open>
  What the exchange of UUIDs and of the protocol settings establishes: each side holds the other's
  slots, its number of bits out of sync and its flags.
\<close>

definition uuids_of_peer :: "drbd_device \<Rightarrow> drbd_device \<Rightarrow> bool" where
  "uuids_of_peer a b \<longleftrightarrow>
     list_all (\<lambda>i. p_uuid_of a i = md_uuid_of b i) [UI_CURRENT..<UI_SIZE]
   \<and> p_uuid_of a UI_SIZE = comm_bm_set b
   \<and> (p_uuid_of a UI_FLAGS AND 2 \<noteq> 0) = CRASHED_PRIMARY b
   \<and> (p_uuid_of a UI_FLAGS AND 1 \<noteq> 0) = DISCARD_MY_DATA b"

text \<open>The current UUID of \<open>a\<close> is among the older ones of \<open>b\<close>.\<close>

definition ancestor :: "drbd_device \<Rightarrow> drbd_device \<Rightarrow> bool" where
  "ancestor a b \<longleftrightarrow> list_ex (\<lambda>i. m1 (md_uuid_of b i) = m1 (md_uuid_of a UI_CURRENT)) [UI_BITMAP..<UI_SIZE]"

definition no_mutual_ancestors :: "drbd_device \<Rightarrow> drbd_device \<Rightarrow> bool" where
  "no_mutual_ancestors a b \<longleftrightarrow> \<not> (ancestor a b \<and> ancestor b a)
     \<and> \<not> (m1 (md_uuid_of a UI_CURRENT) = 0 \<and> m1 (md_uuid_of b UI_CURRENT) = 0)"

text \<open>The verdict the other side has to reach.\<close>

definition opposite :: "int \<Rightarrow> int" where
  "opposite hg = (if abs hg \<le> 2 then - hg else hg)"

lemmas uuid_index_defs = UI_CURRENT_def UI_BITMAP_def UI_HISTORY_START_def UI_HISTORY_END_def UI_SIZE_def UI_FLAGS_def

lemma uuids_of_peerD:
  assumes "uuids_of_peer a b"
  shows "p_uuid_of a UI_CURRENT = md_uuid_of b UI_CURRENT" "p_uuid_of a UI_BITMAP = md_uuid_of b UI_BITMAP"
    "p_uuid_of a UI_HISTORY_START = md_uuid_of b UI_HISTORY_START"
    "p_uuid_of a (Suc UI_HISTORY_START) = md_uuid_of b (Suc UI_HISTORY_START)"
    "p_uuid_of a UI_SIZE = comm_bm_set b"
    "(p_uuid_of a UI_FLAGS AND 2 = 0) = (\<not> CRASHED_PRIMARY b)"
    "(p_uuid_of a UI_FLAGS AND 1 = 0) = (\<not> DISCARD_MY_DATA b)"
  using assms by (simp_all add: uuids_of_peer_def uuid_index_defs upt_rec numeral_2_eq_2 numeral_3_eq_3) blast+

lemma in_history_iff:
  "in_history x us \<longleftrightarrow> m1 (us ! UI_HISTORY_START) = x \<or> m1 (us ! Suc UI_HISTORY_START) = x"
  by (simp add: in_history_def uuid_index_defs upt_rec numeral_2_eq_2 numeral_3_eq_3)

lemma ancestor_iff:
  "ancestor a b \<longleftrightarrow> m1 (md_uuid_of b UI_BITMAP) = m1 (md_uuid_of a UI_CURRENT)
     \<or> m1 (md_uuid_of b UI_HISTORY_START) = m1 (md_uuid_of a UI_CURRENT)
     \<or> m1 (md_uuid_of b (Suc UI_HISTORY_START)) = m1 (md_uuid_of a UI_CURRENT)"
  by (simp add: ancestor_def uuid_index_defs upt_rec numeral_2_eq_2 numeral_3_eq_3)

definition equal_rules :: "bool \<Rightarrow> bool \<Rightarrow> bool \<Rightarrow> bool \<Rightarrow> bool \<Rightarrow> bool \<Rightarrow> int" where
  "equal_rules old self_bm peer_bm self_pri peer_pri dc =
    (if \<not> peer_bm \<and> self_bm then if old then -1091 else 1
     else if \<not> self_bm \<and> peer_bm then if old then -1091 else -1
     else if \<not> self_pri \<and> \<not> peer_pri then 0 else if self_pri \<and> \<not> peer_pri then 1
     else if \<not> self_pri \<and> peer_pri then -1 else if dc then -1 else 1)"

lemma equal_rules_opposite:
  "equal_rules old peer_bm self_bm peer_pri self_pri (\<not> dc)
     = opposite (equal_rules old self_bm peer_bm self_pri peer_pri dc)"
  by (auto simp: equal_rules_def opposite_def)

lemma fst_compare_equal:
  "fst (compare_equal apv dc d) = equal_rules (apv < 91) (md_uuid_of d UI_BITMAP \<noteq> 0) (p_uuid_of d UI_BITMAP \<noteq> 0)
     (CRASHED_PRIMARY d) (p_uuid_of d UI_FLAGS AND 2 \<noteq> 0) dc"
  by (simp only: compare_equal_def was_sync_source_def was_sync_target_def equal_rules_def Let_def
      if_distrib [of fst] fst_conv not_not if_cancel)

lemma compare_equal_opposite:
  assumes "uuids_of_peer a b" "uuids_of_peer b a"
  shows "fst (compare_equal apv (\<not> dc) b) = opposite (fst (compare_equal apv dc a))"
  by (simp only: fst_compare_equal uuids_of_peerD [OF assms(1)] uuids_of_peerD [OF assms(2)] not_not
      equal_rules_opposite)

text \<open>The rules 50 to 100 over the slots alone.\<close>

definition history_rules :: "bool \<Rightarrow> bool \<Rightarrow> bool \<Rightarrow> bool \<Rightarrow> bool \<Rightarrow> bool \<Rightarrow> bool \<Rightarrow> bool \<Rightarrow> bool \<Rightarrow> int" where
  "history_rules old p50 p51 p60 q70 q71 q80 r90 r100 =
    (if p50 then -1 else if p51 then (if old then -1091 else -1) else if p60 then -2
     else if q70 then 1 else if q71 then (if old then -1091 else 1) else if q80 then 2
     else if r90 then 100 else if r100 then -100 else -1000)"

lemma history_rules_opposite:
  assumes "\<not> ((p50 \<or> p51 \<or> p60) \<and> (q70 \<or> q71 \<or> q80))"
  shows "history_rules old q70 q71 q80 p50 p51 p60 r90 r100
       = opposite (history_rules old p50 p51 p60 q70 q71 q80 r90 r100)"
  using assms by (auto simp: history_rules_def opposite_def)

lemma fst_compare_history:
  "fst (compare_history apv self other d) = history_rules (apv < 91)
     (self = m1 (p_uuid_of d UI_BITMAP))
     (self = m1 (p_uuid_of d UI_HISTORY_START) \<and> lost_sync_uuid_peer apv d)
     (in_history self (p_uuid d))
     (m1 (md_uuid_of d UI_BITMAP) = other)
     (m1 (md_uuid_of d UI_HISTORY_START) = other \<and> lost_sync_uuid_self apv d)
     (in_history other (md_uuid (ldev d)))
     (m1 (md_uuid_of d UI_BITMAP) = m1 (p_uuid_of d UI_BITMAP) \<and> m1 (md_uuid_of d UI_BITMAP) \<noteq> 0)
     (list_ex (\<lambda>i. in_history (m1 (md_uuid_of d i)) (p_uuid d)) [UI_HISTORY_START..<UI_HISTORY_END + 1])"
  by (simp only: compare_history_def history_rules_def Let_def if_distrib [of fst] fst_conv)

lemma compare_history_opposite:
  assumes m: "uuids_of_peer a b" "uuids_of_peer b a"
    and na: "\<not> (ancestor a b \<and> ancestor b a)"
  shows "fst (compare_history apv (m1 (md_uuid_of b UI_CURRENT)) (m1 (md_uuid_of a UI_CURRENT)) b)
       = opposite (fst (compare_history apv (m1 (md_uuid_of a UI_CURRENT)) (m1 (md_uuid_of b UI_CURRENT)) a))"
proof -
  note e = uuids_of_peerD [OF m(1)] uuids_of_peerD [OF m(2)]
  have h: "in_history x (p_uuid a) = in_history x (md_uuid (ldev b))"
    "in_history x (p_uuid b) = in_history x (md_uuid (ldev a))" for x
    by (simp_all add: in_history_iff e)
  have l: "lost_sync_uuid_peer apv a = lost_sync_uuid_self apv b" "lost_sync_uuid_peer apv b = lost_sync_uuid_self apv a"
    by (auto simp: lost_sync_uuid_peer_def lost_sync_uuid_self_def e)
  have r: "list_ex (\<lambda>i. in_history (m1 (md_uuid_of b i)) (md_uuid (ldev a))) [UI_HISTORY_START..<UI_HISTORY_END + 1]
    = list_ex (\<lambda>i. in_history (m1 (md_uuid_of a i)) (md_uuid (ldev b))) [UI_HISTORY_START..<UI_HISTORY_END + 1]"
    by (auto simp: in_history_iff uuid_index_defs upt_rec numeral_2_eq_2 numeral_3_eq_3)
  let ?A = "m1 (md_uuid_of a UI_CURRENT)" and ?B = "m1 (md_uuid_of b UI_CURRENT)"
  have n: "\<not> ((?A = m1 (md_uuid_of b UI_BITMAP) \<or> ?A = m1 (md_uuid_of b UI_HISTORY_START) \<and> lost_sync_uuid_self apv b
        \<or> in_history ?A (md_uuid (ldev b)))
      \<and> (m1 (md_uuid_of a UI_BITMAP) = ?B \<or> m1 (md_uuid_of a UI_HISTORY_START) = ?B \<and> lost_sync_uuid_self apv a
        \<or> in_history ?B (md_uuid (ldev a))))"
    using na unfolding ancestor_iff in_history_iff by metis
  have q: "(m1 (md_uuid_of b UI_BITMAP) = m1 (md_uuid_of a UI_BITMAP) \<and> m1 (md_uuid_of b UI_BITMAP) \<noteq> 0)
      = (m1 (md_uuid_of a UI_BITMAP) = m1 (md_uuid_of b UI_BITMAP) \<and> m1 (md_uuid_of a UI_BITMAP) \<noteq> 0)"
    by auto
  show ?thesis unfolding fst_compare_history h l r e q history_rules_opposite [OF n, symmetric]
    by (simp only: eq_commute [of ?A] eq_commute [of ?B])
qed

lemma compare_opposite:
  assumes "uuids_of_peer a b" "uuids_of_peer b a" "no_mutual_ancestors a b"
  shows "fst (drbd_uuid_compare apv (\<not> dc) b) = opposite (fst (drbd_uuid_compare apv dc a))"
proof -
  have h: "\<not> (ancestor a b \<and> ancestor b a)"
    "\<not> (m1 (md_uuid_of a UI_CURRENT) = 0 \<and> m1 (md_uuid_of b UI_CURRENT) = 0)"
    using assms(3) by (auto simp: no_mutual_ancestors_def)
  note e = uuids_of_peerD(1) [OF assms(1)] uuids_of_peerD(1) [OF assms(2)]
  show ?thesis
    using compare_equal_opposite [OF assms(1,2)] compare_history_opposite [OF assms(1,2) h(1)] h(2)
    by (auto simp: drbd_uuid_compare_def Let_def e opposite_def)
qed

text \<open>
  C30: The two ends of a connection never disagree about the direction of the resync: when each holds the
  UUIDs of the other, exactly one has the \<open>RESOLVE_CONFLICTS\<close> flag, and they are not each other's ancestors, then the verdict
  of \<open>drbd_uuid_compare\<close> on one side is the opposite of the verdict on the other (a full sync opposite to a
  full sync), and the verdicts split brain, unrelated and protocol too old are common.
\<close>

theorem uuid_compare_antisymmetric:
  assumes "uuids_of_peer a b" "uuids_of_peer b a" "no_mutual_ancestors a b"
  shows "fst (drbd_uuid_compare apv (\<not> dc) b) = opposite (fst (drbd_uuid_compare apv dc a))"
  by (rule compare_opposite [OF assms])

section \<open>The handshake on both ends\<close>

lemma conn_frame [simp]:
  "peer_devices (push_work w c) = peer_devices c" "the_net_conf (push_work w c) = the_net_conf c"
  "RESOLVE_CONFLICTS (push_work w c) = RESOLVE_CONFLICTS c"
  "agreed_pro_version (push_work w c) = agreed_pro_version c" "CONN_DRY_RUN (push_work w c) = CONN_DRY_RUN c"
  "the_net_conf (upd_device i f c) = the_net_conf c" "RESOLVE_CONFLICTS (upd_device i f c) = RESOLVE_CONFLICTS c"
  "CONN_DRY_RUN (upd_device i f c) = CONN_DRY_RUN c"
  "length (peer_devices (upd_device i f c)) = length (peer_devices c)"
  by (simp_all add: push_work_def upd_device_def)

lemma asb_decide_opposite:
  "asb_decide (convert_after_sb p) (\<not> dc) other self ch_peer ch_self
     = opposite (asb_decide p dc self other ch_self ch_peer)"
  by (cases p) (auto simp: asb_decide_def convert_after_sb_def asb_older_pri_def asb_zero_chg_def
      asb_least_chg_def tie_break_def opposite_def)

lemma asb_decide_range: "asb_decide p dc self other ch_self ch_peer \<in> {-1, 1, -100}"
  by (cases p) (auto simp: asb_decide_def asb_older_pri_def asb_zero_chg_def asb_least_chg_def tie_break_def)

text \<open>Policies that run no helper program decide without changing any state.\<close>

definition no_helper :: "net_conf \<Rightarrow> bool" where
  "no_helper nc \<longleftrightarrow> after_sb_1p nc \<noteq> ASB_CALL_HELPER \<and> after_sb_2p nc \<noteq> ASB_CALL_HELPER"

definition asb_1p :: "drbd_after_sb_p \<Rightarrow> bool \<Rightarrow> int \<Rightarrow> int" where
  "asb_1p p pri hg =
    (case p of ASB_CONSENSUS \<Rightarrow> if hg = (if pri then 1 else -1) then hg else -100
     | ASB_VIOLENTLY \<Rightarrow> hg | ASB_DISCARD_SECONDARY \<Rightarrow> if pri then 1 else -1 | _ \<Rightarrow> -100)"

definition asb_chosen :: "net_conf \<Rightarrow> bool \<Rightarrow> bool \<Rightarrow> int \<Rightarrow> int" where
  "asb_chosen nc self_pri peer_pri v =
    (if self_pri \<and> peer_pri then if after_sb_2p nc = ASB_VIOLENTLY then v else -100
     else if self_pri \<or> peer_pri then asb_1p (after_sb_1p nc) self_pri v else v)"

definition asb_verdict :: "net_conf \<Rightarrow> bool \<Rightarrow> bool \<Rightarrow> int \<Rightarrow> int \<Rightarrow> int" where
  "asb_verdict nc self_pri peer_pri v hg =
    (if hg = 100 \<or> hg = -100 \<and> always_asbp nc
     then let v = asb_chosen nc self_pri peer_pri v in if abs v < 100 \<and> hg = -100 then v * 2 else v
     else hg)"

lemma hs_auto_verdict:
  assumes "no_helper (the (the_net_conf c))" "role (state (peer_devices c ! i)) \<in> {R_PRIMARY, R_SECONDARY}"
  shows "hs_auto jif mem c i peer_role hg
       = Some (asb_verdict (the (the_net_conf c)) (role (state (peer_devices c ! i)) = R_PRIMARY) (peer_role = R_PRIMARY)
                 (drbd_asb_recover_0p c i) hg, c)"
proof -
  have a: "asb_1p p (r = R_PRIMARY) v = (case p of
         ASB_CONSENSUS \<Rightarrow> if (v = -1 \<and> r = R_SECONDARY) \<or> (v = 1 \<and> r = R_PRIMARY) then v else -100
       | ASB_VIOLENTLY \<Rightarrow> v | ASB_DISCARD_SECONDARY \<Rightarrow> if r = R_PRIMARY then 1 else -1 | _ \<Rightarrow> -100)"
    if "r \<in> {R_PRIMARY, R_SECONDARY}" for p r v
    using that by (cases p) (auto simp: asb_1p_def)
  have 1: "drbd_asb_recover_1p jif mem c i = Some (asb_1p (after_sb_1p (the (the_net_conf c)))
        (role (state (peer_devices c ! i)) = R_PRIMARY) (drbd_asb_recover_0p c i), c)"
    using assms(1) unfolding drbd_asb_recover_1p_def a [OF assms(2)] no_helper_def Let_def
    by (cases "after_sb_1p (the (the_net_conf c))") simp_all
  have 2: "drbd_asb_recover_2p jif mem c i
      = Some (if after_sb_2p (the (the_net_conf c)) = ASB_VIOLENTLY then drbd_asb_recover_0p c i else -100, c)"
    using assms by (cases "after_sb_2p (the (the_net_conf c))")
      (auto simp: drbd_asb_recover_2p_def no_helper_def Let_def)
  show ?thesis
    by (simp add: hs_auto_def asb_verdict_def asb_chosen_def 1 2 Let_def)
qed

lemma opposite_simps [simp]:
  "opposite hg = 100 \<longleftrightarrow> hg = 100" "opposite hg = -100 \<longleftrightarrow> hg = -100" "\<bar>opposite hg\<bar> = \<bar>hg\<bar>"
  "\<bar>hg\<bar> \<le> 1 \<Longrightarrow> opposite (hg * 2) = opposite hg * 2" "opposite (opposite hg) = hg"
  "opposite hg \<le> -1000 \<longleftrightarrow> hg \<le> -1000"
  by (auto simp: opposite_def)

lemma asb_chosen_range:
  assumes "v \<in> {-1, 1, -100}"
  shows "asb_chosen nc self_pri peer_pri v \<in> {-1, 1, -100}"
proof -
  have "asb_1p p pri v \<in> {-1, 1, -100}" for p pri
    using assms by (cases p) (auto simp: asb_1p_def)
  then show ?thesis
    unfolding asb_chosen_def using assms by (cases self_pri; cases peer_pri) simp_all
qed

lemma asb_chosen_opposite:
  assumes "v \<in> {-1, 1, -100}" "after_sb_1p nc' = convert_after_sb (after_sb_1p nc)"
    "after_sb_2p nc' = convert_after_sb (after_sb_2p nc)"
  shows "asb_chosen nc' peer_pri self_pri (opposite v) = opposite (asb_chosen nc self_pri peer_pri v)"
proof -
  have "asb_1p (convert_after_sb p) (\<not> pri) (opposite v) = opposite (asb_1p p pri v)" for p pri
    using assms(1) by (cases p; cases pri) (auto simp: asb_1p_def convert_after_sb_def opposite_def)
  from this [of _ True] this [of _ False] have "asb_1p (convert_after_sb p) False (opposite v) = opposite (asb_1p p True v)"
    "asb_1p (convert_after_sb p) True (opposite v) = opposite (asb_1p p False v)" for p by simp_all
  moreover have "convert_after_sb p = ASB_VIOLENTLY \<longleftrightarrow> p = ASB_VIOLENTLY" for p
    by (cases p) (auto simp: convert_after_sb_def)
  ultimately show ?thesis
    unfolding asb_chosen_def assms(2,3)
    by (cases self_pri; cases peer_pri; cases "after_sb_2p nc = ASB_VIOLENTLY") (simp_all add: opposite_def)
qed

lemma asb_verdict_opposite:
  assumes "v \<in> {-1, 1, -100}" "after_sb_1p nc' = convert_after_sb (after_sb_1p nc)"
    "after_sb_2p nc' = convert_after_sb (after_sb_2p nc)" "always_asbp nc' = always_asbp nc"
  shows "asb_verdict nc' peer_pri self_pri (opposite v) (opposite hg) = opposite (asb_verdict nc self_pri peer_pri v hg)"
proof -
  have "(if \<bar>opposite x\<bar> < 100 \<and> opposite hg = - 100 then opposite x * 2 else opposite x)
      = opposite (if \<bar>x\<bar> < 100 \<and> hg = - 100 then x * 2 else x)" if "x \<in> {-1, 1, -100}" for x
    using that by (auto simp: opposite_def)
  from this [OF asb_chosen_range [OF assms(1)]] show ?thesis
    unfolding asb_verdict_def asb_chosen_opposite [OF assms(1,2,3)] assms(4) Let_def by simp
qed

lemma hs_disk_states_opposite:
  "hs_disk_states peer_disk mydisk (opposite hg) = opposite (hs_disk_states mydisk peer_disk hg)"
  by (auto simp: hs_disk_states_def Let_def opposite_def)

lemma hs_manual_opposite:
  assumes "uuids_of_peer a b" "uuids_of_peer b a"
  shows "hs_manual b (opposite hg) = opposite (hs_manual a hg)"
  using uuids_of_peerD(7) [OF assms(1)] uuids_of_peerD(7) [OF assms(2)]
  by (auto simp: hs_manual_def Let_def opposite_def)

text \<open>A verdict that leaves the decision to the policies leaves the slots alone; flags are never touched.\<close>

definition keeps :: "drbd_device \<Rightarrow> verdict \<Rightarrow> bool" where
  "keeps d v \<longleftrightarrow> (\<bar>fst v\<bar> \<ge> 100 \<longrightarrow> snd (snd v) = d) \<and> state (snd (snd v)) = state d
     \<and> DISCARD_MY_DATA (snd (snd v)) = DISCARD_MY_DATA d \<and> p_uuid (snd (snd v)) ! UI_FLAGS = p_uuid_of d UI_FLAGS
     \<and> new_state_tmp (snd (snd v)) = new_state_tmp d"

lemma keeps_same [simp]: "keeps d (h, r, d)"
  by (simp add: keeps_def)

lemma keeps_if: "keeps d x \<Longrightarrow> keeps d y \<Longrightarrow> keeps d (if b then x else y)"
  by simp

lemma keeps_self:
  "\<bar>h\<bar> < 100 \<Longrightarrow> keeps d (h, r, set_md_uuid i u (set_md_uuid j v (drbd_uuid_move_history d)))"
  "\<bar>h\<bar> < 100 \<Longrightarrow> keeps d (h, r, drbd_uuid_set_nolock UI_HISTORY_START u (drbd_uuid_set_nolock UI_BITMAP v d))"
  by (simp_all add: keeps_def set_md_uuid_def drbd_uuid_move_history_def drbd_uuid_set_nolock_def uuid_index_defs
      upt_rec drbd_md_mark_dirty_def)

lemma keeps_peer:
  "\<lbrakk>\<bar>h\<bar> < 100; i < UI_FLAGS; j < UI_FLAGS; k < UI_FLAGS\<rbrakk>
    \<Longrightarrow> keeps d (h, r, set_p_uuid i u (set_p_uuid j v (set_p_uuid k w d)))"
  "\<lbrakk>\<bar>h\<bar> < 100; i < UI_FLAGS; j < UI_FLAGS\<rbrakk> \<Longrightarrow> keeps d (h, r, set_p_uuid i u (set_p_uuid j v d))"
  by (simp_all add: keeps_def set_p_uuid_def)

lemma compare_keeps: "keeps d (drbd_uuid_compare apv dc d)"
  unfolding drbd_uuid_compare_def compare_equal_def compare_history_def was_sync_source_def was_sync_target_def Let_def
  by (intro keeps_if keeps_same keeps_self keeps_peer) (simp_all add: uuid_index_defs)

section \<open>The handshake agrees\<close>

definition hs_mirror :: "drbd_connection \<Rightarrow> drbd_connection \<Rightarrow> nat \<Rightarrow> bool" where
  "hs_mirror c c' i \<longleftrightarrow>
    (let a = peer_devices c ! i; b = peer_devices c' ! i; nc = the (the_net_conf c); nc' = the (the_net_conf c') in
     i < length (peer_devices c) \<and> i < length (peer_devices c')
   \<and> agreed_pro_version c' = agreed_pro_version c \<and> RESOLVE_CONFLICTS c' = (\<not> RESOLVE_CONFLICTS c)
   \<and> after_sb_0p nc' = convert_after_sb (after_sb_0p nc) \<and> after_sb_1p nc' = convert_after_sb (after_sb_1p nc)
   \<and> after_sb_2p nc' = convert_after_sb (after_sb_2p nc) \<and> always_asbp nc' = always_asbp nc
   \<and> uuids_of_peer a b \<and> uuids_of_peer b a \<and> no_mutual_ancestors a b
   \<and> role (state a) \<in> {R_PRIMARY, R_SECONDARY} \<and> role (state b) \<in> {R_PRIMARY, R_SECONDARY})"

text \<open>The verdict of one end after the disk states, the automatic and the manual policies.\<close>

definition hs_verdict :: "drbd_connection \<Rightarrow> nat \<Rightarrow> drbd_role \<Rightarrow> drbd_disk_state \<Rightarrow> int" where
  "hs_verdict c i peer_role peer_disk =
    (let d = peer_devices c ! i in
     hs_manual d (asb_verdict (the (the_net_conf c)) (role (state d) = R_PRIMARY) (peer_role = R_PRIMARY)
       (drbd_asb_recover_0p c i)
       (hs_disk_states (my_disk d) peer_disk (fst (drbd_uuid_compare (agreed_pro_version c) (RESOLVE_CONFLICTS c) d)))))"

lemma asb_recover_0p_cong:
  assumes "the_net_conf c' = the_net_conf c" "RESOLVE_CONFLICTS c' = RESOLVE_CONFLICTS c"
    "peer_devices c' ! i = peer_devices c ! i"
  shows "drbd_asb_recover_0p c' i = drbd_asb_recover_0p c i"
  using assms by (simp add: drbd_asb_recover_0p_def)

lemma asb_verdict_skip: "\<bar>hg\<bar> \<noteq> 100 \<Longrightarrow> asb_verdict nc p q v hg = hg"
  by (auto simp: asb_verdict_def)

definition hs_result :: "drbd_disk_state \<Rightarrow> int \<Rightarrow> drbd_conns \<Rightarrow> bool" where
  "hs_result mydisk hg r \<longleftrightarrow> (r = C_WF_BITMAP_S \<longrightarrow> hg > 0 \<and> mydisk > D_INCONSISTENT)
     \<and> (r = C_WF_BITMAP_T \<longrightarrow> hg < 0) \<and> (r = C_CONNECTED \<longrightarrow> hg = 0) \<and> (r \<noteq> C_MASK \<longrightarrow> \<bar>hg\<bar> \<le> 2)
     \<and> r \<in> {C_MASK, C_WF_BITMAP_S, C_WF_BITMAP_T, C_CONNECTED}"

lemma hs_finish_result: "\<bar>hg\<bar> \<le> 2 \<or> hg = -100 \<Longrightarrow> hs_result mydisk hg (fst (hs_finish io_err c i mydisk hg))"
  by (auto simp: hs_finish_def hs_result_def Let_def split: prod.split)

lemma hs_disk_states_100: "\<bar>hs_disk_states m p hg\<bar> = 100 \<Longrightarrow> hs_disk_states m p hg = hg"
  by (auto simp: hs_disk_states_def Let_def split: if_splits)

lemma compare_range: "fst (drbd_uuid_compare apv dc d) \<in> {-2..2} \<union> {100, -100, -1000, -1091}"
proof -
  have "equal_rules a b c' d' e f \<in> {-2..2} \<union> {100, -100, -1000, -1091}" for a b c' d' e f
    by (simp add: equal_rules_def)
  moreover have "history_rules a b c' d' e f g h k \<in> {-2..2} \<union> {100, -100, -1000, -1091}" for a b c' d' e f g h k
    by (simp add: history_rules_def)
  ultimately show ?thesis
    unfolding drbd_uuid_compare_def Let_def if_distrib [of fst] fst_compare_equal fst_compare_history fst_conv by simp
qed

lemma verdict_range:
  fixes hg :: int
  assumes "hg \<in> {-2..2} \<union> {100, -100}" "v \<in> {-1, 1, -100}"
  shows "\<bar>hs_manual d (asb_verdict nc p q v (hs_disk_states m m' hg))\<bar> \<le> 2
    \<or> hs_manual d (asb_verdict nc p q v (hs_disk_states m m' hg)) = -100"
proof -
  have 1: "hs_disk_states m m' hg \<in> {-2..2} \<union> {100, -100}"
    using assms(1) by (auto simp: hs_disk_states_def Let_def)
  have 2: "\<bar>asb_verdict nc p q v h\<bar> \<le> 2 \<or> asb_verdict nc p q v h = -100" if "h \<in> {-2..2} \<union> {100, -100}" for h
    using that asb_chosen_range [OF assms(2), of nc p q] by (auto simp: asb_verdict_def Let_def)
  have 3: "\<bar>hs_manual d x\<bar> \<le> 2 \<or> hs_manual d x = -100" if "\<bar>x\<bar> \<le> 2 \<or> x = -100" for x
    using that by (auto simp: hs_manual_def Let_def)
  show ?thesis by (rule 3 [OF 2 [OF 1]])
qed

lemma sync_handshake_verdict:
  assumes i: "i < length (peer_devices c)" and nh: "no_helper (the (the_net_conf c))"
    and ro: "role (state (peer_devices c ! i)) \<in> {R_PRIMARY, R_SECONDARY}"
  shows "\<exists>r c'. drbd_sync_handshake jif mem io_err c i peer_role peer_disk = Some (r, c')
    \<and> hs_result (my_disk (peer_devices c ! i)) (hs_verdict c i peer_role peer_disk) r"
proof -
  let ?d = "peer_devices c ! i"
  obtain hg r d where v: "drbd_uuid_compare (agreed_pro_version c) (RESOLVE_CONFLICTS c) ?d = (hg, r, d)"
    by (cases "drbd_uuid_compare (agreed_pro_version c) (RESOLVE_CONFLICTS c) ?d") auto
  have k: "\<bar>hg\<bar> \<ge> 100 \<Longrightarrow> d = ?d" "state d = state ?d" "DISCARD_MY_DATA d = DISCARD_MY_DATA ?d"
    "p_uuid_of d UI_FLAGS = p_uuid_of ?d UI_FLAGS"
    using compare_keeps [of ?d "agreed_pro_version c" "RESOLVE_CONFLICTS c"] by (simp_all add: v keeps_def)
  define h2 where "h2 = hs_disk_states (my_disk ?d) peer_disk hg"
  define V where "V = asb_verdict (the (the_net_conf c)) (role (state ?d) = R_PRIMARY) (peer_role = R_PRIMARY)
    (drbd_asb_recover_0p c i) h2"
  have man: "hs_manual d x = hs_manual ?d x" for x
    by (simp only: hs_manual_def k)
  have b: "hs_verdict c i peer_role peer_disk = hs_manual ?d V"
    by (simp only: hs_verdict_def Let_def v fst_conv h2_def V_def)
  have z: "drbd_asb_recover_0p c i \<in> {-1, 1, -100}"
    by (simp only: drbd_asb_recover_0p_def Let_def asb_decide_range)
  have "\<bar>hs_manual ?d V\<bar> \<le> 2 \<or> hs_manual ?d V = -100" if "\<not> hg \<le> -1000"
    using that compare_range [of "agreed_pro_version c" "RESOLVE_CONFLICTS c" ?d]
      verdict_range [OF _ z, of hg ?d] by (simp add: v V_def h2_def)
  then have res: "hs_result (my_disk ?d) (hs_manual ?d V) (fst (hs_finish io_err c2 i (my_disk ?d) (hs_manual ?d V)))"
    if "\<not> hg \<le> -1000" for c2 using that by (intro hs_finish_result) simp
  have aut: "hs_auto jif mem c2 i peer_role h2 = Some (V, c2)"
    if c2: "the_net_conf c2 = the_net_conf c" "RESOLVE_CONFLICTS c2 = RESOLVE_CONFLICTS c" "peer_devices c2 ! i = d" for c2
  proof -
    have "asb_verdict nc p q (drbd_asb_recover_0p c2 i) h2 = asb_verdict nc p q (drbd_asb_recover_0p c i) h2" for nc p q
    proof (cases "\<bar>h2\<bar> = 100")
      case True
      then have "d = ?d" using hs_disk_states_100 k(1) by (metis h2_def order_refl)
      then show ?thesis using c2 asb_recover_0p_cong [of c2 c i] by simp
    qed (simp add: asb_verdict_skip)
    then show ?thesis
      using hs_auto_verdict [of c2 i jif mem peer_role h2] ro nh by (simp only: c2 k V_def)
  qed
  have m: "hs_result m' x C_MASK" for m' x by (simp add: hs_result_def)
  show ?thesis
  proof (cases "hg \<le> -1000")
    case True
    then show ?thesis by (simp add: drbd_sync_handshake_def Let_def v m)
  next
    case False
    define c0 where "c0 = (if md_flags (ldev ?d) AND MDF_SNAPSHOT_SYNC_S \<noteq> 0 \<and> \<not> has_sdev ?d
      then push_work (Snapshot_Sync_Setup i) c else c)"
    define c2 where "c2 = (if \<bar>h2\<bar> = 100 then push_work (Khelper i ''initial-split-brain'') (upd_device i (\<lambda>_. d) c0)
      else upd_device i (\<lambda>_. d) c0)"
    have c0: "agreed_pro_version c0 = agreed_pro_version c" "RESOLVE_CONFLICTS c0 = RESOLVE_CONFLICTS c"
      by (simp_all add: c0_def)
    have c2: "the_net_conf c2 = the_net_conf c" "RESOLVE_CONFLICTS c2 = RESOLVE_CONFLICTS c" "peer_devices c2 ! i = d"
      using i by (simp_all add: c2_def c0_def)
    have "drbd_sync_handshake jif mem io_err c i peer_role peer_disk
        = Some (hs_finish io_err c2 i (my_disk ?d) (hs_manual ?d V))"
      using False by (simp only: drbd_sync_handshake_def Let_def c0_def [symmetric] c0 v prod.case if_False
          h2_def [symmetric] c2_def [symmetric] aut [OF c2] bind.bind_lunit c2(3) man)
    with res [OF False] show ?thesis unfolding b by (metis prod.collapse)
  qed
qed

definition hs_agree :: "drbd_conns \<Rightarrow> drbd_conns \<Rightarrow> bool" where
  "hs_agree r r' \<longleftrightarrow> r = C_MASK \<or> r' = C_MASK \<or> (r = C_WF_BITMAP_S \<and> r' = C_WF_BITMAP_T)
     \<or> (r = C_WF_BITMAP_T \<and> r' = C_WF_BITMAP_S) \<or> (r = C_CONNECTED \<and> r' = C_CONNECTED)"

lemma hs_result_agree: "hs_result m hg r \<Longrightarrow> hs_result m' (opposite hg) r' \<Longrightarrow> hs_agree r r'"
  by (auto simp: hs_result_def hs_agree_def opposite_def)

lemma hs_verdict_opposite:
  assumes "hs_mirror c c' i"
  shows "hs_verdict c' i (role (state (peer_devices c ! i))) (my_disk (peer_devices c ! i))
       = opposite (hs_verdict c i (role (state (peer_devices c' ! i))) (my_disk (peer_devices c' ! i)))"
proof -
  let ?a = "peer_devices c ! i" and ?b = "peer_devices c' ! i"
  have p: "uuids_of_peer ?a ?b" "uuids_of_peer ?b ?a" "no_mutual_ancestors ?a ?b"
    "RESOLVE_CONFLICTS c' = (\<not> RESOLVE_CONFLICTS c)" "agreed_pro_version c' = agreed_pro_version c"
    using assms by (simp_all add: hs_mirror_def Let_def)
  have nc: "after_sb_0p (the (the_net_conf c')) = convert_after_sb (after_sb_0p (the (the_net_conf c)))"
    "after_sb_1p (the (the_net_conf c')) = convert_after_sb (after_sb_1p (the (the_net_conf c)))"
    "after_sb_2p (the (the_net_conf c')) = convert_after_sb (after_sb_2p (the (the_net_conf c)))"
    "always_asbp (the (the_net_conf c')) = always_asbp (the (the_net_conf c))"
    using assms by (simp_all add: hs_mirror_def Let_def)
  have z: "drbd_asb_recover_0p c i \<in> {-1, 1, -100}"
    by (simp only: drbd_asb_recover_0p_def Let_def asb_decide_range)
  have "drbd_asb_recover_0p c' i = opposite (drbd_asb_recover_0p c i)"
    by (simp only: drbd_asb_recover_0p_def Let_def nc p asb_decide_opposite uuids_of_peerD [OF p(1)] uuids_of_peerD [OF p(2)])
  then show ?thesis
    by (simp only: hs_verdict_def Let_def compare_opposite [OF p(1-3)] p(4,5) hs_disk_states_opposite
      asb_verdict_opposite [OF z nc(2-4)] hs_manual_opposite [OF p(1,2)])
qed


section \<open>A new data generation\<close>

lemma m1_simps [simp]: "m1 (m1 x) = m1 x" "m1 (x OR 1) = m1 x"
  by (simp_all add: m1_def bit_eq_iff bit_simps) blast+

lemma new_current_slots:
  assumes "length (md_uuid (ldev a)) = UI_SIZE"
  shows "md_uuid_of (drbd_uuid_new_current rnd a) UI_BITMAP = md_uuid_of a UI_CURRENT"
    "m1 (md_uuid_of (drbd_uuid_new_current rnd a) UI_CURRENT) = m1 rnd"
  using assms by (simp_all add: drbd_uuid_new_current_def drbd_md_sync_def drbd_uuid_set_nolock_def set_md_uuid_def
      drbd_md_mark_dirty_def uuid_index_defs Let_def)

definition fresh_uuid :: "u64 \<Rightarrow> drbd_device \<Rightarrow> bool" where
  "fresh_uuid rnd b \<longleftrightarrow> m1 rnd \<notin> {0, UUID_JUST_CREATED}
     \<and> list_all (\<lambda>i. m1 (md_uuid_of b i) \<noteq> m1 rnd) [UI_CURRENT..<UI_SIZE]"

lemma fresh_uuidD:
  assumes "fresh_uuid rnd b"
  shows "m1 rnd \<noteq> 0" "m1 rnd \<noteq> UUID_JUST_CREATED" "m1 rnd \<noteq> m1 (md_uuid_of b UI_CURRENT)"
    "m1 rnd \<noteq> m1 (md_uuid_of b UI_BITMAP)" "\<not> in_history (m1 rnd) (md_uuid (ldev b))"
    "m1 rnd \<noteq> m1 (md_uuid_of b UI_HISTORY_START)"
  using assms by (simp_all add: fresh_uuid_def in_history_iff uuid_index_defs upt_rec numeral_2_eq_2 numeral_3_eq_3) metis+

text \<open>
  C31: Writing while the peer is away makes this node the source of the next resync. Two nodes have the same
  current UUID; \<open>a\<close> starts a new generation with \<open>drbd_uuid_new_current\<close> and a random number the peer
  does not know. When they compare next, \<open>a\<close> is the source and \<open>b\<close> the target of a resync of the
  bitmap's blocks only, by rules 70 and 50, whatever their histories hold.
\<close>

theorem new_generation_is_source:
  assumes "length (md_uuid (ldev a)) = UI_SIZE" "m1 (md_uuid_of b UI_CURRENT) = m1 (md_uuid_of a UI_CURRENT)"
    "m1 (md_uuid_of a UI_CURRENT) \<notin> {0, UUID_JUST_CREATED}" "fresh_uuid rnd b"
    "uuids_of_peer (drbd_uuid_new_current rnd a) b" "uuids_of_peer b (drbd_uuid_new_current rnd a)"
  shows "drbd_uuid_compare apv dc (drbd_uuid_new_current rnd a) = (1, 70, drbd_uuid_new_current rnd a)
    \<and> drbd_uuid_compare apv (\<not> dc) b = (-1, 50, b)"
proof -
  define a' where "a' = drbd_uuid_new_current rnd a"
  note s = new_current_slots [OF assms(1), of rnd, folded a'_def]
  note f = fresh_uuidD [OF assms(4)]
  note p = uuids_of_peerD [OF assms(5) [folded a'_def]] uuids_of_peerD [OF assms(6) [folded a'_def]]
  have h: "in_history x (p_uuid a') = in_history x (md_uuid (ldev b))" for x by (simp add: in_history_iff p)
  have "drbd_uuid_compare apv dc a' = (1, 70, a')"
    using assms(2,3) f s by (simp add: drbd_uuid_compare_def compare_history_def Let_def p h)
  moreover have "drbd_uuid_compare apv (\<not> dc) b = (-1, 50, b)"
    using assms(2,3) f s by (simp add: drbd_uuid_compare_def compare_history_def Let_def p)
  ultimately show ?thesis unfolding a'_def by simp
qed

text \<open>
  C32: Two nodes that never met and whose bitmap and history slots are still zero are reported as split
  brain (\<open>-100\<close>, rule 100), not as unrelated data (\<open>-1000\<close>): rule 100 also matches the zero of an unused
  history slot, which rule 90 excludes for the bitmap slot.
\<close>

theorem unrelated_looks_like_split_brain:
  assumes "m1 (md_uuid_of d UI_CURRENT) \<notin> {0, UUID_JUST_CREATED}" "m1 (p_uuid_of d UI_CURRENT) \<notin> {0, UUID_JUST_CREATED}"
    "m1 (md_uuid_of d UI_CURRENT) \<noteq> m1 (p_uuid_of d UI_CURRENT)"
    "list_all (\<lambda>i. md_uuid_of d i = 0 \<and> p_uuid_of d i = 0) [UI_BITMAP..<UI_SIZE]"
  shows "drbd_uuid_compare apv dc d = (-100, 100, d)"
proof -
  have z: "md_uuid_of d UI_BITMAP = 0" "p_uuid_of d UI_BITMAP = 0" "md_uuid_of d UI_HISTORY_START = 0"
    "p_uuid_of d UI_HISTORY_START = 0" "md_uuid_of d (Suc UI_HISTORY_START) = 0" "p_uuid_of d (Suc UI_HISTORY_START) = 0"
    "UI_HISTORY_END = Suc UI_HISTORY_START" "m1 0 = 0"
    using assms(4) by (simp_all add: uuid_index_defs upt_rec numeral_2_eq_2 numeral_3_eq_3 m1_def)
  show ?thesis using assms(1-3)
    by (simp add: drbd_uuid_compare_def compare_history_def Let_def in_history_iff z)
qed

section \<open>Examples\<close>

definition ex_node :: "drbd_state \<Rightarrow> u64 list \<Rightarrow> u64 list \<Rightarrow> drbd_device" where
  "ex_node s us ps = (ex_device s)\<lparr>ldev := ex_ldev\<lparr>md_uuid := us\<rparr>, p_uuid := ps\<rparr>"

text \<open>\<open>a\<close> wrote alone, \<open>b\<close> did not.\<close>

definition ex_reporting :: drbd_state where
  "ex_reporting = ex_state R_SECONDARY R_UNKNOWN C_WF_REPORT_PARAMS D_UP_TO_DATE D_UNKNOWN"

definition ex_newer :: drbd_device where
  "ex_newer = ex_node ex_reporting [0x2000, 0x1000, 0, 0] [0x1000, 0, 0x800, 0, 0, 0]"

definition ex_older :: drbd_device where
  "ex_older = ex_node ex_reporting [0x1000, 0, 0x800, 0] [0x2000, 0x1000, 0, 0, 0, 0]"

definition ex_side :: "bool \<Rightarrow> drbd_device \<Rightarrow> drbd_connection" where
  "ex_side dc d = (ex_conn [])\<lparr>peer_devices := [d], RESOLVE_CONFLICTS := dc\<rparr>"

lemma ex_newer_older: "uuids_of_peer ex_newer ex_older" "uuids_of_peer ex_older ex_newer"
  "no_mutual_ancestors ex_newer ex_older" "fst (drbd_uuid_compare 101 False ex_newer) = 1"
  by code_simp+

theorem uuid_compare_antisymmetric_witness:
  "fst (drbd_uuid_compare 101 False ex_newer) = 1 \<and> fst (drbd_uuid_compare 101 True ex_older) = -1"
  using uuid_compare_antisymmetric [OF ex_newer_older(1-3), of 101 False] ex_newer_older(4) by (simp add: opposite_def)

lemma ex_sides: "hs_mirror (ex_side False ex_newer) (ex_side True ex_older) 0"
  "no_helper (the (the_net_conf (ex_side False ex_newer)))" "no_helper (the (the_net_conf (ex_side True ex_older)))"
  "map_option fst (drbd_sync_handshake 7 True False (ex_side False ex_newer) 0 R_SECONDARY D_UP_TO_DATE) = Some C_WF_BITMAP_S"
  "map_option fst (drbd_sync_handshake 7 True False (ex_side True ex_older) 0 R_SECONDARY D_UP_TO_DATE) = Some C_WF_BITMAP_T"
  "role (state (peer_devices (ex_side False ex_newer) ! 0)) = R_SECONDARY" "my_disk (peer_devices (ex_side False ex_newer) ! 0) = D_UP_TO_DATE"
  "role (state (peer_devices (ex_side True ex_older) ! 0)) = R_SECONDARY" "my_disk (peer_devices (ex_side True ex_older) ! 0) = D_UP_TO_DATE"
  by code_simp+


definition ex_before :: drbd_device where
  "ex_before = ex_node ex_reporting [0x1000, 0, 0, 0] [0x1000, 0, 0x800, 0, 0, 0]"

lemma ex_before_facts: "length (md_uuid (ldev ex_before)) = UI_SIZE"
  "m1 (md_uuid_of ex_older UI_CURRENT) = m1 (md_uuid_of ex_before UI_CURRENT)"
  "m1 (md_uuid_of ex_before UI_CURRENT) \<notin> {0, UUID_JUST_CREATED}" "fresh_uuid 0x2000 ex_older"
  "uuids_of_peer (drbd_uuid_new_current 0x2000 ex_before) ex_older"
  "uuids_of_peer ex_older (drbd_uuid_new_current 0x2000 ex_before)"
  by code_simp+

theorem new_generation_is_source_witness:
  "drbd_uuid_compare 101 False (drbd_uuid_new_current 0x2000 ex_before) = (1, 70, drbd_uuid_new_current 0x2000 ex_before)
    \<and> drbd_uuid_compare 101 True ex_older = (-1, 50, ex_older)"
  using new_generation_is_source [OF ex_before_facts, of 101 False] by simp

definition ex_stranger :: drbd_device where
  "ex_stranger = ex_node ex_reporting [0x2000, 0, 0, 0] [0x1000, 0, 0, 0, 0, 0]"

lemma ex_stranger_facts: "m1 (md_uuid_of ex_stranger UI_CURRENT) \<notin> {0, UUID_JUST_CREATED}"
  "m1 (p_uuid_of ex_stranger UI_CURRENT) \<notin> {0, UUID_JUST_CREATED}"
  "m1 (md_uuid_of ex_stranger UI_CURRENT) \<noteq> m1 (p_uuid_of ex_stranger UI_CURRENT)"
  "list_all (\<lambda>i. md_uuid_of ex_stranger i = 0 \<and> p_uuid_of ex_stranger i = 0) [UI_BITMAP..<UI_SIZE]"
  by code_simp+

theorem unrelated_looks_like_split_brain_witness:
  "drbd_uuid_compare 101 False ex_stranger = (-100, 100, ex_stranger)"
  by (rule unrelated_looks_like_split_brain [OF ex_stranger_facts])

end
