(* ===== verification/Interval.thy ===== *)
theory Interval
  imports Prelude "HOL-Library.Tree"
begin

text \<open>
  The interval trees of \<open>drbd_interval.c\<close>, in which requests in flight are found by the sectors they
  cover, with the augmentation helpers of \<open>drbd_wrappers.h\<close>. The red-black trees themselves are kernel
  code: \<open>rb_insert_color\<close>, \<open>rb_erase\<close> and \<open>rb_next\<close> are arguments of the operations, and what the
  operations rely on is a hypothesis of the theorems: rebalancing keeps the order of the nodes and
  moves subtrees off the repaired path as a whole. Node addresses are numbers; colours are not kept.
\<close>

section \<open>Nodes\<close>

type_synonym sector_t = u64

record drbd_interval =
  i_addr :: nat
  i_sector :: sector_t
  i_size :: u32
  i_end :: sector_t

type_synonym rb_root = "drbd_interval tree"

definition interval_end :: "rb_root \<Rightarrow> sector_t" where
  "interval_end t = (case t of Leaf \<Rightarrow> 0 | Node _ i _ \<Rightarrow> i_end i)"

text \<open>\<open>sector + (size >> 9)\<close>\<close>

definition sectors :: "u32 \<Rightarrow> sector_t" where
  "sectors sz = ucast (drop_bit 9 sz)"

definition own_end :: "drbd_interval \<Rightarrow> sector_t" where
  "own_end i = i_sector i + sectors (i_size i)"

definition computed_end :: "rb_root \<Rightarrow> drbd_interval \<Rightarrow> rb_root \<Rightarrow> sector_t" where
  "computed_end l i r =
    (let e = own_end i;
         e = (if l \<noteq> Leaf \<and> interval_end l > e then interval_end l else e)
     in if r \<noteq> Leaf \<and> interval_end r > e then interval_end r else e)"

fun update_interval_end :: "rb_root \<Rightarrow> rb_root" where
  "update_interval_end Leaf = Leaf"
| "update_interval_end (Node l i r) = Node l (i\<lparr>i_end := computed_end l i r\<rparr>) r"

definition is_aligned_512 :: "u32 \<Rightarrow> bool" where
  "is_aligned_512 sz \<longleftrightarrow> sz AND 511 = 0"

section \<open>Paths and augmentation\<close>

text \<open>A node is reached from the root by a list of directions, \<open>True\<close> to the left.\<close>

fun path_to :: "nat \<Rightarrow> rb_root \<Rightarrow> bool list option" where
  "path_to a Leaf = None"
| "path_to a (Node l i r) =
    (if i_addr i = a then Some []
     else case path_to a l of Some p \<Rightarrow> Some (True # p)
          | None \<Rightarrow> map_option ((#) False) (path_to a r))"

fun subtree :: "rb_root \<Rightarrow> bool list \<Rightarrow> rb_root" where
  "subtree t [] = t"
| "subtree Leaf (d # p) = Leaf"
| "subtree (Node l i r) (d # p) = subtree (if d then l else r) p"

text \<open>
  \<open>rb_augment_path\<close> from the node at the end of the path up to the root: the node, then at each step
  its sibling and its parent. Without a right sibling the left child is updated once more.
\<close>

fun rb_augment_path :: "bool list \<Rightarrow> rb_root \<Rightarrow> rb_root" where
  "rb_augment_path p Leaf = Leaf"
| "rb_augment_path [] (Node l i r) = update_interval_end (Node l i r)"
| "rb_augment_path (d # p) (Node l i r) =
    (if d then
       let l = rb_augment_path p l
       in update_interval_end (if r \<noteq> Leaf then Node l i (update_interval_end r) else Node (update_interval_end l) i r)
     else
       let r = rb_augment_path p r
       in update_interval_end (if l \<noteq> Leaf then Node (update_interval_end l) i r else Node l i r))"

definition child_step :: "rb_root \<Rightarrow> bool list" where
  "child_step t = (case t of Leaf \<Rightarrow> [] | Node l i r \<Rightarrow> if l \<noteq> Leaf then [True] else if r \<noteq> Leaf then [False] else [])"

definition rb_augment_insert :: "bool list \<Rightarrow> rb_root \<Rightarrow> rb_root" where
  "rb_augment_insert p t = rb_augment_path (p @ child_step (subtree t p)) t"

text \<open>The deepest node of the rebalance path that outlives the removal, by its address; \<open>None\<close> is NULL.\<close>

fun leftmost :: "rb_root \<Rightarrow> bool list" where
  "leftmost (Node (Node a j b) i r) = True # leftmost (Node a j b)"
| "leftmost t = []"

definition node_at :: "rb_root \<Rightarrow> bool list \<Rightarrow> nat option" where
  "node_at t p = (case subtree t p of Leaf \<Rightarrow> None | Node _ i _ \<Rightarrow> Some (i_addr i))"

definition rb_augment_erase_begin :: "bool list \<Rightarrow> rb_root \<Rightarrow> nat option" where
  "rb_augment_erase_begin p t =
    (case subtree t p of Leaf \<Rightarrow> None
     | Node l i r \<Rightarrow>
        if r = Leaf \<and> l = Leaf then (if p = [] then None else node_at t (butlast p))
        else if r = Leaf then node_at t (p @ [True])
        else if l = Leaf then node_at t (p @ [False])
        else
          let q = p @ False # leftmost r in
          (case subtree t q of Node _ _ (Node _ j _) \<Rightarrow> Some (i_addr j)
           | _ \<Rightarrow> if leftmost r \<noteq> [] then node_at t (butlast q) else node_at t q))"

definition rb_augment_erase_end :: "nat option \<Rightarrow> rb_root \<Rightarrow> rb_root" where
  "rb_augment_erase_end deepest t =
    (case deepest of None \<Rightarrow> t
     | Some a \<Rightarrow> case path_to a t of None \<Rightarrow> t | Some p \<Rightarrow> rb_augment_path p t)"

section \<open>Operations\<close>

text \<open>\<open>link_interval\<close> is the search for the free place and \<open>rb_link_node\<close>; \<open>None\<close>: the very node is in the tree.\<close>

fun link_interval :: "drbd_interval \<Rightarrow> rb_root \<Rightarrow> rb_root option" where
  "link_interval this Leaf = Some (Node Leaf this Leaf)"
| "link_interval this (Node l here r) =
    (if i_sector this < i_sector here then map_option (\<lambda>l. Node l here r) (link_interval this l)
     else if i_sector this > i_sector here then map_option (\<lambda>r. Node l here r) (link_interval this r)
     else if i_addr this < i_addr here then map_option (\<lambda>l. Node l here r) (link_interval this l)
     else if i_addr this > i_addr here then map_option (\<lambda>r. Node l here r) (link_interval this r)
     else None)"

definition drbd_insert_interval :: "(nat \<Rightarrow> rb_root \<Rightarrow> rb_root) \<Rightarrow> rb_root \<Rightarrow> drbd_interval \<Rightarrow> (bool \<times> rb_root) option" where
  "drbd_insert_interval rb_insert_color root this = do {
     bug_on (\<not> is_aligned_512 (i_size this));
     Some (case link_interval this root of
             None \<Rightarrow> (False, root)
           | Some t \<Rightarrow>
               let t = rb_insert_color (i_addr this) t
               in (True, rb_augment_insert (the (path_to (i_addr this) t)) t))
   }"

fun drbd_contains_interval :: "rb_root \<Rightarrow> sector_t \<Rightarrow> nat \<Rightarrow> bool" where
  "drbd_contains_interval Leaf sector interval = False"
| "drbd_contains_interval (Node l here r) sector interval =
    (if sector < i_sector here then drbd_contains_interval l sector interval
     else if sector > i_sector here then drbd_contains_interval r sector interval
     else if interval < i_addr here then drbd_contains_interval l sector interval
     else if interval > i_addr here then drbd_contains_interval r sector interval
     else True)"

text \<open>The caller owns \<open>this\<close> and knows it to be in the tree.\<close>

definition drbd_remove_interval :: "(nat \<Rightarrow> rb_root \<Rightarrow> rb_root) \<Rightarrow> rb_root \<Rightarrow> nat \<Rightarrow> rb_root" where
  "drbd_remove_interval rb_erase root this =
    (let deepest = rb_augment_erase_begin (the (path_to this root)) root
     in rb_augment_erase_end deepest (rb_erase this root))"

fun find_overlap_loop :: "rb_root \<Rightarrow> sector_t \<Rightarrow> sector_t \<Rightarrow> drbd_interval option" where
  "find_overlap_loop Leaf sector e = None"
| "find_overlap_loop (Node l here r) sector e =
    (if l \<noteq> Leaf \<and> sector < interval_end l then find_overlap_loop l sector e
     else if i_sector here < e \<and> sector < own_end here then Some here
     else if sector \<ge> i_sector here then find_overlap_loop r sector e
     else None)"

definition drbd_find_overlap :: "rb_root \<Rightarrow> sector_t \<Rightarrow> u32 \<Rightarrow> drbd_interval option option" where
  "drbd_find_overlap root sector sz = do {
     bug_on (\<not> is_aligned_512 sz);
     Some (find_overlap_loop root sector (sector + sectors sz))
   }"

text \<open>The loop of \<open>drbd_next_overlap\<close>, with as many steps as there are nodes.\<close>

fun drbd_next_overlap :: "(drbd_interval \<Rightarrow> drbd_interval option) \<Rightarrow> nat \<Rightarrow> drbd_interval \<Rightarrow> sector_t \<Rightarrow> u32
    \<Rightarrow> drbd_interval option" where
  "drbd_next_overlap rb_next 0 i sector sz = None"
| "drbd_next_overlap rb_next (Suc n) i sector sz =
    (case rb_next i of None \<Rightarrow> None
     | Some i \<Rightarrow>
        if i_sector i \<ge> sector + sectors sz then None
        else if sector < own_end i then Some i
        else drbd_next_overlap rb_next n i sector sz)"

text \<open>The macro \<open>drbd_for_each_overlap\<close>: the intervals its body sees, in order.\<close>

fun overlaps_from :: "(drbd_interval \<Rightarrow> drbd_interval option) \<Rightarrow> nat \<Rightarrow> nat \<Rightarrow> drbd_interval option \<Rightarrow> sector_t \<Rightarrow> u32
    \<Rightarrow> drbd_interval list" where
  "overlaps_from rb_next n 0 io sector sz = []"
| "overlaps_from rb_next n (Suc m) io sector sz =
    (case io of None \<Rightarrow> []
     | Some i \<Rightarrow> i # overlaps_from rb_next n m (drbd_next_overlap rb_next n i sector sz) sector sz)"

definition drbd_for_each_overlap :: "(drbd_interval \<Rightarrow> drbd_interval option) \<Rightarrow> rb_root \<Rightarrow> sector_t \<Rightarrow> u32
    \<Rightarrow> drbd_interval list option" where
  "drbd_for_each_overlap rb_next root sector sz = do {
     i \<leftarrow> drbd_find_overlap root sector sz;
     Some (overlaps_from rb_next (size root) (Suc (size root)) i sector sz)
   }"

section \<open>The invariant\<close>

definition key_less :: "drbd_interval \<Rightarrow> drbd_interval \<Rightarrow> bool" where
  "key_less x y \<longleftrightarrow> i_sector x < i_sector y \<or> i_sector x = i_sector y \<and> i_addr x < i_addr y"

fun aug_ok :: "rb_root \<Rightarrow> bool" where
  "aug_ok Leaf \<longleftrightarrow> True"
| "aug_ok (Node l i r) \<longleftrightarrow> i_end i = computed_end l i r \<and> aug_ok l \<and> aug_ok r"

definition ivl_inv :: "rb_root \<Rightarrow> bool" where
  "ivl_inv t \<longleftrightarrow> sorted_wrt key_less (inorder t) \<and> aug_ok t \<and> distinct (map i_addr (inorder t))
     \<and> list_all (\<lambda>i. i_sector i \<le> own_end i) (inorder t)"

definition overlaps :: "sector_t \<Rightarrow> sector_t \<Rightarrow> drbd_interval \<Rightarrow> bool" where
  "overlaps s e i \<longleftrightarrow> i_sector i < e \<and> s < own_end i"

lemma aug_max:
  assumes "aug_ok t" "t \<noteq> Leaf"
  shows "\<forall>i \<in> set (inorder t). own_end i \<le> interval_end t" "\<exists>i \<in> set (inorder t). own_end i = interval_end t"
proof -
  have "(\<forall>i \<in> set (inorder t). own_end i \<le> interval_end t) \<and> (\<exists>i \<in> set (inorder t). own_end i = interval_end t)"
    using assms
  proof (induction t)
    case (Node l i r)
    have e: "interval_end (Node l i r) = computed_end l i r" using Node.prems by (simp add: interval_end_def)
    show ?case
      using Node unfolding e
      by (cases "l = Leaf"; cases "r = Leaf") (auto simp: computed_end_def Let_def)
  qed simp
  then show "\<forall>i \<in> set (inorder t). own_end i \<le> interval_end t" "\<exists>i \<in> set (inorder t). own_end i = interval_end t"
    by blast+
qed

lemma find_append: "find P (xs @ ys) = (case find P xs of None \<Rightarrow> find P ys | Some x \<Rightarrow> Some x)"
  by (induction xs) auto

lemma find_none: "\<forall>x \<in> set xs. \<not> P x \<Longrightarrow> find P xs = None"
  by (simp add: find_None_iff)

lemma key_less_sector: "key_less x y \<Longrightarrow> i_sector x \<le> i_sector y"
  by (auto simp: key_less_def)

lemma find_overlap_loop_correct:
  assumes "sorted_wrt key_less (inorder t)" "aug_ok t" "list_all (\<lambda>i. i_sector i \<le> own_end i) (inorder t)"
  shows "find_overlap_loop t s e = find (overlaps s e) (inorder t)"
  using assms
proof (induction t)
  case (Node l i r)
  have IH: "find_overlap_loop l s e = find (overlaps s e) (inorder l)" "find_overlap_loop r s e = find (overlaps s e) (inorder r)"
    using Node by (auto simp: sorted_wrt_append)
  have ord: "\<And>x y. x \<in> set (inorder l) \<Longrightarrow> y \<in> insert i (set (inorder r)) \<Longrightarrow> i_sector x \<le> i_sector y"
    "\<And>y. y \<in> set (inorder r) \<Longrightarrow> i_sector i \<le> i_sector y"
    using Node.prems(1) by (auto simp: sorted_wrt_append intro: key_less_sector)
  show ?case
  proof (cases "l \<noteq> Leaf \<and> s < interval_end l")
    case True
    then obtain y where y: "y \<in> set (inorder l)" "s < own_end y"
      using aug_max(2) [of l] Node.prems(2) by auto
    have "find (overlaps s e) (i # inorder r) = None" if "find (overlaps s e) (inorder l) = None"
    proof (rule find_none, rule ballI)
      fix z assume z: "z \<in> set (i # inorder r)"
      have "\<not> overlaps s e y" using that y(1) by (auto simp: find_None_iff)
      then show "\<not> overlaps s e z" using y ord(1) [OF y(1), of z] z by (auto simp: overlaps_def)
    qed
    then show ?thesis using True IH(1) by (auto simp: find_append split: option.split)
  next
    case False
    then have "find (overlaps s e) (inorder l) = None"
      using aug_max(1) [of l] Node.prems(2) by (cases "l = Leaf") (force simp: overlaps_def intro!: find_none)+
    moreover have "find (overlaps s e) (inorder r) = None" if "s < i_sector i" "\<not> overlaps s e i"
      using that ord(2) Node.prems(3) by (fastforce simp: overlaps_def intro!: find_none)
    ultimately show ?thesis
      using False IH(2) by (auto simp: find_append overlaps_def [of _ _ i])
  qed
qed simp

definition rb_next_ok :: "(drbd_interval \<Rightarrow> drbd_interval option) \<Rightarrow> rb_root \<Rightarrow> bool" where
  "rb_next_ok rb_next t \<longleftrightarrow>
    list_all (\<lambda>k. rb_next (inorder t ! k) = (if Suc k < size t then Some (inorder t ! Suc k) else None)) [0..<size t]"

lemma rb_next_split:
  assumes "rb_next_ok rb_next t" "inorder t = ys @ i # zs"
  shows "rb_next i = (case zs of [] \<Rightarrow> None | j # _ \<Rightarrow> Some j)"
proof -
  have l: "size t = length (ys @ i # zs)" using assms(2) by (metis length_inorder)
  have "rb_next (inorder t ! length ys)
      = (if Suc (length ys) < size t then Some (inorder t ! Suc (length ys)) else None)"
    using assms(1) l unfolding rb_next_ok_def list_all_iff by (metis atLeast_upt length_append lessThan_iff length_Cons
        less_add_Suc1 add_Suc_right)
  then show ?thesis unfolding assms(2) l by (cases zs) (simp_all add: nth_append)
qed

lemma next_overlap_correct:
  assumes "rb_next_ok rb_next t" "inorder t = ys @ i # zs" "sorted_wrt key_less (inorder t)" "length zs < n"
  shows "drbd_next_overlap rb_next n i s sz = find (overlaps s (s + sectors sz)) zs"
  using assms(2,4)
proof (induction zs arbitrary: n ys i)
  case Nil
  then show ?case using rb_next_split [OF assms(1) Nil(1)] by (cases n) auto
next
  case (Cons j zs)
  then obtain m where n: "n = Suc m" "length zs < m" by (cases n) auto
  have "find (overlaps s e) zs = None" if "e \<le> i_sector j" for e
    using that assms(3) Cons.prems(1)
    by (intro find_none) (auto simp: sorted_wrt_append overlaps_def dest!: key_less_sector)
  moreover have "inorder t = (ys @ [i]) @ j # zs" using Cons.prems(1) by simp
  ultimately show ?case
    using Cons.IH [of "ys @ [i]" j m] n rb_next_split [OF assms(1) Cons.prems(1)]
    by (auto simp: overlaps_def [of _ _ j] not_le)
qed

lemma overlaps_from_correct:
  assumes "rb_next_ok rb_next t" "sorted_wrt key_less (inorder t)" "inorder t = ys @ zs" "length zs < m" "length zs \<le> n"
  shows "overlaps_from rb_next n m (find (overlaps s (s + sectors sz)) zs) s sz = filter (overlaps s (s + sectors sz)) zs"
  using assms(3-)
proof (induction zs arbitrary: m ys rule: measure_induct_rule [of length])
  case (less zs)
  let ?P = "overlaps s (s + sectors sz)"
  obtain k where m: "m = Suc k" using less.prems(2) by (cases m) auto
  show ?case
  proof (cases "find ?P zs")
    case None
    then have "filter ?P zs = []" by (simp add: find_None_iff filter_empty_conv)
    with None show ?thesis by (simp add: m)
  next
    case (Some i)
    then obtain us vs where z: "zs = us @ i # vs" "?P i" "\<forall>u \<in> set us. \<not> ?P u"
      by (auto simp: find_Some_iff) (metis id_take_nth_drop in_set_conv_nth length_take min_less_iff_conj nth_take)
    have t: "inorder t = (ys @ us) @ i # vs" using less.prems(1) z(1) by simp
    have "drbd_next_overlap rb_next n i s sz = find ?P vs"
      using less.prems z(1) by (intro next_overlap_correct [OF assms(1) t assms(2)]) simp
    moreover have "overlaps_from rb_next n k (find ?P vs) s sz = filter ?P vs"
      using less.prems z(1) m t by (intro less.IH [of vs "ys @ us @ [i]"]) auto
    moreover have "filter ?P us = []" using z(3) by (simp add: filter_empty_conv)
    ultimately show ?thesis using Some z by (simp add: m)
  qed
qed

text \<open>
  C9: The conflict search is exact. In a tree that satisfies the invariant, \<open>drbd_find_overlap\<close> returns
  the first interval in tree order that overlaps the given sectors, or NULL when there is none, and the
  loop \<open>drbd_for_each_overlap\<close> visits every overlapping interval exactly once, in ascending order,
  for sizes aligned to 512; both stop with a BUG for other sizes.
\<close>

theorem overlap_search_exact:
  assumes "ivl_inv t" "rb_next_ok rb_next t"
  shows "drbd_find_overlap t s sz
      = (if is_aligned_512 sz then Some (find (overlaps s (s + sectors sz)) (inorder t)) else None)
    \<and> drbd_for_each_overlap rb_next t s sz
      = (if is_aligned_512 sz then Some (filter (overlaps s (s + sectors sz)) (inorder t)) else None)"
proof -
  have f: "find_overlap_loop t s e = find (overlaps s e) (inorder t)" for e
    using assms(1) by (intro find_overlap_loop_correct) (auto simp: ivl_inv_def)
  have "overlaps_from rb_next (size t) (Suc (size t)) (find (overlaps s (s + sectors sz)) (inorder t)) s sz
      = filter (overlaps s (s + sectors sz)) (inorder t)"
    using assms by (intro overlaps_from_correct [where ys = "[]"]) (auto simp: ivl_inv_def)
  then show ?thesis by (simp add: drbd_for_each_overlap_def drbd_find_overlap_def f)
qed


section \<open>Changing the tree\<close>

text \<open>The subtrees \<open>rb_augment_path\<close> does not look into.\<close>

fun kids :: "rb_root \<Rightarrow> rb_root list" where
  "kids Leaf = []"
| "kids (Node l i r) = [l, r]"

fun unvisited :: "bool list \<Rightarrow> rb_root \<Rightarrow> rb_root list" where
  "unvisited p Leaf = []"
| "unvisited [] (Node l i r) = [l, r]"
| "unvisited (d # p) (Node l i r) = (if d then kids r @ unvisited p l else kids l @ unvisited p r)"

text \<open>
  What the callers of the kernel's tree code rely on: the order of the nodes is kept, and a subtree
  that hangs off the path to be augmented, and off its siblings, is a subtree of the tree before.
\<close>

definition only_path_damaged :: "bool list \<Rightarrow> rb_root \<Rightarrow> rb_root \<Rightarrow> bool" where
  "only_path_damaged p before after \<longleftrightarrow> list_all (\<lambda>s. s \<in> subtrees before) (unvisited p after)"

definition augment_start :: "nat \<Rightarrow> rb_root \<Rightarrow> bool list" where
  "augment_start a t = (let p = the (path_to a t) in p @ child_step (subtree t p))"

definition insert_color_ok :: "(nat \<Rightarrow> rb_root \<Rightarrow> rb_root) \<Rightarrow> rb_root \<Rightarrow> drbd_interval \<Rightarrow> bool" where
  "insert_color_ok rb_insert_color root this \<longleftrightarrow>
    (case link_interval this root of None \<Rightarrow> True
     | Some t \<Rightarrow> let t' = rb_insert_color (i_addr this) t
                 in inorder t' = inorder t \<and> only_path_damaged (augment_start (i_addr this) t') root t')"

definition erase_ok :: "(nat \<Rightarrow> rb_root \<Rightarrow> rb_root) \<Rightarrow> rb_root \<Rightarrow> nat \<Rightarrow> bool" where
  "erase_ok rb_erase root a \<longleftrightarrow>
    (let t' = rb_erase a root in
     inorder t' = filter (\<lambda>i. i_addr i \<noteq> a) (inorder root)
   \<and> (case rb_augment_erase_begin (the (path_to a root)) root of None \<Rightarrow> True
      | Some d \<Rightarrow> only_path_damaged (the (path_to d t')) root t'))"

text \<open>The intervals of a tree without the bookkeeping field.\<close>

definition bare :: "drbd_interval \<Rightarrow> drbd_interval" where
  "bare i = i\<lparr>i_end := 0\<rparr>"

definition ivals :: "rb_root \<Rightarrow> drbd_interval list" where
  "ivals t = map bare (inorder t)"

lemma bare_simps [simp]: "i_addr (bare i) = i_addr i" "i_sector (bare i) = i_sector i" "own_end (bare i) = own_end i"
  "bare (i\<lparr>i_end := e\<rparr>) = bare i"
  by (simp_all add: bare_def own_end_def)

lemma ivals_augment [simp]: "ivals (update_interval_end t) = ivals t" "ivals (rb_augment_path p t) = ivals t"
proof -
  show u: "ivals (update_interval_end t) = ivals t" for t by (cases t) (simp_all add: ivals_def)
  show "ivals (rb_augment_path p t) = ivals t"
  proof (induction p t rule: rb_augment_path.induct)
    case (3 d p l i r)
    have n: "ivals (Node x i y) = ivals x @ bare i # ivals y" for x y by (simp add: ivals_def)
    show ?case using 3 by (simp add: n u Let_def del: update_interval_end.simps)
  qed (simp_all add: ivals_def)
qed

lemma computed_end_bare [simp]: "computed_end l (i\<lparr>i_end := e\<rparr>) r = computed_end l i r"
  by (simp add: computed_end_def own_end_def)

lemma update_aug_ok [simp]: "list_all aug_ok (kids t) \<Longrightarrow> aug_ok (update_interval_end t)"
  by (cases t) simp_all

lemma aug_ok_kids: "aug_ok t \<Longrightarrow> list_all aug_ok (kids t)"
  by (cases t) simp_all

lemma augment_path_ok:
  "subtree t p \<noteq> Leaf \<Longrightarrow> list_all aug_ok (unvisited p t) \<Longrightarrow> aug_ok (rb_augment_path p t)"
proof (induction p t rule: rb_augment_path.induct)
  case (3 d p l i r)
  have "aug_ok (update_interval_end (Node x i y))" if "aug_ok x" "aug_ok y" for x y
    using that by (simp del: update_interval_end.simps)
  note u = this
  show ?case
  proof (cases d)
    case True
    then have "aug_ok (rb_augment_path p l)" "list_all aug_ok (kids r)" using 3 by simp_all
    with True show ?thesis by (auto simp: Let_def aug_ok_kids intro!: u simp del: update_interval_end.simps)
  next
    case False
    then have "aug_ok (rb_augment_path p r)" "list_all aug_ok (kids l)" using 3 by simp_all
    with False show ?thesis by (auto simp: Let_def aug_ok_kids intro!: u simp del: update_interval_end.simps)
  qed
qed simp_all

lemma aug_ok_subtrees: "aug_ok t \<Longrightarrow> s \<in> subtrees t \<Longrightarrow> aug_ok s"
  by (induction t) auto

lemma path_to_sound: "path_to a t = Some p \<Longrightarrow> \<exists>l i r. subtree t p = Node l i r \<and> i_addr i = a"
  by (induction t arbitrary: p) (auto split: if_splits option.splits)

lemma path_to_exists: "a \<in> i_addr ` set (inorder t) \<Longrightarrow> \<exists>p. path_to a t = Some p"
  by (induction t) (auto split: option.splits)

lemma path_to_none: "path_to a t = None \<longleftrightarrow> a \<notin> i_addr ` set (inorder t)"
  by (induction t) (auto split: option.splits)

lemma subtree_mem: "subtree t p = Node l i r \<Longrightarrow> i \<in> set (inorder t)"
  by (induction t p rule: subtree.induct) (auto split: if_splits)

lemma path_to_unique:
  "distinct (map i_addr (inorder t)) \<Longrightarrow> subtree t q = Node l i r \<Longrightarrow> path_to (i_addr i) t = Some q"
proof (induction t q rule: subtree.induct)
  case (3 l' j r' d p)
  then have m: "i \<in> set (inorder (if d then l' else r'))" using subtree_mem [of _ p] by (cases d) auto
  then have "i_addr i \<noteq> i_addr j" using 3(2) by (cases d) (auto simp: image_iff)
  moreover have "path_to (i_addr i) l' = None" if "\<not> d" using that m 3(2) unfolding path_to_none by auto
  ultimately show ?case using 3 by (cases d) auto
qed auto

lemma subtree_append: "subtree t (p @ q) = subtree (subtree t p) q"
proof (induction t p rule: subtree.induct)
  case (2 d p)
  have "subtree Leaf x = Leaf" for x by (cases x) simp_all
  then show ?case by simp
qed simp_all

lemma child_step_ok: "t \<noteq> Leaf \<Longrightarrow> subtree t (child_step t) \<noteq> Leaf"
  by (cases t) (auto simp: child_step_def)


definition bare_inv :: "drbd_interval list \<Rightarrow> bool" where
  "bare_inv xs \<longleftrightarrow> sorted_wrt key_less xs \<and> distinct (map i_addr xs) \<and> list_all (\<lambda>i. i_sector i \<le> own_end i) xs"

lemma ivl_inv_alt: "ivl_inv t \<longleftrightarrow> bare_inv (ivals t) \<and> aug_ok t"
proof -
  have "sorted_wrt key_less (map bare xs) = sorted_wrt key_less xs" for xs
    by (simp add: sorted_wrt_map key_less_def [abs_def])
  moreover have "i_addr \<circ> bare = i_addr" by (simp add: fun_eq_iff)
  moreover have "list_all (\<lambda>i. i_sector i \<le> own_end i) (map bare xs) = list_all (\<lambda>i. i_sector i \<le> own_end i) xs" for xs
    by (simp add: list_all_iff)
  ultimately show ?thesis unfolding ivl_inv_def bare_inv_def ivals_def by auto
qed

lemma link_interval_place:
  assumes "sorted_wrt key_less (inorder t)" "link_interval this t = Some t'"
  shows "\<exists>xs ys. inorder t = xs @ ys \<and> inorder t' = xs @ this # ys
    \<and> (\<forall>x \<in> set xs. key_less x this) \<and> (\<forall>y \<in> set ys. key_less this y)"
  using assms
proof (induction t arbitrary: t')
  case (Node l i r)
  have tr: "key_less x z" if "key_less x y" "key_less y z" for x y z using that by (auto simp: key_less_def)
  consider (left) l' where "key_less this i" "link_interval this l = Some l'" "t' = Node l' i r"
    | (right) r' where "key_less i this" "link_interval this r = Some r'" "t' = Node l i r'"
    using Node.prems(2) by (auto simp: key_less_def split: if_splits)
  then show ?case
  proof cases
    case left
    obtain xs ys where p: "inorder l = xs @ ys" "inorder l' = xs @ this # ys"
      "\<forall>x \<in> set xs. key_less x this" "\<forall>y \<in> set ys. key_less this y"
      using Node.IH(1) [OF _ left(2)] Node.prems(1) by (auto simp: sorted_wrt_append)
    have "\<forall>y \<in> set (ys @ i # inorder r). key_less this y"
      using p(4) left(1) Node.prems(1) by (auto simp: sorted_wrt_append intro: tr)
    then show ?thesis using p left(3) by (intro exI [of _ xs] exI [of _ "ys @ i # inorder r"]) simp
  next
    case right
    obtain xs ys where p: "inorder r = xs @ ys" "inorder r' = xs @ this # ys"
      "\<forall>x \<in> set xs. key_less x this" "\<forall>y \<in> set ys. key_less this y"
      using Node.IH(2) [OF _ right(2)] Node.prems(1) by (auto simp: sorted_wrt_append)
    have "\<forall>x \<in> set (inorder l @ i # xs). key_less x this"
      using p(3) right(1) Node.prems(1) by (auto simp: sorted_wrt_append intro: tr)
    then show ?thesis using p right(3) by (intro exI [of _ "inorder l @ i # xs"] exI [of _ ys]) simp
  qed
qed simp

lemma contains_interval_iff:
  assumes "sorted_wrt key_less (inorder t)"
  shows "drbd_contains_interval t s a \<longleftrightarrow> (\<exists>i \<in> set (inorder t). i_sector i = s \<and> i_addr i = a)"
  using assms
proof (induction t)
  case (Node l i r)
  define K where "K j \<longleftrightarrow> i_sector j = s \<and> i_addr j = a" for j :: drbd_interval
  have IH: "drbd_contains_interval l s a \<longleftrightarrow> (\<exists>j \<in> set (inorder l). K j)"
    "drbd_contains_interval r s a \<longleftrightarrow> (\<exists>j \<in> set (inorder r). K j)"
    using Node by (simp_all add: sorted_wrt_append K_def)
  have o: "\<forall>j \<in> set (inorder l). key_less j i" "\<forall>j \<in> set (inorder r). key_less i j"
    using Node.prems by (simp_all add: sorted_wrt_append)
  have n: "\<not> (\<exists>j \<in> set (inorder r). K j)" if "s < i_sector i \<or> s = i_sector i \<and> a \<le> i_addr i"
    using that o(2) unfolding K_def key_less_def by (metis leD less_asym less_irrefl)
  have n': "\<not> (\<exists>j \<in> set (inorder l). K j)" if "s > i_sector i \<or> s = i_sector i \<and> a \<ge> i_addr i"
    using that o(1) unfolding K_def key_less_def by (metis leD less_asym less_irrefl)
  consider "s < i_sector i \<or> s = i_sector i \<and> a < i_addr i" | "s > i_sector i \<or> s = i_sector i \<and> a > i_addr i" | "K i"
    unfolding K_def by (metis linorder_neqE_nat linorder_less_linear)
  then have "drbd_contains_interval (Node l i r) s a \<longleftrightarrow> (\<exists>j \<in> set (inorder l). K j) \<or> K i \<or> (\<exists>j \<in> set (inorder r). K j)"
  proof cases
    case 1
    then have "drbd_contains_interval (Node l i r) s a = drbd_contains_interval l s a" "\<not> K i" by (auto simp: K_def)
    moreover have "\<not> (\<exists>j \<in> set (inorder r). K j)" using 1 by (intro n) auto
    ultimately show ?thesis using IH(1) by blast
  next
    case 2
    then have "drbd_contains_interval (Node l i r) s a = drbd_contains_interval r s a" "\<not> K i" by (auto simp: K_def)
    moreover have "\<not> (\<exists>j \<in> set (inorder l). K j)" using 2 by (intro n') auto
    ultimately show ?thesis using IH(2) by blast
  next
    case 3
    then have "drbd_contains_interval (Node l i r) s a" by (simp add: K_def)
    then show ?thesis using 3 by simp
  qed
  then show ?case by (simp add: K_def) blast
qed simp

lemma link_interval_None: "link_interval this t = None \<longleftrightarrow> drbd_contains_interval t (i_sector this) (i_addr this)"
  by (induction t) auto

lemma augment_insert_ok:
  assumes "path_to a t' = Some p" "only_path_damaged (augment_start a t') t t'" "aug_ok t"
  shows "aug_ok (rb_augment_insert p t')"
proof -
  have "subtree t' p \<noteq> Leaf" using path_to_sound [OF assms(1)] by auto
  then have "subtree t' (p @ child_step (subtree t' p)) \<noteq> Leaf" unfolding subtree_append by (rule child_step_ok)
  moreover have "list_all aug_ok (unvisited (p @ child_step (subtree t' p)) t')"
    using assms(2) aug_ok_subtrees [OF assms(3)]
    by (simp add: only_path_damaged_def augment_start_def assms(1) list_all_iff)
  ultimately show ?thesis unfolding rb_augment_insert_def by (rule augment_path_ok)
qed


lemma subtree_prefix: "subtree t (p @ q) \<noteq> Leaf \<Longrightarrow> subtree t p \<noteq> Leaf"
  by (auto simp: subtree_append) (cases q; simp)

lemma node_at_None: "node_at t p = None \<longleftrightarrow> subtree t p = Leaf"
  by (auto simp: node_at_def split: tree.split)

lemma leftmost_ok: "t \<noteq> Leaf \<Longrightarrow> subtree t (leftmost t) \<noteq> Leaf"
  by (induction t rule: leftmost.induct) auto

lemma erase_begin_two_children:
  assumes "subtree t p = Node l i r" "l \<noteq> Leaf" "r \<noteq> Leaf"
  shows "\<exists>q. q \<noteq> p \<and> subtree t q \<noteq> Leaf \<and> rb_augment_erase_begin p t = node_at t q"
proof -
  define q where "q = p @ False # leftmost r"
  obtain x j y where q: "subtree t q = Node x j y"
    using leftmost_ok [OF assms(3)] assms(1) by (cases "subtree t q") (auto simp: q_def subtree_append)
  show ?thesis
  proof (cases y)
    case Leaf
    show ?thesis
    proof (cases "leftmost r = []")
      case True
      with Leaf show ?thesis using assms q
        by (intro exI [of _ q]) (simp add: rb_augment_erase_begin_def Let_def q_def)
    next
      case False
      then have "butlast q = p @ False # butlast (leftmost r)" by (simp add: q_def butlast_append)
      moreover have "subtree t (butlast q) \<noteq> Leaf"
        using q subtree_prefix [of t "butlast q" "[last q]"] append_butlast_last_id [of q] by (simp add: q_def del: append_butlast_last_id)
      moreover have "rb_augment_erase_begin p t = node_at t (butlast q)"
        using assms q False Leaf by (simp add: rb_augment_erase_begin_def Let_def q_def)
      ultimately show ?thesis by (intro exI [of _ "butlast q"]) simp
    qed
  next
    case (Node u k v)
    then show ?thesis using assms q
      by (intro exI [of _ "q @ [False]"]) (simp add: rb_augment_erase_begin_def Let_def q_def node_at_def subtree_append)
  qed
qed

lemma erase_begin_None:
  assumes "path_to a t = Some p" "rb_augment_erase_begin p t = None"
  shows "\<exists>i. t = Node Leaf i Leaf \<and> i_addr i = a"
proof -
  obtain l i r where sp: "subtree t p = Node l i r" "i_addr i = a" using path_to_sound [OF assms(1)] by blast
  have "l = Leaf \<or> r = Leaf"
    using assms(2) erase_begin_two_children [OF sp(1)] by (metis node_at_None)
  then have lr: "l = Leaf" "r = Leaf"
    using assms(2) sp by (auto simp: rb_augment_erase_begin_def node_at_None subtree_append split: if_splits)
  moreover have "p = []"
    using assms(2) sp lr subtree_prefix [of t "butlast p" "[last p]"]
    by (auto simp: rb_augment_erase_begin_def node_at_None split: if_splits)
  ultimately show ?thesis using sp by simp
qed

lemma erase_begin_other:
  assumes "distinct (map i_addr (inorder t))" "path_to a t = Some p" "rb_augment_erase_begin p t = Some d"
  shows "d \<noteq> a" "d \<in> i_addr ` set (inorder t)"
proof -
  have at: "d \<noteq> a \<and> d \<in> i_addr ` set (inorder t)" if na: "node_at t q = Some d" "q \<noteq> p" for q
  proof -
    obtain l i r where q: "subtree t q = Node l i r" "i_addr i = d"
      using na(1) by (cases "subtree t q") (auto simp: node_at_def)
    then show ?thesis
      using path_to_unique [OF assms(1) q(1)] assms(2) na(2) subtree_mem [OF q(1)] by auto
  qed
  obtain l i r where sp: "subtree t p = Node l i r" "i_addr i = a" using path_to_sound [OF assms(2)] by blast
  have "d \<noteq> a \<and> d \<in> i_addr ` set (inorder t)"
  proof (cases "l = Leaf \<or> r = Leaf")
    case True
    then obtain q where "node_at t q = Some d" "q \<noteq> p"
      using assms(3) sp by (auto simp: rb_augment_erase_begin_def split: if_splits) (metis append_butlast_last_id not_Cons_self2 self_append_conv)
    then show ?thesis by (rule at)
  next
    case False
    then obtain q where "node_at t q = Some d" "q \<noteq> p"
      using erase_begin_two_children [OF sp(1)] assms(3) by metis
    then show ?thesis by (rule at)
  qed
  then show "d \<noteq> a" "d \<in> i_addr ` set (inorder t)" by simp_all
qed



section \<open>An example\<close>

text \<open>Three requests; the third insertion rotates at the root.\<close>

definition ex_ival :: "nat \<Rightarrow> sector_t \<Rightarrow> u32 \<Rightarrow> sector_t \<Rightarrow> drbd_interval" where
  "ex_ival a s sz e = \<lparr>i_addr = a, i_sector = s, i_size = sz, i_end = e\<rparr>"

definition ex_tree :: rb_root where
  "ex_tree = Node Leaf (ex_ival 1 8 4096 32) (Node Leaf (ex_ival 2 24 4096 32) Leaf)"

definition ex_rotate :: "nat \<Rightarrow> rb_root \<Rightarrow> rb_root" where
  "ex_rotate a t = (case t of Node l i (Node m j r) \<Rightarrow> Node (Node l i m) j r | _ \<Rightarrow> t)"

definition ex_balanced :: rb_root where
  "ex_balanced = Node (Node Leaf (ex_ival 1 8 4096 16) Leaf) (ex_ival 2 24 4096 108) (Node Leaf (ex_ival 3 100 4096 108) Leaf)"

definition ex_next :: "drbd_interval \<Rightarrow> drbd_interval option" where
  "ex_next i = (if i_addr i = 1 then Some (ex_ival 2 24 4096 108) else if i_addr i = 2 then Some (ex_ival 3 100 4096 108) else None)"

definition ex_erase :: "nat \<Rightarrow> rb_root \<Rightarrow> rb_root" where
  "ex_erase a t = (case t of Node l i (Node Leaf j r) \<Rightarrow> Node l j r | _ \<Rightarrow> t)"

lemma ex_tree_facts: "ivl_inv ex_tree" "insert_color_ok ex_rotate ex_tree (ex_ival 3 100 4096 0)"
  "is_aligned_512 (i_size (ex_ival 3 100 4096 0))" "i_sector (ex_ival 3 100 4096 0) \<le> own_end (ex_ival 3 100 4096 0)"
  "i_addr (ex_ival 3 100 4096 0) \<in> set (map i_addr (ivals ex_tree))
     \<longrightarrow> drbd_contains_interval ex_tree (i_sector (ex_ival 3 100 4096 0)) (i_addr (ex_ival 3 100 4096 0))"
  "drbd_insert_interval ex_rotate ex_tree (ex_ival 3 100 4096 0) = Some (True, ex_balanced)"
  by code_simp+


lemma ex_balanced_facts: "ivl_inv ex_balanced" "rb_next_ok ex_next ex_balanced" "is_aligned_512 8192"
  "filter (overlaps 12 (12 + sectors 8192)) (inorder ex_balanced) = [ex_ival 1 8 4096 16, ex_ival 2 24 4096 108]"
  "2 \<in> set (map i_addr (ivals ex_balanced))" "erase_ok ex_erase ex_balanced 2"
  "drbd_remove_interval ex_erase ex_balanced 2
     = Node (Node Leaf (ex_ival 1 8 4096 16) Leaf) (ex_ival 3 100 4096 108) Leaf"
  by code_simp+

theorem overlap_search_exact_witness:
  "drbd_for_each_overlap ex_next ex_balanced 12 8192 = Some [ex_ival 1 8 4096 16, ex_ival 2 24 4096 108]"
  using overlap_search_exact [OF ex_balanced_facts(1,2), of 12 8192] ex_balanced_facts(3,4) by simp


end
