(* ===== verification/Bitmap.thy ===== *)
theory Bitmap
  imports Prelude
begin

text \<open>
  The bitmap of blocks out of sync, \<open>drbd_bitmap.c\<close>: one bit for 4 KiB of data, kept in pages of 512
  little endian long words. The words of all pages are one list; a word's value is read in little endian
  order, so that \<open>cpu_to_lel\<close> is the identity. Bit and word numbers are natural numbers (they fit an
  unsigned long by the limits the file documents), \<open>bm_set\<close> is an unsigned long. \<open>BUG_ON\<close> and an access
  to a missing page are \<open>None\<close>. Page I/O, its locks and completion, the mutex of the bitmap and log messages are left out.
\<close>

section \<open>State\<close>

definition BITS_PER_LONG :: nat where "BITS_PER_LONG = 64"
definition LWPP :: nat where "LWPP = 512"
definition BITS_PER_PAGE :: nat where "BITS_PER_PAGE = 32768"

record page_private =
  BM_PAGE_NEED_WRITEOUT :: bool
  BM_PAGE_LAZY_WRITEOUT :: bool
  BM_PAGE_HINT_WRITEOUT :: bool

definition fresh_page :: page_private where
  "fresh_page = \<lparr>BM_PAGE_NEED_WRITEOUT = False, BM_PAGE_LAZY_WRITEOUT = False, BM_PAGE_HINT_WRITEOUT = False\<rparr>"

text \<open>\<open>bm_mem\<close> holds the words of the \<open>bm_number_of_pages\<close> pages; both lists are empty when \<open>bm_pages\<close> is NULL.\<close>

record drbd_bitmap =
  bm_mem :: "u64 list"
  bm_private :: "page_private list"
  bm_set :: u64
  bm_bits :: nat
  bm_words :: nat
  bm_number_of_pages :: nat
  bm_dev_capacity :: u64

definition hweight_long :: "u64 \<Rightarrow> nat" where
  "hweight_long w = length (filter (bit w) [0..<64])"

definition upd_page :: "nat \<Rightarrow> (page_private \<Rightarrow> page_private) \<Rightarrow> drbd_bitmap \<Rightarrow> drbd_bitmap" where
  "upd_page i f b = b\<lparr>bm_private := (bm_private b)[i := f (bm_private b ! i)]\<rparr>"

definition bm_set_page_need_writeout :: "nat \<Rightarrow> drbd_bitmap \<Rightarrow> drbd_bitmap" where
  "bm_set_page_need_writeout i = upd_page i (\<lambda>p. p\<lparr>BM_PAGE_NEED_WRITEOUT := True\<rparr>)"

definition bm_set_page_lazy_writeout :: "nat \<Rightarrow> drbd_bitmap \<Rightarrow> drbd_bitmap" where
  "bm_set_page_lazy_writeout i = upd_page i (\<lambda>p. p\<lparr>BM_PAGE_LAZY_WRITEOUT := True\<rparr>)"

definition bm_set_page_unchanged :: "nat \<Rightarrow> drbd_bitmap \<Rightarrow> drbd_bitmap" where
  "bm_set_page_unchanged i = upd_page i (\<lambda>p. p\<lparr>BM_PAGE_NEED_WRITEOUT := False, BM_PAGE_LAZY_WRITEOUT := False\<rparr>)"

definition bm_test_page_unchanged :: "nat \<Rightarrow> drbd_bitmap \<Rightarrow> bool" where
  "bm_test_page_unchanged i b \<longleftrightarrow>
     \<not> BM_PAGE_NEED_WRITEOUT (bm_private b ! i) \<and> \<not> BM_PAGE_LAZY_WRITEOUT (bm_private b ! i)"

definition drbd_bm_mark_for_writeout :: "nat \<Rightarrow> drbd_bitmap \<Rightarrow> drbd_bitmap" where
  "drbd_bm_mark_for_writeout i b =
    (if i \<ge> bm_number_of_pages b then b else upd_page i (\<lambda>p. p\<lparr>BM_PAGE_HINT_WRITEOUT := True\<rparr>) b)"

definition bm_word_to_page_idx :: "drbd_bitmap \<Rightarrow> nat \<Rightarrow> nat option" where
  "bm_word_to_page_idx b w = (let p = w div LWPP in do { bug_on (p \<ge> bm_number_of_pages b); Some p })"

definition bm_bit_to_page_idx :: "drbd_bitmap \<Rightarrow> nat \<Rightarrow> nat option" where
  "bm_bit_to_page_idx b n = (let p = n div BITS_PER_PAGE in do { bug_on (p \<ge> bm_number_of_pages b); Some p })"

text \<open>\<open>test_bit_le\<close> and its relatives on the pages.\<close>

definition mem_bit :: "u64 list \<Rightarrow> nat \<Rightarrow> bool" where
  "mem_bit ws n \<longleftrightarrow> bit (ws ! (n div BITS_PER_LONG)) (n mod BITS_PER_LONG)"

definition mem_put :: "bool \<Rightarrow> nat \<Rightarrow> u64 list \<Rightarrow> u64 list" where
  "mem_put v n ws = ws[n div BITS_PER_LONG :=
     (if v then set_bit (n mod BITS_PER_LONG) else unset_bit (n mod BITS_PER_LONG)) (ws ! (n div BITS_PER_LONG))]"

section \<open>Surplus bits and counting\<close>

text \<open>\<open>(1UL << (n & 63)) - 1\<close>: zero when \<open>n\<close> is a multiple of 64.\<close>

definition used_mask :: "nat \<Rightarrow> u64" where
  "used_mask n = push_bit (n mod BITS_PER_LONG) 1 - 1"

definition last_word_idx :: "drbd_bitmap \<Rightarrow> nat" where
  "last_word_idx b = (bm_number_of_pages b - 1) * LWPP + (bm_bits b mod BITS_PER_PAGE) div BITS_PER_LONG"

definition bm_clear_surplus :: "drbd_bitmap \<Rightarrow> nat \<times> drbd_bitmap" where
  "bm_clear_surplus b =
    (let mask = used_mask (bm_bits b mod BITS_PER_PAGE); i = last_word_idx b in
     if mask \<noteq> 0
     then (hweight_long (bm_mem b ! i AND NOT mask), b\<lparr>bm_mem := (bm_mem b)[i := bm_mem b ! i AND mask]\<rparr>)
     else (0, b))"

definition bm_set_surplus :: "drbd_bitmap \<Rightarrow> drbd_bitmap" where
  "bm_set_surplus b =
    (let mask = used_mask (bm_bits b mod BITS_PER_PAGE); i = last_word_idx b in
     if mask \<noteq> 0 then b\<lparr>bm_mem := (bm_mem b)[i := bm_mem b ! i OR NOT mask]\<rparr> else b)"

definition bm_count_bits :: "drbd_bitmap \<Rightarrow> nat \<times> drbd_bitmap" where
  "bm_count_bits b =
    (let mask = used_mask (bm_bits b);
         full = (bm_number_of_pages b - 1) * LWPP;
         last_word = full + ((bm_bits b - 1) mod BITS_PER_PAGE) div BITS_PER_LONG;
         bits = sum_list (map hweight_long (take full (bm_mem b)));
         bits = bits + sum_list (map (\<lambda>i. hweight_long (bm_mem b ! i)) [full..<last_word]);
         w = bm_mem b ! last_word AND mask
     in (bits + hweight_long w, b\<lparr>bm_mem := (bm_mem b)[last_word := w]\<rparr>))"

section \<open>Whole words\<close>

text \<open>The pages a range of words touches are marked, in order.\<close>

definition mark_pages :: "(nat \<Rightarrow> drbd_bitmap \<Rightarrow> drbd_bitmap) \<Rightarrow> nat \<Rightarrow> nat \<Rightarrow> drbd_bitmap \<Rightarrow> drbd_bitmap" where
  "mark_pages f offset e b = (if offset < e then fold f [offset div LWPP..<(e - 1) div LWPP + 1] b else b)"

definition fill_words :: "nat \<Rightarrow> nat \<Rightarrow> (nat \<Rightarrow> u64) \<Rightarrow> u64 list \<Rightarrow> u64 list" where
  "fill_words offset e f ws = fold (\<lambda>i ws. ws[i := f i]) [offset..<e] ws"

definition byte_word :: "bool \<Rightarrow> u64" where
  "byte_word c = (if c then -1 else 0)"

text \<open>\<open>c\<close> tells whether the words are filled with \<open>0xff\<close> or with 0.\<close>

definition bm_memset :: "nat \<Rightarrow> bool \<Rightarrow> nat \<Rightarrow> drbd_bitmap \<Rightarrow> drbd_bitmap option" where
  "bm_memset offset c len b =
    (let e = offset + len in
     if e > bm_words b then Some b
     else do {
       bug_on (offset < e \<and> (e - 1) div LWPP \<ge> bm_number_of_pages b);
       Some (mark_pages bm_set_page_need_writeout offset e
              (b\<lparr>bm_mem := fill_words offset e (\<lambda>_. byte_word c) (bm_mem b)\<rparr>))
     })"

definition drbd_bm_total_weight_nolock :: "drbd_bitmap \<Rightarrow> u64" where
  "drbd_bm_total_weight_nolock b = (if bm_mem b = [] then 0 else bm_set b)"

definition merge_step :: "nat \<Rightarrow> u64 list \<Rightarrow> nat \<Rightarrow> drbd_bitmap \<Rightarrow> drbd_bitmap" where
  "merge_step offset buffer i b =
    (let old = bm_mem b ! i; word = old OR buffer ! (i - offset)
     in b\<lparr>bm_mem := (bm_mem b)[i := word],
          bm_set := bm_set b + (of_nat (hweight_long word) - of_nat (hweight_long old))\<rparr>)"

definition drbd_bm_merge_lel :: "nat \<Rightarrow> u64 list \<Rightarrow> drbd_bitmap \<Rightarrow> drbd_bitmap option" where
  "drbd_bm_merge_lel offset buffer b =
    (let number = length buffer; e = offset + number in
     if bm_mem b = [] \<or> number = 0 then Some b
     else do {
       bug_on ((e - 1) div LWPP \<ge> bm_number_of_pages b);
       let b = mark_pages bm_set_page_need_writeout offset e (fold (merge_step offset buffer) [offset..<e] b);
       Some (if e = bm_words b
             then let (cleared, b) = bm_clear_surplus b in b\<lparr>bm_set := bm_set b - of_nat cleared\<rparr> else b)
     })"

text \<open>Out of range nothing is copied: the buffer keeps what it held.\<close>

definition drbd_bm_get_lel :: "nat \<Rightarrow> nat \<Rightarrow> u64 list \<Rightarrow> drbd_bitmap \<Rightarrow> u64 list" where
  "drbd_bm_get_lel offset number buffer b =
    (if bm_mem b = [] \<or> offset \<ge> bm_words b \<or> offset + number > bm_words b \<or> number = 0 then buffer
     else map (\<lambda>i. bm_mem b ! i) [offset..<offset + number])"

definition drbd_bm_set_all :: "drbd_bitmap \<Rightarrow> drbd_bitmap option" where
  "drbd_bm_set_all b =
    (if bm_mem b = [] then Some b
     else do {
       b \<leftarrow> bm_memset 0 True (bm_words b) b;
       let (_, b) = bm_clear_surplus b;
       Some (b\<lparr>bm_set := of_nat (bm_bits b)\<rparr>)
     })"

definition drbd_bm_clear_all :: "drbd_bitmap \<Rightarrow> drbd_bitmap option" where
  "drbd_bm_clear_all b =
    (if bm_mem b = [] then Some b
     else do {
       b \<leftarrow> bm_memset 0 False (bm_words b) b;
       Some (b\<lparr>bm_set := 0\<rparr>)
     })"

section \<open>Resizing\<close>

text \<open>
  \<open>on_disk\<close> is the room for bits in the metadata, \<open>None\<close> without a local disk; \<open>alloc\<close> gives the
  content of \<open>k\<close> newly allocated words, \<open>None\<close> when memory runs out.
\<close>

datatype bm_err = ENOSPC | ENOMEM

definition bm_realloc_pages :: "(nat \<Rightarrow> u64 list option) \<Rightarrow> nat \<Rightarrow> drbd_bitmap \<Rightarrow> (u64 list \<times> page_private list) option" where
  "bm_realloc_pages alloc want b =
    (let have = bm_number_of_pages b in
     if have = want then Some (bm_mem b, bm_private b)
     else if want \<ge> have
     then map_option (\<lambda>junk. (bm_mem b @ junk, bm_private b @ replicate (want - have) fresh_page))
            (alloc ((want - have) * LWPP))
     else map_option (\<lambda>_. (take (want * LWPP) (bm_mem b), take want (bm_private b))) (alloc 0))"

definition drbd_bm_resize :: "u64 option \<Rightarrow> (nat \<Rightarrow> u64 list option) \<Rightarrow> u64 \<Rightarrow> bool \<Rightarrow> drbd_bitmap
    \<Rightarrow> (bm_err option \<times> drbd_bitmap) option" where
  "drbd_bm_resize on_disk alloc c_size set_new_bits b =
    (let capacity = c_size - c_size mod 32768 in
     if capacity = bm_dev_capacity b then Some (None, b)
     else if capacity = 0
     then Some (None, b\<lparr>bm_mem := [], bm_private := [], bm_set := 0, bm_bits := 0, bm_words := 0,
                         bm_number_of_pages := 0, bm_dev_capacity := 0\<rparr>)
     else
       let bits = (unat capacity + 7) div 8; words = (bits + 63) div 64; want = (words + LWPP - 1) div LWPP in
       if (case on_disk of None \<Rightarrow> False | Some n \<Rightarrow> bits > unat n) then Some (Some ENOSPC, b)
       else case bm_realloc_pages alloc want b of
         None \<Rightarrow> Some (Some ENOMEM, b)
       | Some (npages, npriv) \<Rightarrow>
          let owords = bm_words b; obits = bm_bits b; growing = (bits > obits);
              npages = (if bm_mem b \<noteq> [] \<and> growing \<and> set_new_bits
                        then take (length (bm_mem b)) (bm_mem (bm_set_surplus b)) @ drop (length (bm_mem b)) npages
                        else npages);
              b = b\<lparr>bm_mem := npages, bm_private := npriv, bm_number_of_pages := want, bm_bits := bits,
                     bm_words := words, bm_dev_capacity := capacity\<rparr>
          in do {
            b \<leftarrow> (if growing then bm_memset owords set_new_bits (words - owords) b else Some b);
            let b = (if growing \<and> set_new_bits then b\<lparr>bm_set := bm_set b + of_nat (bits - obits)\<rparr> else b);
            let b = snd (bm_clear_surplus b);
            Some (None, if growing then b
                        else let (n, b) = bm_count_bits b in b\<lparr>bm_set := of_nat n\<rparr>)
          })"

section \<open>Single bits\<close>

text \<open>\<open>find_next_bit_le\<close> and \<open>find_next_zero_bit_le\<close> within one page; the page size when there is none.\<close>

definition find_in_page :: "bool \<Rightarrow> u64 list \<Rightarrow> nat \<Rightarrow> nat \<Rightarrow> nat" where
  "find_in_page zero ws page off =
    (case find (\<lambda>i. mem_bit ws (page * BITS_PER_PAGE + i) \<noteq> zero) [off..<BITS_PER_PAGE] of
       Some i \<Rightarrow> i | None \<Rightarrow> BITS_PER_PAGE)"

lemma next_page_greater: "n < n + BITS_PER_PAGE - n mod BITS_PER_PAGE"
  using mod_less_divisor [of BITS_PER_PAGE n] mod_less_eq_dividend [of n BITS_PER_PAGE]
  by (simp add: BITS_PER_PAGE_def)

text \<open>\<open>Some None\<close> is \<open>DRBD_END_OF_BITMAP\<close>.\<close>

function find_next_loop :: "bool \<Rightarrow> drbd_bitmap \<Rightarrow> nat \<Rightarrow> nat option option" where
  "find_next_loop zero b bm_fo =
    (if bm_fo < bm_bits b then do {
       page \<leftarrow> bm_bit_to_page_idx b bm_fo;
       let bit_offset = bm_fo - bm_fo mod BITS_PER_PAGE;
       let i = find_in_page zero (bm_mem b) page (bm_fo mod BITS_PER_PAGE);
       if i < BITS_PER_PAGE
       then Some (if bit_offset + i \<ge> bm_bits b then None else Some (bit_offset + i))
       else find_next_loop zero b (bit_offset + BITS_PER_PAGE)
     } else Some None)"
  by pat_completeness auto

termination
  by (relation "measure (\<lambda>(zero, b, bm_fo). bm_bits b - bm_fo)")
    (auto simp: next_page_greater intro!: diff_less_mono2)

definition bm_find_next :: "bool \<Rightarrow> drbd_bitmap \<Rightarrow> nat \<Rightarrow> nat option option" where
  "bm_find_next zero b bm_fo = (if bm_fo > bm_bits b then Some None else find_next_loop zero b bm_fo)"

definition drbd_bm_find_next :: "drbd_bitmap \<Rightarrow> nat \<Rightarrow> nat option option" where
  "drbd_bm_find_next b bm_fo = (if bm_mem b = [] then Some None else bm_find_next False b bm_fo)"

text \<open>The page last used is marked by the sign of the count \<open>c\<close> of bits changed in it.\<close>

definition mark_changed :: "nat option \<Rightarrow> int \<Rightarrow> drbd_bitmap \<Rightarrow> drbd_bitmap" where
  "mark_changed last_page c b =
    (case last_page of None \<Rightarrow> b
     | Some p \<Rightarrow> if c < 0 then bm_set_page_lazy_writeout p b
                 else if c > 0 then bm_set_page_need_writeout p b else b)"

fun change_loop :: "bool \<Rightarrow> nat list \<Rightarrow> nat option \<Rightarrow> int \<Rightarrow> int \<Rightarrow> drbd_bitmap
    \<Rightarrow> (nat option \<times> int \<times> int \<times> drbd_bitmap) option" where
  "change_loop val [] last_page c changed_total b = Some (last_page, c, changed_total, b)"
| "change_loop val (bitnr # ns) last_page c changed_total b = do {
     page_nr \<leftarrow> bm_bit_to_page_idx b bitnr;
     let (c, changed_total, b) =
       (if last_page \<noteq> Some page_nr then (0, changed_total + c, mark_changed last_page c b)
        else (c, changed_total, b));
     let old = mem_bit (bm_mem b) bitnr;
     let c = (if val then if old then c else c + 1 else if old then c - 1 else c);
     change_loop val ns (Some page_nr) c changed_total (b\<lparr>bm_mem := mem_put val bitnr (bm_mem b)\<rparr>)
   }"

definition bm_change_bits_to :: "drbd_bitmap \<Rightarrow> nat \<Rightarrow> nat \<Rightarrow> bool \<Rightarrow> (int \<times> drbd_bitmap) option" where
  "bm_change_bits_to b s e val =
    (let e = (if e \<ge> bm_bits b then if bm_bits b \<noteq> 0 then bm_bits b - 1 else 0 else e)
     in do {
       (last_page, c, changed_total, b) \<leftarrow> change_loop val [s..<Suc e] None 0 0 b;
       let b = mark_changed last_page c b;
       let changed_total = changed_total + c;
       Some (changed_total, b\<lparr>bm_set := bm_set b + of_int changed_total\<rparr>)
     })"

definition drbd_bm_set_bits :: "drbd_bitmap \<Rightarrow> nat \<Rightarrow> nat \<Rightarrow> (int \<times> drbd_bitmap) option" where
  "drbd_bm_set_bits b s e = (if bm_mem b = [] then Some (0, b) else bm_change_bits_to b s e True)"

definition drbd_bm_clear_bits :: "drbd_bitmap \<Rightarrow> nat \<Rightarrow> nat \<Rightarrow> (int \<times> drbd_bitmap) option" where
  "drbd_bm_clear_bits b s e =
    (if bm_mem b = [] then Some (0, b) else map_option (\<lambda>(c, b). (- c, b)) (bm_change_bits_to b s e False))"

definition bm_set_full_words_within_one_page :: "nat \<Rightarrow> nat \<Rightarrow> nat \<Rightarrow> drbd_bitmap \<Rightarrow> drbd_bitmap option" where
  "bm_set_full_words_within_one_page page_nr first_word last_word b =
    (if page_nr \<ge> bm_number_of_pages b then None
     else
       let base = page_nr * LWPP;
           changed = (\<Sum>i\<leftarrow>[first_word..<last_word]. BITS_PER_LONG - hweight_long (bm_mem b ! (base + i)));
           b = b\<lparr>bm_mem := fill_words (base + first_word) (base + last_word) (\<lambda>_. -1) (bm_mem b)\<rparr>
       in Some (if changed \<noteq> 0
                then (bm_set_page_lazy_writeout page_nr b)\<lparr>bm_set := bm_set b + of_nat changed\<rparr> else b))"

fun full_pages :: "nat list \<Rightarrow> nat \<Rightarrow> drbd_bitmap \<Rightarrow> (nat \<times> drbd_bitmap) option" where
  "full_pages [] first_word b = Some (first_word, b)"
| "full_pages (page_nr # ps) first_word b = do {
     b \<leftarrow> bm_set_full_words_within_one_page page_nr first_word LWPP b;
     full_pages ps 0 b
   }"

definition drbd_bm_set_bits_fast :: "drbd_bitmap \<Rightarrow> nat \<Rightarrow> nat \<Rightarrow> drbd_bitmap option" where
  "drbd_bm_set_bits_fast b s e =
    (let sl = (s + 63) div 64 * 64; el = (e + 1) div 64 * 64 in
     if s \<le> e \<and> e - s \<le> 3 * BITS_PER_LONG then map_option snd (bm_change_bits_to b s e True)
     else do {
       b \<leftarrow> (if sl \<noteq> 0 then map_option snd (bm_change_bits_to b s (sl - 1) True) else Some b);
       let first_page = sl div BITS_PER_PAGE;
       let last_page = el div BITS_PER_PAGE;
       (first_word, b) \<leftarrow> full_pages [first_page..<last_page] (sl div 64 mod LWPP) b;
       let last_word = el div 64 mod LWPP;
       b \<leftarrow> (if last_word \<noteq> 0 then bm_set_full_words_within_one_page last_page first_word last_word b else Some b);
       if el \<le> e then map_option snd (bm_change_bits_to b el e True) else Some b
     })"

definition drbd_bm_test_bit :: "drbd_bitmap \<Rightarrow> nat \<Rightarrow> int option" where
  "drbd_bm_test_bit b bitnr =
    (if bm_mem b = [] then Some 0
     else if bitnr < bm_bits b
     then do { _ \<leftarrow> bm_bit_to_page_idx b bitnr; Some (if mem_bit (bm_mem b) bitnr then 1 else 0) }
     else Some (if bitnr = bm_bits b then -1 else 0))"

fun count_loop :: "drbd_bitmap \<Rightarrow> nat list \<Rightarrow> int \<Rightarrow> int option" where
  "count_loop b [] c = Some c"
| "count_loop b (n # ns) c = do {
     _ \<leftarrow> bm_bit_to_page_idx b n;
     count_loop b ns (if n < bm_bits b \<and> mem_bit (bm_mem b) n then c + 1 else c)
   }"

definition drbd_bm_count_bits :: "drbd_bitmap \<Rightarrow> nat \<Rightarrow> nat \<Rightarrow> int option" where
  "drbd_bm_count_bits b s e = (if bm_mem b = [] then Some 1 else count_loop b [s..<Suc e] 0)"

text \<open>\<open>S2W\<close>: a bitmap extent is 4096 bits, 64 words.\<close>

definition drbd_bm_e_weight :: "drbd_bitmap \<Rightarrow> nat \<Rightarrow> nat option" where
  "drbd_bm_e_weight b enr =
    (let s = enr * 64; e = min ((enr + 1) * 64) (bm_words b) in
     if bm_mem b = [] \<or> s \<ge> bm_words b then Some 0
     else do { _ \<leftarrow> bm_word_to_page_idx b s; Some (\<Sum>i\<leftarrow>[s..<e]. hweight_long (bm_mem b ! i)) })"

end
