(* ===== verification/Vli.thy ===== *)
theory Vli
  imports Prelude
begin

text \<open>
  The variable length integer code and the bit stream of \<open>drbd/drbd_vli.h\<close>, used to send the
  run lengths of the bitmap. The decoder is total and inverts the encoder whatever bits follow the
  code word; a value put into the stream is fetched back unchanged.

  Errors are values of \<open>vli_err\<close>; \<open>None\<close> is \<open>BUG()\<close> or an access outside the buffer.
\<close>

datatype vli_err = EINVAL | EOVERFLOW | ENOBUFS

section \<open>The code table\<close>

text \<open>\<open>LEVEL\<close>: total bits, prefix bits, prefix value.\<close>

definition vli_levels :: "(nat \<times> nat \<times> u64) list" where
  "vli_levels = [(2, 1, 0x00), (3, 2, 0x01), (5, 3, 0x03), (7, 4, 0x07), (10, 5, 0x0f), (14, 6, 0x1f),
                 (21, 8, 0x3f), (29, 8, 0x7f), (42, 8, 0xbf), (64, 8, 0xff)]"

fun decode_levels :: "(nat \<times> nat \<times> u64) list \<Rightarrow> u64 \<Rightarrow> u64 \<Rightarrow> (nat \<times> u64) option" where
  "decode_levels [] inp adj = None"
| "decode_levels ((t, b, v) # ls) inp adj =
    (if inp AND (push_bit b 1 - 1) = v
     then Some (t, drop_bit b (inp AND drop_bit (64 - t) (NOT 0)) + adj)
     else decode_levels ls inp (adj + push_bit (t - b) 1))"

definition vli_decode_bits :: "u64 \<Rightarrow> (nat \<times> u64) option" where
  "vli_decode_bits inp = decode_levels vli_levels inp 1"

fun encode_levels :: "(nat \<times> nat \<times> u64) list \<Rightarrow> u64 \<Rightarrow> u64 \<Rightarrow> u64 \<Rightarrow> vli_err + nat \<times> u64" where
  "encode_levels [] inp mx adj = Inl EOVERFLOW"
| "encode_levels ((t, b, v) # ls) inp mx adj =
    (let mx = mx + push_bit (t - b) 1 in
     if inp \<le> mx then Inr (t, push_bit b (inp - adj) OR v)
     else encode_levels ls inp mx (mx + 1))"

definition vli_encode_word :: "u64 \<Rightarrow> vli_err + nat \<times> u64" where
  "vli_encode_word inp = (if inp = 0 then Inl EINVAL else encode_levels vli_levels inp 0 1)"

section \<open>The bit stream\<close>

record bitstream =
  cur_b :: nat
  cur_bit :: nat
  bs_buf :: "u8 list"
  pad_bits :: nat

definition bitstream_cursor_advance :: "bitstream \<Rightarrow> nat \<Rightarrow> bitstream" where
  "bitstream_cursor_advance bs bits =
    (let bits = bits + cur_bit bs in bs\<lparr>cur_b := cur_b bs + bits div 8, cur_bit := bits mod 8\<rparr>)"

definition bitstream_init :: "u8 list \<Rightarrow> nat \<Rightarrow> bitstream" where
  "bitstream_init buf pad = \<lparr>cur_b = 0, cur_bit = 0, bs_buf = buf, pad_bits = pad\<rparr>"

definition bitstream_rewind :: "bitstream \<Rightarrow> bitstream" where
  "bitstream_rewind bs = bs\<lparr>cur_b := 0, cur_bit := 0, bs_buf := replicate (length (bs_buf bs)) 0\<rparr>"

text \<open>The byte loop of \<open>bitstream_put_bits\<close>, from byte \<open>p\<close> on.\<close>

function put_bytes :: "u8 list \<Rightarrow> nat \<Rightarrow> u64 \<Rightarrow> nat \<Rightarrow> nat \<Rightarrow> u8 list" where
  "put_bytes buf p val bits tmp =
    (if tmp < bits
     then put_bytes (buf[p := (buf ! p) OR ucast (drop_bit tmp val AND 0xff)]) (Suc p) val bits (tmp + 8)
     else buf)"
  by auto
termination by (relation "measure (\<lambda>(_, _, _, bits, tmp). bits - tmp)") auto

definition bitstream_put_bits :: "bitstream \<Rightarrow> u64 \<Rightarrow> nat \<Rightarrow> vli_err + nat \<times> bitstream" where
  "bitstream_put_bits bs val bits =
    (if bits = 0 then Inr (0, bs)
     else if cur_b bs + (cur_bit bs + bits - 1) div 8 \<ge> length (bs_buf bs) then Inl ENOBUFS
     else
       let val = (if bits < 64 then val AND drop_bit (64 - bits) (NOT 0) else val);
           p = cur_b bs;
           buf = (bs_buf bs)[p := (bs_buf bs ! p) OR ucast (push_bit (cur_bit bs) (val AND 0xff))];
           buf = put_bytes buf (Suc p) val bits (8 - cur_bit bs)
       in Inr (bits, bitstream_cursor_advance (bs\<lparr>bs_buf := buf\<rparr>) bits))"

text \<open>Little-endian load of at most eight bytes.\<close>

fun le64 :: "u8 list \<Rightarrow> u64" where
  "le64 [] = 0"
| "le64 (x # xs) = ucast x OR push_bit 8 (le64 xs)"

text \<open>
  The first test of \<open>bitstream_get_bits\<close> is 32 bit unsigned arithmetic. If fewer valid bits are left
  than asked for, the remaining ones are fetched.
\<close>

definition avail_bits :: "bitstream \<Rightarrow> int" where
  "avail_bits bs = 8 * (int (length (bs_buf bs)) - int (cur_b bs)) - int (cur_bit bs) - int (pad_bits bs)"

definition get_bits_count :: "bitstream \<Rightarrow> nat \<Rightarrow> int" where
  "get_bits_count bs bits =
    (if cur_b bs + unat (drop_bit 3 (of_nat (cur_bit bs) + of_nat (pad_bits bs) + of_nat bits - 1 :: u32))
        \<ge> length (bs_buf bs)
     then avail_bits bs else int bits)"

definition fetch_bits :: "bitstream \<Rightarrow> nat \<Rightarrow> u64" where
  "fetch_bits bs bits =
    (let n = (cur_bit bs + bits + 7) div 8;
         val = (if n \<noteq> 0 then push_bit (8 - cur_bit bs) (le64 (take (n - 1) (drop (cur_b bs + 1) (bs_buf bs)))) else 0);
         val = val OR ucast (drop_bit (cur_bit bs) (bs_buf bs ! cur_b bs))
     in val AND drop_bit (64 - bits) (NOT 0))"

definition bitstream_get_bits :: "bitstream \<Rightarrow> nat \<Rightarrow> (vli_err + nat \<times> u64 \<times> bitstream) option" where
  "bitstream_get_bits bs bits =
    (if bits > 64 then Some (Inl EINVAL)
     else let k = get_bits_count bs bits in
       if k = 0 then Some (Inr (0, 0, bs))
       else if k < 0 \<or> k > 64 \<or> cur_b bs \<ge> length (bs_buf bs) then None
       else Some (Inr (nat k, fetch_bits bs (nat k), bitstream_cursor_advance bs (nat k))))"

definition vli_encode_bits :: "bitstream \<Rightarrow> u64 \<Rightarrow> vli_err + nat \<times> bitstream" where
  "vli_encode_bits bs inp =
    (case vli_encode_word inp of
       Inl e \<Rightarrow> Inl e
     | Inr (bits, code) \<Rightarrow> bitstream_put_bits bs code bits)"

section \<open>The code\<close>

lemma and_low_mask: "(x :: u64) AND (2 ^ b - 1) = take_bit b x"
  by (simp add: take_bit_eq_mask mask_eq_exp_minus_1)

lemma and_high_mask:
  assumes "t \<le> 64"
  shows "(x :: u64) AND drop_bit (64 - t) (NOT 0) = take_bit t x"
  by (rule bit_word_eqI) (use assms in \<open>auto simp: bit_and_iff bit_drop_bit_eq bit_not_iff bit_take_bit_iff bit_mask_iff\<close>)

text \<open>A well-formed table: prefixes fit, and no level's prefix starts with an earlier one.\<close>

fun wf_levels :: "(nat \<times> nat \<times> u64) list \<Rightarrow> bool" where
  "wf_levels [] = True"
| "wf_levels ((t, b, v) # ls) =
    (b < t \<and> t \<le> 64 \<and> take_bit b v = v \<and> list_all (\<lambda>(t', b', v'). b \<le> b' \<and> take_bit b v' \<noteq> v) ls \<and> wf_levels ls)"

fun levels_sum :: "(nat \<times> nat \<times> u64) list \<Rightarrow> nat" where
  "levels_sum [] = 0"
| "levels_sum ((t, b, v) # ls) = 2 ^ (t - b) + levels_sum ls"

lemma vli_levels_wf: "wf_levels vli_levels"
  by (simp add: vli_levels_def take_bit_eq_mod)

lemma vli_levels_sum: "levels_sum vli_levels = 0x100000400202130"
  by (simp add: vli_levels_def)

lemma bit_word_less: "unat (y :: u64) < 2 ^ m \<Longrightarrow> bit y n \<Longrightarrow> n < m"
proof (rule ccontr)
  assume *: "unat y < 2 ^ m" "bit y n" "\<not> n < m"
  have "bit (unat y) n" using *(2) by (simp add: bit_unsigned_iff)
  moreover have "\<not> bit (unat y) n"
    using *(1,3) by (metis bit_take_bit_iff take_bit_nat_eq_self)
  ultimately show False by contradiction
qed

lemma code_prefix:
  assumes "take_bit b v = v"
  shows "take_bit b (push_bit b y OR v) = (v :: u64)"
proof (rule bit_word_eqI)
  fix n assume "n < LENGTH(64)"
  have "bit v n \<longleftrightarrow> n < b \<and> bit v n" using assms by (metis bit_take_bit_iff)
  then show "bit (take_bit b (push_bit b y OR v)) n = bit v n"
    by (auto simp: bit_take_bit_iff bit_or_iff bit_push_bit_iff)
qed

lemma code_data:
  assumes "take_bit b v = v" "unat y < 2 ^ (64 - b)"
  shows "drop_bit b (push_bit b y OR v) = (y :: u64)"
proof (rule bit_word_eqI)
  fix n assume n: "n < LENGTH(64)"
  have "\<not> bit v (b + n)" using assms(1) by (metis bit_take_bit_iff not_add_less1)
  moreover have "bit y n \<Longrightarrow> b + n < 64" using bit_word_less [OF assms(2)] by fastforce
  ultimately show "bit (drop_bit b (push_bit b y OR v)) n = bit y n"
    using n by (auto simp: bit_drop_bit_eq bit_or_iff bit_push_bit_iff)
qed

lemma code_short:
  assumes "take_bit b v = v" "unat y < 2 ^ (t - b)" "b \<le> t"
  shows "take_bit t (push_bit b y OR v) = push_bit b y OR (v :: u64)"
proof (rule bit_word_eqI)
  fix n assume n: "n < LENGTH(64)"
  have "bit v n \<Longrightarrow> n < b" using assms(1) by (metis bit_take_bit_iff)
  moreover have "b \<le> n \<Longrightarrow> bit y (n - b) \<Longrightarrow> n < t" using bit_word_less [OF assms(2)] by fastforce
  ultimately show "bit (take_bit t (push_bit b y OR v)) n = bit (push_bit b y OR v) n"
    using assms(3) by (auto simp: bit_take_bit_iff bit_or_iff bit_push_bit_iff)
qed

lemma encode_levels_prefix:
  assumes "wf_levels ls" "encode_levels ls inp mx adj = Inr (t, code)"
  shows "\<exists>b v. (t, b, v) \<in> set ls \<and> take_bit b code = v \<and> b < t \<and> t \<le> 64"
  using assms
proof (induction ls arbitrary: mx adj)
  case (Cons l ls)
  obtain t' b v where l: "l = (t', b, v)" by (metis prod_cases3)
  show ?case
  proof (cases "inp \<le> mx + 2 ^ (t' - b)")
    case True
    with Cons.prems l have "t = t'" "code = push_bit b (inp - adj) OR v" "take_bit b v = v" "b < t" "t \<le> 64"
      by (auto simp: Let_def)
    with code_prefix l show ?thesis by fastforce
  next
    case False
    with Cons.prems l have "encode_levels ls inp (mx + 2 ^ (t' - b)) (mx + 2 ^ (t' - b) + 1) = Inr (t, code)"
      "wf_levels ls" by (auto simp: Let_def)
    with Cons.IH l show ?thesis by fastforce
  qed
qed simp

lemma unat_push_bit_1: "m < 64 \<Longrightarrow> unat (2 ^ m :: u64) = 2 ^ m"
  using unat_of_nat_small [of "2 ^ m", where 'a = 64] power_strict_increasing [of m 64 "2 :: nat"] by simp

lemma level_data:
  assumes "mx < inp" "inp \<le> m" "unat (m :: u64) = unat mx + 2 ^ k"
  shows "unat (inp - (mx + 1)) < 2 ^ k"
proof -
  have u1: "unat (mx + 1) = unat mx + 1" using assms(1) by (simp add: unat_Suc_less)
  have "mx + 1 \<le> inp" using assms(1) by (rule inc_le)
  then have "unat (inp - (mx + 1)) = unat inp - (unat mx + 1)" by (simp add: unat_sub u1)
  moreover have "unat inp \<le> unat mx + 2 ^ k" using assms(2,3) by (simp add: word_le_nat_alt)
  moreover have "unat mx < unat inp" using assms(1) by (simp add: word_less_nat_alt)
  ultimately show ?thesis by linarith
qed

lemma level_max:
  assumes "unat mx + (2 ^ (t - b) + rest) < 2 ^ 64" "b < t" "t \<le> 64" "0 < b"
  shows "unat (mx + 2 ^ (t - b) :: u64) = unat mx + 2 ^ (t - b)"
proof -
  have "unat (2 ^ (t - b) :: u64) = 2 ^ (t - b)" using assms by (intro unat_push_bit_1) simp
  moreover have "unat mx + 2 ^ (t - b) < 2 ^ 64" using assms(1) by simp
  ultimately show ?thesis by (simp add: unat_add_lem [THEN iffD1])
qed

lemma encode_decode_levels:
  assumes "wf_levels ls" "unat mx + levels_sum ls < 2 ^ 64" "mx < inp"
    and "encode_levels ls inp mx (mx + 1) = Inr (t, code)" "take_bit t x = code"
    and "\<forall>(t, b, v) \<in> set ls. 0 < b"
  shows "decode_levels ls x (mx + 1) = Some (t, inp)"
  using assms(1-4,6)
proof (induction ls arbitrary: mx)
  case (Cons l ls)
  obtain t' b v where l: "l = (t', b, v)" by (metis prod_cases3)
  have wf: "b < t'" "t' \<le> 64" "take_bit b v = v" "wf_levels ls"
    "list_all (\<lambda>(t', b', v'). b \<le> b' \<and> take_bit b v' \<noteq> v) ls"
    using Cons.prems(1) by (simp_all add: l)
  have b0: "0 < b" using Cons.prems(5) l by auto
  define m where "m = mx + 2 ^ (t' - b)"
  have um: "unat m = unat mx + 2 ^ (t' - b)"
    unfolding m_def using Cons.prems(2) wf b0 by (intro level_max [of _ _ _ "levels_sum ls"]) (auto simp: l)
  show ?case
  proof (cases "inp \<le> m")
    case True
    define y where "y = inp - (mx + 1)"
    have t: "t = t'" and code: "code = push_bit b y OR v"
      using Cons.prems(4) True by (auto simp: l Let_def m_def y_def)
    have yl: "unat y < 2 ^ (t' - b)" unfolding y_def by (rule level_data [OF Cons.prems(3) True um])
    have "(2 :: nat) ^ (t' - b) \<le> 2 ^ (64 - b)" using wf(2) by (intro power_increasing) auto
    with yl have yl': "unat y < 2 ^ (64 - b)" by linarith
    have tx: "take_bit t' x = push_bit b y OR v" using assms(5) t code by simp
    have "take_bit b x = take_bit b (take_bit t' x)" using wf(1) by simp
    also have "\<dots> = v" unfolding tx by (rule code_prefix [OF wf(3)])
    finally have hit: "x AND (2 ^ b - 1) = v" by (simp add: and_low_mask)
    have "drop_bit b (x AND drop_bit (64 - t') (NOT 0)) + (mx + 1) = inp"
      unfolding and_high_mask [OF wf(2)] tx code_data [OF wf(3) yl'] by (simp add: y_def)
    with hit show ?thesis by (simp add: l t)
  next
    case False
    have enc: "encode_levels ls inp m (m + 1) = Inr (t, code)"
      using Cons.prems(4) False by (simp add: l Let_def m_def)
    obtain b' v' where lv: "(t, b', v') \<in> set ls" "take_bit b' code = v'" "b' < t"
      using encode_levels_prefix [OF wf(4) enc] by blast
    have bb: "b \<le> b'" "take_bit b v' \<noteq> v" using wf(5) lv(1) by (auto simp: list_all_iff)
    have "take_bit b x = take_bit b (take_bit b' (take_bit t x))" using bb(1) lv(3) by simp
    also have "\<dots> = take_bit b v'" using assms(5) lv(2) by simp
    finally have miss: "x AND (2 ^ b - 1) \<noteq> v" using bb(2) by (simp add: and_low_mask)
    have "decode_levels ls x (m + 1) = Some (t, inp)"
      using Cons.prems(2,5) False um wf(4) enc by (intro Cons.IH) (auto simp: l not_le)
    then show ?thesis using miss by (simp add: l m_def algebra_simps)
  qed
qed simp

lemma encode_levels_range:
  assumes "unat mx + levels_sum ls < 2 ^ 64" "wf_levels ls" "\<forall>(t, b, v) \<in> set ls. 0 < b" "mx < inp"
  shows "(\<exists>t code. encode_levels ls inp mx adj = Inr (t, code)) \<longleftrightarrow> unat inp \<le> unat mx + levels_sum ls"
    and "\<not> unat inp \<le> unat mx + levels_sum ls \<Longrightarrow> encode_levels ls inp mx adj = Inl EOVERFLOW"
proof -
  have "(if unat inp \<le> unat mx + levels_sum ls then \<exists>t code. encode_levels ls inp mx adj = Inr (t, code)
         else encode_levels ls inp mx adj = Inl EOVERFLOW)"
    using assms
  proof (induction ls arbitrary: mx adj)
    case Nil
    then show ?case by (simp add: word_less_nat_alt)
  next
    case (Cons l ls)
    obtain t' b v where l: "l = (t', b, v)" by (metis prod_cases3)
    define m where "m = mx + 2 ^ (t' - b)"
    have "unat (2 ^ (t' - b) :: u64) = 2 ^ (t' - b)"
      using Cons.prems(2,3) by (intro unat_push_bit_1) (auto simp: l)
    moreover have "unat mx + 2 ^ (t' - b) < 2 ^ 64" using Cons.prems(1) by (simp add: l)
    ultimately have um: "unat m = unat mx + 2 ^ (t' - b)"
      unfolding m_def by (simp add: unat_add_lem [THEN iffD1])
    show ?case
    proof (cases "inp \<le> m")
      case True
      then show ?thesis by (simp add: l Let_def m_def [symmetric]) (simp add: word_le_nat_alt um)
    next
      case False
      have "(if unat inp \<le> unat m + levels_sum ls then \<exists>t code. encode_levels ls inp m (m + 1) = Inr (t, code)
         else encode_levels ls inp m (m + 1) = Inl EOVERFLOW)"
        using Cons.prems um False by (intro Cons.IH) (auto simp: l)
      with False show ?thesis by (simp add: l Let_def m_def [symmetric] um add.assoc split: if_splits)
    qed
  qed
  then show "(\<exists>t code. encode_levels ls inp mx adj = Inr (t, code)) \<longleftrightarrow> unat inp \<le> unat mx + levels_sum ls"
    and "\<not> unat inp \<le> unat mx + levels_sum ls \<Longrightarrow> encode_levels ls inp mx adj = Inl EOVERFLOW"
    by (auto split: if_splits)
qed

lemma vli_levels_pos: "\<forall>(t, b, v) \<in> set vli_levels. 0 < b"
  by (simp add: vli_levels_def)

lemma vli_decode_code:
  assumes "vli_encode_word inp = Inr (t, code)" "take_bit t x = code"
  shows "vli_decode_bits x = Some (t, inp)"
proof -
  have nz: "inp \<noteq> 0" using assms(1) by (auto simp: vli_encode_word_def)
  then have pos: "0 < inp" by (simp add: word_gt_0)
  have sum: "unat (0 :: u64) + levels_sum vli_levels < 2 ^ 64" by (simp add: vli_levels_sum)
  show ?thesis
    using encode_decode_levels [OF vli_levels_wf sum pos _ assms(2) vli_levels_pos] assms(1) nz
    by (simp add: vli_encode_word_def vli_decode_bits_def)
qed

lemma vli_encode_some:
  assumes "1 \<le> unat inp" "unat inp \<le> 0x100000400202130"
  shows "\<exists>t code. vli_encode_word inp = Inr (t, code)"
proof -
  have sum: "unat (0 :: u64) + levels_sum vli_levels < 2 ^ 64" by (simp add: vli_levels_sum)
  have "inp \<noteq> 0" using assms(1) by auto
  then show ?thesis using encode_levels_range(1) [OF sum vli_levels_wf vli_levels_pos, of inp 1] assms(2)
    by (simp add: vli_encode_word_def vli_levels_sum word_gt_0)
qed

text \<open>
  C13: Encoding is total on exactly the values from 1 to \<open>0x100000400202130\<close>, zero is refused with
  \<open>EINVAL\<close> and larger values with \<open>EOVERFLOW\<close>; the decoder, given any 64 bits that start with the
  code word of a value, whatever follows it, consumes exactly the code word and returns the value.
\<close>

theorem vli_roundtrip:
  "(\<forall>t code x. vli_encode_word inp = Inr (t, code) \<longrightarrow> take_bit t x = code \<longrightarrow> vli_decode_bits x = Some (t, inp))
   \<and> ((\<exists>t code. vli_encode_word inp = Inr (t, code)) \<longleftrightarrow> 1 \<le> unat inp \<and> unat inp \<le> 0x100000400202130)
   \<and> vli_encode_word 0 = Inl EINVAL
   \<and> (0x100000400202130 < unat inp \<longrightarrow> vli_encode_word inp = Inl EOVERFLOW)"
proof (cases "inp = 0")
  case True
  then show ?thesis by (simp add: vli_encode_word_def)
next
  case False
  then have pos: "0 < inp" by (simp add: word_gt_0)
  have sum: "unat (0 :: u64) + levels_sum vli_levels < 2 ^ 64" by (simp add: vli_levels_sum)
  note range = encode_levels_range [OF sum vli_levels_wf vli_levels_pos pos, of 1]
  have "\<forall>t code x. vli_encode_word inp = Inr (t, code) \<longrightarrow> take_bit t x = code \<longrightarrow> vli_decode_bits x = Some (t, inp)"
    using vli_decode_code by blast
  moreover have "1 \<le> unat inp" using False by (simp add: unat_gt_0 Suc_le_eq)
  ultimately show ?thesis
    using range False by (simp add: vli_encode_word_def vli_levels_sum)
qed

theorem vli_roundtrip_witness:
  "vli_encode_word 5 = Inr (5, 3) \<and> take_bit 5 (0xFFFFFFFFFFFFFFE3 :: u64) = 3
   \<and> vli_decode_bits 0xFFFFFFFFFFFFFFE3 = Some (5, 5)"
proof -
  have e: "vli_encode_word 5 = Inr (5, 3)" by code_simp
  have t: "take_bit 5 (0xFFFFFFFFFFFFFFE3 :: u64) = 3" by (simp add: take_bit_eq_mod)
  show ?thesis using vli_roundtrip [of 5, THEN conjunct1] e t by blast
qed

lemma table_covers_byte:
  "\<forall>r \<in> set [0..<256]. (r :: nat) = 255 \<or> r = 191 \<or> r = 127 \<or> r = 63 \<or> r mod 64 = 31
   \<or> r mod 32 = 15 \<or> r mod 16 = 7 \<or> r mod 8 = 3 \<or> r mod 4 = 1 \<or> r mod 2 = 0"
  by code_simp

lemma table_covers:
  "(x :: u64) mod 256 = 255 \<or> x mod 256 = 191 \<or> x mod 256 = 127 \<or> x mod 256 = 63 \<or> x mod 64 = 31
   \<or> x mod 32 = 15 \<or> x mod 16 = 7 \<or> x mod 8 = 3 \<or> x mod 4 = 1 \<or> x mod 2 = 0"
proof -
  have "unat x mod 256 \<in> set [0..<256]" by simp
  from table_covers_byte [rule_format, OF this] show ?thesis
    by (simp add: word_unat_eq_iff unat_mod mod_mod_cancel)
qed

lemma vli_decode_some: "\<exists>t out. vli_decode_bits x = Some (t, out) \<and> t \<in> {2, 3, 5, 7, 10, 14, 21, 29, 42, 64}"
  using table_covers [of x]
  unfolding vli_decode_bits_def vli_levels_def decode_levels.simps push_bit_of_1 and_low_mask
  by (auto simp: take_bit_eq_mod)

text \<open>
  C29: Decoding never reaches \<open>BUG()\<close>: the prefixes of the table cover every 64 bit input, so the
  decoder consumes between 2 and 64 bits of whatever the peer sent.
\<close>

theorem vli_decode_total: "\<exists>t out. vli_decode_bits x = Some (t, out) \<and> t \<in> {2, 3, 5, 7, 10, 14, 21, 29, 42, 64}"
  by (rule vli_decode_some)

section \<open>The stream as a sequence of bits\<close>

declare put_bytes.simps [simp del]

definition stream_bit :: "u8 list \<Rightarrow> nat \<Rightarrow> bool" where
  "stream_bit buf n = bit (buf ! (n div 8)) (n mod 8)"

definition bs_pos :: "bitstream \<Rightarrow> nat" where
  "bs_pos bs = 8 * cur_b bs + cur_bit bs"

definition bs_ok :: "bitstream \<Rightarrow> bool" where
  "bs_ok bs \<longleftrightarrow> cur_bit bs < 8 \<and> bs_pos bs \<le> 8 * length (bs_buf bs)"

lemma bit_byte_0xff: "bit (x AND 0xff :: u64) k \<longleftrightarrow> k < 8 \<and> bit x k"
proof -
  have "(0xff :: u64) = mask 8" by (simp add: mask_eq_exp_minus_1)
  then show ?thesis by (simp only: bit_and_iff bit_mask_iff) auto
qed

lemma bit_ucast_u8: "bit (ucast (x :: u64) :: u8) k \<longleftrightarrow> k < 8 \<and> bit x k"
  by (simp add: bit_unsigned_iff)

lemma stream_bit_or:
  assumes "p < length buf" "n < 8 * length buf"
  shows "stream_bit (buf[p := buf ! p OR w]) n \<longleftrightarrow> stream_bit buf n \<or> n div 8 = p \<and> bit w (n mod 8)"
  using assms by (auto simp: stream_bit_def bit_or_iff nth_list_update)

lemma put_bytes_bits:
  assumes "\<forall>m. bit val m \<longrightarrow> m < bits" "8 * p + (bits - tmp) \<le> 8 * length buf" "n < 8 * length buf"
  shows "length (put_bytes buf p val bits tmp) = length buf
    \<and> (stream_bit (put_bytes buf p val bits tmp) n \<longleftrightarrow> stream_bit buf n \<or> 8 * p \<le> n \<and> bit val (n - 8 * p + tmp))"
  using assms
proof (induction buf p val bits tmp rule: put_bytes.induct)
  case (1 buf p val bits tmp)
  show ?case
  proof (cases "tmp < bits")
    case True
    define w where "w = (ucast (drop_bit tmp val AND 0xff) :: u8)"
    have p: "p < length buf" using 1(3) True by linarith
    have w: "bit w k \<longleftrightarrow> k < 8 \<and> bit val (tmp + k)" for k
      unfolding w_def by (auto simp: bit_ucast_u8 bit_byte_0xff bit_drop_bit_eq)
    have IH: "length (put_bytes (buf[p := buf ! p OR w]) (Suc p) val bits (tmp + 8)) = length buf
      \<and> (stream_bit (put_bytes (buf[p := buf ! p OR w]) (Suc p) val bits (tmp + 8)) n
         \<longleftrightarrow> stream_bit (buf[p := buf ! p OR w]) n \<or> 8 * Suc p \<le> n \<and> bit val (n - 8 * Suc p + (tmp + 8)))"
      using 1(1) [OF True] 1(2-4) True p by (auto simp: w_def)
    have "n div 8 = p \<and> bit w (n mod 8) \<or> 8 * Suc p \<le> n \<and> bit val (n - 8 * Suc p + (tmp + 8))
        \<longleftrightarrow> 8 * p \<le> n \<and> bit val (n - 8 * p + tmp)"
    proof (cases "n div 8 = p")
      case True
      then have "8 * p \<le> n" "n mod 8 = n - 8 * p" "\<not> 8 * Suc p \<le> n"
        by (auto simp: minus_mult_div_eq_mod)
      moreover from this have "n - 8 * p < 8" by linarith
      ultimately show ?thesis using True by (simp add: w add.commute)
    next
      case False
      then have "8 * p \<le> n \<longleftrightarrow> 8 * Suc p \<le> n" by auto
      with False show ?thesis by auto
    qed
    then show ?thesis
      using IH stream_bit_or [OF p 1(4)] True by (subst (1 2) put_bytes.simps) (auto simp: w_def)
  next
    case False
    then have "\<not> n - 8 * p + tmp < bits" by linarith
    then have "\<not> bit val (n - 8 * p + tmp)" using 1(2) by blast
    with False show ?thesis by (subst (1 2) put_bytes.simps) simp
  qed
qed

lemma put_mask:
  assumes "0 < bits" "bits \<le> 64"
  shows "(if bits < 64 then val AND drop_bit (64 - bits) (NOT 0) else val) = take_bit bits (val :: u64)"
  using assms and_high_mask [of bits val] by (cases "bits = 64") simp_all

lemma advance_pos: "cur_bit bs < 8 \<Longrightarrow> bs_pos (bitstream_cursor_advance bs k) = bs_pos bs + k
   \<and> cur_bit (bitstream_cursor_advance bs k) < 8
   \<and> bs_buf (bitstream_cursor_advance bs k) = bs_buf bs \<and> pad_bits (bitstream_cursor_advance bs k) = pad_bits bs"
  by (simp add: bitstream_cursor_advance_def bs_pos_def Let_def)

lemma put_room: "0 < bits \<Longrightarrow> (length (bs_buf bs) \<le> cur_b bs + (cur_bit bs + bits - Suc 0) div 8)
    \<longleftrightarrow> 8 * length (bs_buf bs) < bs_pos bs + bits"
  unfolding bs_pos_def by linarith

lemma bitstream_put_bits_spec:
  assumes "bs_ok bs" "bits \<le> 64"
  shows "if 0 < bits \<and> 8 * length (bs_buf bs) < bs_pos bs + bits
    then bitstream_put_bits bs val bits = Inl ENOBUFS
    else \<exists>bs'. bitstream_put_bits bs val bits = Inr (bits, bs') \<and> bs_ok bs' \<and> bs_pos bs' = bs_pos bs + bits
       \<and> length (bs_buf bs') = length (bs_buf bs) \<and> pad_bits bs' = pad_bits bs
       \<and> (\<forall>n < 8 * length (bs_buf bs). stream_bit (bs_buf bs') n
            \<longleftrightarrow> stream_bit (bs_buf bs) n \<or> bs_pos bs \<le> n \<and> n < bs_pos bs + bits \<and> bit val (n - bs_pos bs))"
proof (cases "bits = 0")
  case True
  then show ?thesis using assms(1) by (auto simp: bitstream_put_bits_def)
next
  case False
  show ?thesis
  proof (cases "8 * length (bs_buf bs) < bs_pos bs + bits")
    case True
    with False show ?thesis by (simp add: bitstream_put_bits_def put_room)
  next
    case room: False
    define v p cb where "v = take_bit bits val" and "p = cur_b bs" and "cb = cur_bit bs"
    define w where "w = (ucast (push_bit cb (v AND 0xff)) :: u8)"
    define b1 where "b1 = (bs_buf bs)[p := bs_buf bs ! p OR w]"
    define b2 where "b2 = put_bytes b1 (Suc p) v bits (8 - cb)"
    have cb: "cb < 8" using assms(1) by (simp add: bs_ok_def cb_def)
    have pl: "p < length (bs_buf bs)" using room False by (simp add: bs_pos_def p_def)
    have v: "\<forall>m. bit v m \<longrightarrow> m < bits" by (simp add: v_def bit_take_bit_iff)
    have eq: "bitstream_put_bits bs val bits = Inr (bits, bitstream_cursor_advance (bs\<lparr>bs_buf := b2\<rparr>) bits)"
      using False room put_mask [of bits val] assms(2)
      by (simp add: bitstream_put_bits_def put_room Let_def b2_def b1_def w_def v_def p_def cb_def)
    have wb: "bit w k \<longleftrightarrow> k < 8 \<and> cb \<le> k \<and> bit v (k - cb)" for k
      unfolding w_def bit_ucast_u8 bit_push_bit_iff bit_byte_0xff by auto
    have bits: "length b2 = length (bs_buf bs) \<and> (stream_bit b2 n \<longleftrightarrow> stream_bit (bs_buf bs) n
         \<or> bs_pos bs \<le> n \<and> n < bs_pos bs + bits \<and> bit val (n - bs_pos bs))" if n: "n < 8 * length (bs_buf bs)" for n
    proof -
      have "length b1 = length (bs_buf bs)" by (simp add: b1_def)
      moreover from this have fits: "8 * Suc p + (bits - (8 - cb)) \<le> 8 * length b1"
        using room pl cb unfolding bs_pos_def p_def [symmetric] cb_def [symmetric]
        by (cases "bits \<le> 8 - cb") auto
      ultimately have A: "length b2 = length (bs_buf bs) \<and> (stream_bit b2 n \<longleftrightarrow> stream_bit b1 n \<or> 8 * Suc p \<le> n \<and> bit v (n - 8 * Suc p + (8 - cb)))"
        unfolding b2_def using put_bytes_bits [OF v, of "Suc p" "8 - cb" b1 n] n fits by simp
      have B: "stream_bit b1 n \<longleftrightarrow> stream_bit (bs_buf bs) n \<or> n div 8 = p \<and> bit w (n mod 8)"
        unfolding b1_def by (rule stream_bit_or [OF pl n])
      have C: "n div 8 = p \<and> bit w (n mod 8) \<or> 8 * Suc p \<le> n \<and> bit v (n - 8 * Suc p + (8 - cb))
          \<longleftrightarrow> bs_pos bs \<le> n \<and> bit v (n - bs_pos bs)"
      proof (cases "n div 8 = p")
        case True
        then have "n mod 8 = n - 8 * p" "8 * p \<le> n" "\<not> 8 * Suc p \<le> n" by (auto simp: minus_mult_div_eq_mod)
        moreover from this have "n - 8 * p < 8" "cb \<le> n - 8 * p \<longleftrightarrow> bs_pos bs \<le> n" "n - 8 * p - cb = n - bs_pos bs"
          unfolding bs_pos_def p_def [symmetric] cb_def [symmetric] by linarith+
        ultimately show ?thesis using True by (simp add: wb)
      next
        case False
        have "8 * Suc p \<le> n \<longleftrightarrow> bs_pos bs \<le> n"
          using False cb by (auto simp: bs_pos_def p_def [symmetric] cb_def [symmetric])
        moreover have "8 * Suc p \<le> n \<Longrightarrow> n - 8 * Suc p + (8 - cb) = n - bs_pos bs"
          using cb by (simp add: bs_pos_def p_def [symmetric] cb_def [symmetric])
        ultimately show ?thesis using False by auto
      qed
      have vb: "bit v m \<longleftrightarrow> m < bits \<and> bit val m" for m by (simp add: v_def bit_take_bit_iff)
      have "n - bs_pos bs < bits \<longleftrightarrow> n < bs_pos bs + bits" if "bs_pos bs \<le> n" using that by linarith
      then have D: "bs_pos bs \<le> n \<and> bit v (n - bs_pos bs)
          \<longleftrightarrow> bs_pos bs \<le> n \<and> n < bs_pos bs + bits \<and> bit val (n - bs_pos bs)"
        unfolding vb by blast
      show ?thesis using A B C D by blast
    qed
    have "0 < 8 * length (bs_buf bs)" using pl by linarith
    from bits [OF this] have "length b2 = length (bs_buf bs)" by blast
    then show ?thesis
      using room False bits advance_pos [of "bs\<lparr>bs_buf := b2\<rparr>" bits] cb
      by (auto simp: eq bs_ok_def bs_pos_def cb_def)
  qed
qed

lemma bit_le64:
  assumes "m < 64"
  shows "bit (le64 xs) m \<longleftrightarrow> m < 8 * length xs \<and> bit (xs ! (m div 8)) (m mod 8)"
  using assms
proof (induction xs arbitrary: m)
  case (Cons x xs)
  have "bit (le64 (x # xs)) m \<longleftrightarrow> (m < 8 \<and> bit x m) \<or> (8 \<le> m \<and> bit (le64 xs) (m - 8))"
    using Cons.prems by (auto simp: bit_or_iff bit_push_bit_iff bit_unsigned_iff dest: bit_imp_le_length)
  also have "\<dots> \<longleftrightarrow> m < 8 * length (x # xs) \<and> bit ((x # xs) ! (m div 8)) (m mod 8)"
  proof (cases "m < 8")
    case False
    then obtain q where q: "m = 8 + q" by (metis le_Suc_ex not_less)
    then have "m div 8 = Suc (q div 8)" "m mod 8 = q mod 8" by simp_all
    with q Cons show ?thesis by auto
  qed auto
  finally show ?case .
qed simp

lemma bit_fetch_bits:
  assumes "cur_bit bs < 8" "0 < k" "k \<le> 64" "bs_pos bs + k \<le> 8 * length (bs_buf bs)" "j < 64"
  shows "bit (fetch_bits bs k) j \<longleftrightarrow> j < k \<and> stream_bit (bs_buf bs) (bs_pos bs + j)"
proof (cases "j < k")
  case False
  then show ?thesis
    unfolding fetch_bits_def Let_def and_high_mask [OF assms(3)] bit_take_bit_iff by simp
next
  case True
  define cb p n where "cb = cur_bit bs" and "p = cur_b bs" and "n = (cb + k + 7) div 8"
  define xs where "xs = take (n - 1) (drop (p + 1) (bs_buf bs))"
  have n: "n \<noteq> 0" using assms(2) by (simp add: n_def)
  have len: "length xs = n - 1"
    using assms(2,4) unfolding xs_def n_def bs_pos_def p_def cb_def length_take length_drop by linarith
  have f: "fetch_bits bs k = take_bit k (push_bit (8 - cb) (le64 xs) OR ucast (drop_bit cb (bs_buf bs ! p)))"
    using n unfolding fetch_bits_def Let_def xs_def n_def p_def cb_def and_high_mask [OF assms(3)] by simp
  have lo: "bit (ucast (drop_bit cb (bs_buf bs ! p)) :: u64) j \<longleftrightarrow> bit (bs_buf bs ! p) (cb + j)"
    using assms(5) by (simp add: bit_unsigned_iff bit_drop_bit_eq)
  show ?thesis
  proof (cases "cb + j < 8")
    case low: True
    then have "stream_bit (bs_buf bs) (bs_pos bs + j) \<longleftrightarrow> bit (bs_buf bs ! p) (cb + j)"
      by (simp add: stream_bit_def bs_pos_def p_def cb_def add.assoc)
    moreover have "\<not> 8 - cb \<le> j" using low by linarith
    then have "\<not> bit (push_bit (8 - cb) (le64 xs)) j" by (simp add: bit_push_bit_iff)
    ultimately show ?thesis using True lo by (simp add: f bit_take_bit_iff bit_or_iff)
  next
    case high: False
    define m where "m = j - (8 - cb)"
    have m: "j = m + (8 - cb)" "m < 64" using high assms(1,5) by (auto simp: m_def cb_def)
    have "\<not> bit (bs_buf bs ! p) (cb + j)" using high by (auto dest: bit_imp_le_length)
    moreover have "bit (push_bit (8 - cb) (le64 xs)) j \<longleftrightarrow> bit (le64 xs) m"
      using m(1) assms(5) by (simp add: bit_push_bit_iff)
    moreover have pos: "bs_pos bs + j = 8 * (p + 1) + m"
      using m(1) assms(1) by (simp add: bs_pos_def p_def cb_def)
    have mlt: "m < 8 * (n - 1)" using True m(1) assms(1) unfolding n_def cb_def by linarith
    have "bit (le64 xs) m \<longleftrightarrow> stream_bit (bs_buf bs) (bs_pos bs + j)"
    proof -
      have "m div 8 < n - 1" using mlt by (simp add: less_mult_imp_div_less mult.commute)
      moreover have "8 * (p + 1) + m < 8 * length (bs_buf bs)" using assms(4) True pos by linarith
      then have "(8 * (p + 1) + m) div 8 < length (bs_buf bs)"
        by (intro less_mult_imp_div_less) (simp add: mult.commute)
      then have "p + 1 + m div 8 < length (bs_buf bs)" by simp
      ultimately have "xs ! (m div 8) = bs_buf bs ! (p + 1 + m div 8)" by (simp add: xs_def)
      moreover have "(8 * (p + 1) + m) div 8 = p + 1 + m div 8" "(8 * (p + 1) + m) mod 8 = m mod 8"
        by (simp, rule mod_mult_self4)
      ultimately show ?thesis using mlt by (simp only: bit_le64 [OF m(2)] len stream_bit_def pos simp_thms)
    qed
    ultimately show ?thesis using True lo by (simp add: f bit_take_bit_iff bit_or_iff)
  qed
qed

lemma get_bits_count_eq:
  assumes "cur_bit bs < 8" "pad_bits bs < 8" "0 < bits" "bits \<le> 64"
  shows "get_bits_count bs bits = (if avail_bits bs < int bits then avail_bits bs else int bits)"
proof -
  define e where "e = cur_bit bs + pad_bits bs + bits - 1"
  have w: "(of_nat (cur_bit bs) + of_nat (pad_bits bs) + of_nat bits - 1 :: u32) = of_nat e"
    using assms(3) by (simp add: e_def of_nat_diff)
  have "e < 2 ^ 32" using assms by (simp add: e_def)
  then have "unat (drop_bit 3 (of_nat e :: u32)) = e div 8"
    by (simp add: drop_bit_eq_div unat_div unat_of_nat_small)
  then have "get_bits_count bs bits = (if cur_b bs + e div 8 \<ge> length (bs_buf bs) then avail_bits bs else int bits)"
    by (simp add: get_bits_count_def w)
  moreover have "cur_b bs + e div 8 \<ge> length (bs_buf bs) \<longleftrightarrow> 8 * length (bs_buf bs) \<le> 8 * cur_b bs + e"
    by linarith
  moreover have "\<dots> \<longleftrightarrow> avail_bits bs < int bits"
    using assms(3) by (simp add: avail_bits_def e_def) linarith
  ultimately show ?thesis by simp
qed

lemma bitstream_get_bits_spec:
  assumes "bs_ok bs" "pad_bits bs < 8" "0 < bits" "bits \<le> 64" "0 \<le> avail_bits bs"
  shows "\<exists>v bs'. bitstream_get_bits bs bits = Some (Inr (nat (min (avail_bits bs) (int bits)), v, bs'))
     \<and> bs_pos bs' = bs_pos bs + nat (min (avail_bits bs) (int bits)) \<and> bs_ok bs'
     \<and> bs_buf bs' = bs_buf bs \<and> pad_bits bs' = pad_bits bs
     \<and> (\<forall>j < 64. bit v j \<longleftrightarrow> j < nat (min (avail_bits bs) (int bits)) \<and> stream_bit (bs_buf bs) (bs_pos bs + j))"
proof -
  define k where "k = nat (min (avail_bits bs) (int bits))"
  have cb: "cur_bit bs < 8" using assms(1) by (simp add: bs_ok_def)
  have kc: "get_bits_count bs bits = int k"
    using get_bits_count_eq [OF cb assms(2-4)] assms(5) by (simp add: k_def min_def)
  have k64: "k \<le> 64" using assms(4) by (simp add: k_def)
  have room: "bs_pos bs + k \<le> 8 * length (bs_buf bs)"
    using assms(1,5) by (simp add: k_def avail_bits_def bs_pos_def bs_ok_def)
  show ?thesis
  proof (cases "k = 0")
    case True
    then show ?thesis using assms(1,4) kc by (simp add: bitstream_get_bits_def k_def [symmetric])
  next
    case False
    then have "cur_b bs < length (bs_buf bs)" using room by (simp add: bs_pos_def)
    then have "bitstream_get_bits bs bits = Some (Inr (k, fetch_bits bs k, bitstream_cursor_advance bs k))"
      using assms(4) False kc k64 by (simp add: bitstream_get_bits_def)
    moreover have "\<forall>j < 64. bit (fetch_bits bs k) j \<longleftrightarrow> j < k \<and> stream_bit (bs_buf bs) (bs_pos bs + j)"
      using bit_fetch_bits [OF cb _ k64 room] False by simp
    ultimately show ?thesis
      using advance_pos [OF cb, of k] room by (simp add: k_def [symmetric] bs_ok_def)
  qed
qed

text \<open>
  C28: The bit stream delivers what was put into it. \<open>bitstream_put_bits\<close> stores up to 64 bits exactly
  when they fit (\<open>ENOBUFS\<close> otherwise), advances the cursor by that many bits and changes no other
  bit; \<open>bitstream_get_bits\<close> from the position where they were stored, over a buffer that was clear
  there, returns the value and stays inside the buffer.
\<close>

theorem bitstream_put_get:
  assumes "bs_ok bs" "0 < bits" "bits \<le> 64" "pad_bits bs < 8"
    and "bs_pos bs + bits + pad_bits bs \<le> 8 * length (bs_buf bs)"
    and "\<forall>n. bs_pos bs \<le> n \<and> n < bs_pos bs + bits \<longrightarrow> \<not> stream_bit (bs_buf bs) n"
  shows "\<exists>bs' bs''. bitstream_put_bits bs val bits = Inr (bits, bs')
    \<and> bs_pos bs' = bs_pos bs + bits \<and> length (bs_buf bs') = length (bs_buf bs)
    \<and> (\<forall>n < 8 * length (bs_buf bs). \<not> (bs_pos bs \<le> n \<and> n < bs_pos bs + bits)
          \<longrightarrow> stream_bit (bs_buf bs') n = stream_bit (bs_buf bs) n)
    \<and> bitstream_get_bits (bs'\<lparr>cur_b := cur_b bs, cur_bit := cur_bit bs\<rparr>) bits = Some (Inr (bits, take_bit bits val, bs''))"
proof -
  have "\<not> 8 * length (bs_buf bs) < bs_pos bs + bits" using assms(5) by simp
  with bitstream_put_bits_spec [OF assms(1,3), of val] obtain bs' where put:
    "bitstream_put_bits bs val bits = Inr (bits, bs')" "bs_pos bs' = bs_pos bs + bits"
    "length (bs_buf bs') = length (bs_buf bs)" "pad_bits bs' = pad_bits bs"
    "\<forall>n < 8 * length (bs_buf bs). stream_bit (bs_buf bs') n
       \<longleftrightarrow> stream_bit (bs_buf bs) n \<or> bs_pos bs \<le> n \<and> n < bs_pos bs + bits \<and> bit val (n - bs_pos bs)"
    by auto
  define r where "r = bs'\<lparr>cur_b := cur_b bs, cur_bit := cur_bit bs\<rparr>"
  have r: "bs_pos r = bs_pos bs" "bs_buf r = bs_buf bs'" "pad_bits r = pad_bits bs" "cur_bit r = cur_bit bs" "cur_b r = cur_b bs"
    by (simp_all add: r_def bs_pos_def put(4))
  have ok: "bs_ok r" using assms(1) by (simp add: bs_ok_def r put(3))
  have av: "int bits \<le> avail_bits r"
    using assms(5) by (simp add: avail_bits_def r put(3) bs_pos_def)
  have k: "nat (min (avail_bits r) (int bits)) = bits" "0 \<le> avail_bits r" using av by simp_all
  from bitstream_get_bits_spec [OF ok _ assms(2,3) k(2)] assms(4) obtain v bs'' where get:
    "bitstream_get_bits r bits = Some (Inr (bits, v, bs''))"
    "\<forall>j < 64. bit v j \<longleftrightarrow> j < bits \<and> stream_bit (bs_buf bs') (bs_pos bs + j)"
    by (auto simp: k r)
  have "v = take_bit bits val"
  proof (rule bit_word_eqI)
    fix j assume "j < LENGTH(64)"
    then show "bit v j = bit (take_bit bits val) j"
      using get(2) put(5) assms(5,6) by (auto simp: bit_take_bit_iff)
  qed
  with put get show ?thesis unfolding r_def by blast
qed

definition ex_stream :: bitstream where
  "ex_stream = \<lparr>cur_b = 0, cur_bit = 5, bs_buf = replicate 4 0, pad_bits = 0\<rparr>"

theorem bitstream_put_get_witness:
  "\<exists>bs' bs''. bitstream_put_bits ex_stream 0x1AB 9 = Inr (9, bs')
    \<and> bitstream_get_bits (bs'\<lparr>cur_b := 0, cur_bit := 5\<rparr>) 9 = Some (Inr (9, 0x1AB, bs''))"
proof -
  have "stream_bit (bs_buf ex_stream) n = False" if "n < 32" for n
  proof -
    have "n div 8 < 4" using that by simp
    then show ?thesis by (simp add: stream_bit_def ex_stream_def)
  qed
  then have "\<forall>n. bs_pos ex_stream \<le> n \<and> n < bs_pos ex_stream + 9 \<longrightarrow> \<not> stream_bit (bs_buf ex_stream) n"
    by (simp add: bs_pos_def ex_stream_def)
  moreover have "bs_ok ex_stream" "0 < (9 :: nat)" "(9 :: nat) \<le> 64" "pad_bits ex_stream < 8"
    "bs_pos ex_stream + 9 + pad_bits ex_stream \<le> 8 * length (bs_buf ex_stream)"
    by (simp_all add: bs_ok_def bs_pos_def ex_stream_def)
  ultimately show ?thesis
    using bitstream_put_get [of ex_stream 9 "0x1AB"] by (auto simp: ex_stream_def take_bit_eq_mod)
qed

section \<open>The interface of the code\<close>

text \<open>
  What the bitmap transfer relies on: the code of a value is short, decoding a word that starts with
  it gives the value back, and decoding always consumes something and yields a positive run length.
\<close>

locale prefix_code =
  fixes encode :: "u64 \<Rightarrow> vli_err + nat \<times> u64" and decode :: "u64 \<Rightarrow> (nat \<times> u64) option"
  assumes decode_encode: "encode x = Inr (t, c) \<Longrightarrow> take_bit t w = c \<Longrightarrow> decode w = Some (t, x)"
    and code_bounds: "encode x = Inr (t, c) \<Longrightarrow> 0 < t \<and> t \<le> 64 \<and> take_bit t c = c"
    and decode_total: "\<exists>t x. decode w = Some (t, x) \<and> 0 < t \<and> t \<le> 64 \<and> 0 < unat x"
begin

text \<open>From position \<open>p\<close> to \<open>q\<close> the bits are the codes of \<open>xs\<close>.\<close>

fun coded :: "(nat \<Rightarrow> bool) \<Rightarrow> nat \<Rightarrow> u64 list \<Rightarrow> nat \<Rightarrow> bool" where
  "coded bits p [] q \<longleftrightarrow> p = q"
| "coded bits p (x # xs) q \<longleftrightarrow> (\<exists>t c. encode x = Inr (t, c) \<and> (\<forall>j < t. bits (p + j) = bit c j) \<and> coded bits (p + t) xs q)"

lemma coded_le: "coded bits p xs q \<Longrightarrow> p \<le> q"
  by (induction xs arbitrary: p) fastforce+

lemma coded_cong: "coded bits p xs q \<Longrightarrow> \<forall>n < q. bits n = bits' n \<Longrightarrow> coded bits' p xs q"
proof (induction xs arbitrary: p)
  case (Cons x xs)
  then obtain t c where c: "encode x = Inr (t, c)" "\<forall>j < t. bits (p + j) = bit c j" "coded bits (p + t) xs q" by auto
  then have "p + t \<le> q" by (intro coded_le)
  then show ?case using c Cons.prems(2) Cons.IH [OF c(3)] by auto
qed simp

lemma coded_snoc:
  "coded bits p xs q \<Longrightarrow> encode x = Inr (t, c) \<Longrightarrow> \<forall>j < t. bits (q + j) = bit c j \<Longrightarrow> coded bits p (xs @ [x]) (q + t)"
  by (induction xs arbitrary: p) auto

text \<open>A window of \<open>k\<close> bits at \<open>p\<close>, full or up to the end of the stream, is enough to decode the next value.\<close>

lemma decode_window:
  assumes "coded bits p (x # xs) q" "\<forall>j < 64. bit w j \<longleftrightarrow> j < k \<and> bits (p + j)" "k = 64 \<or> p + k = q"
  shows "\<exists>t. decode w = Some (t, x) \<and> 0 < t \<and> t \<le> k \<and> coded bits (p + t) xs q"
proof -
  obtain t c where c: "encode x = Inr (t, c)" "\<forall>j < t. bits (p + j) = bit c j" "coded bits (p + t) xs q"
    using assms(1) by auto
  have t: "0 < t" "t \<le> 64" "take_bit t c = c" using code_bounds [OF c(1)] by auto
  have "t \<le> k" using assms(3) coded_le [OF c(3)] t(2) by auto
  then have "bit (take_bit t w) j = bit (take_bit t c) j" if "j < 64" for j
    using that assms(2) c(2) by (auto simp: bit_take_bit_iff)
  then have "take_bit t w = take_bit t c" by (intro bit_word_eqI) simp
  then show ?thesis using decode_encode [OF c(1)] t \<open>t \<le> k\<close> c(3) by auto
qed

end

lemma encode_levels_short:
  assumes "wf_levels ls" "unat mx + levels_sum ls < 2 ^ 64" "mx < inp"
    "encode_levels ls inp mx (mx + 1) = Inr (t, code)" "\<forall>(t, b, v) \<in> set ls. 0 < b"
  shows "take_bit t code = code"
  using assms
proof (induction ls arbitrary: mx)
  case (Cons l ls)
  obtain t' b v where l: "l = (t', b, v)" by (metis prod_cases3)
  define m where "m = mx + 2 ^ (t' - b)"
  have wf: "b < t'" "t' \<le> 64" "take_bit b v = v" "wf_levels ls" "0 < b" using Cons.prems(1,5) by (auto simp: l)
  have um: "unat m = unat mx + 2 ^ (t' - b)"
    unfolding m_def using Cons.prems(2) wf by (intro level_max [of _ _ _ "levels_sum ls"]) (auto simp: l)
  show ?case
  proof (cases "inp \<le> m")
    case True
    then have "t = t'" "code = push_bit b (inp - (mx + 1)) OR v" using Cons.prems(4) by (auto simp: l Let_def m_def)
    then show ?thesis using code_short [OF wf(3) level_data [OF Cons.prems(3) True um]] wf(1) by simp
  next
    case False
    then have "encode_levels ls inp m (m + 1) = Inr (t, code)" using Cons.prems(4) by (simp add: l Let_def m_def)
    then show ?thesis using Cons.prems(2,5) False um wf(4) by (intro Cons.IH [of m]) (auto simp: l not_le)
  qed
qed simp

lemma decode_levels_ge:
  assumes "wf_levels ls" "unat adj + levels_sum ls < 2 ^ 64" "\<forall>(t, b, v) \<in> set ls. 0 < b"
    "decode_levels ls x adj = Some (t, out)"
  shows "unat adj \<le> unat out"
  using assms
proof (induction ls arbitrary: adj)
  case (Cons l ls)
  obtain t' b v where l: "l = (t', b, v)" by (metis prod_cases3)
  have wf: "b < t'" "t' \<le> 64" "wf_levels ls" "0 < b" using Cons.prems(1,3) by (auto simp: l)
  show ?case
  proof (cases "x AND (2 ^ b - 1) = v")
    case True
    define y where "y = drop_bit b (take_bit t' x)"
    have out: "out = y + adj"
      using Cons.prems(4) True unfolding l decode_levels.simps and_high_mask [OF wf(2)] y_def by auto
    have "unat y < 2 ^ (t' - b)"
      unfolding y_def drop_bit_take_bit by (simp add: unsigned_take_bit_eq)
    moreover have "unat adj + 2 ^ (t' - b) < 2 ^ 64" using Cons.prems(2) by (simp add: l)
    ultimately have "unat y + unat adj < 2 ^ 64" by linarith
    then have "unat out = unat y + unat adj" unfolding out by (simp add: unat_add_lem [THEN iffD1])
    then show ?thesis by simp
  next
    case False
    have um: "unat (adj + 2 ^ (t' - b)) = unat adj + 2 ^ (t' - b)"
      using Cons.prems(2) wf by (intro level_max [of _ _ _ "levels_sum ls"]) (auto simp: l)
    have "decode_levels ls x (adj + 2 ^ (t' - b)) = Some (t, out)" using Cons.prems(4) False by (simp add: l)
    then have "unat (adj + 2 ^ (t' - b)) \<le> unat out"
      using Cons.prems(2,3) wf(3) um by (intro Cons.IH) (auto simp: l)
    then show ?thesis using um by simp
  qed
qed simp

interpretation vli: prefix_code vli_encode_word vli_decode_bits
proof
  fix x w :: u64 and t c
  assume e: "vli_encode_word x = Inr (t, c)"
  show "take_bit t w = c \<Longrightarrow> vli_decode_bits w = Some (t, x)" by (rule vli_decode_code [OF e])
  have pos: "0 < x" "encode_levels vli_levels x 0 (0 + 1) = Inr (t, c)"
    using e by (auto simp: vli_encode_word_def word_gt_0 split: if_splits)
  have sum: "unat (0 :: u64) + levels_sum vli_levels < 2 ^ 64" by (simp add: vli_levels_sum)
  show "0 < t \<and> t \<le> 64 \<and> take_bit t c = c"
    using encode_levels_short [OF vli_levels_wf sum pos vli_levels_pos] encode_levels_prefix [OF vli_levels_wf pos(2)] by auto
next
  fix w :: u64
  obtain t x where d: "vli_decode_bits w = Some (t, x)" "0 < t" "t \<le> 64" using vli_decode_some [of w] by auto
  have sum: "unat (1 :: u64) + levels_sum vli_levels < 2 ^ 64" by (simp add: vli_levels_sum)
  have "unat (1 :: u64) \<le> unat x"
    using decode_levels_ge [OF vli_levels_wf sum vli_levels_pos d(1) [unfolded vli_decode_bits_def]] .
  then show "\<exists>t x. vli_decode_bits w = Some (t, x) \<and> 0 < t \<and> t \<le> 64 \<and> 0 < unat x" using d by auto
qed

end
