(* ===== verification/Bm_Xfer.thy ===== *)
theory Bm_Xfer
  imports Bitmap Vli
begin

text \<open>
  The exchange of the bitmap: run length encoding in \<open>fill_bitmap_rle_bits\<close> and plain words
  (\<open>drbd_main.c\<close>), and their reception in \<open>receive_bitmap\<close> (\<open>drbd_receiver.c\<close>). The sender works on its
  own bitmap and yields packets; the receiver merges packets into its bitmap. \<open>None\<close> is a kernel
  BUG. Statistics of the transfer and socket errors are left out; the bitmap does not change while it is sent.
\<close>

section \<open>Transfer context\<close>

record bm_xfer_ctx =
  x_bm_bits :: nat
  x_bm_words :: nat
  bit_offset :: nat
  word_offset :: nat

definition bm_xfer_ctx_bit_to_word_offset :: "bm_xfer_ctx \<Rightarrow> bm_xfer_ctx" where
  "bm_xfer_ctx_bit_to_word_offset c = c\<lparr>word_offset := bit_offset c div 64\<rparr>"

definition new_ctx :: "drbd_bitmap \<Rightarrow> bm_xfer_ctx" where
  "new_ctx b = \<lparr>x_bm_bits = bm_bits b, x_bm_words = bm_words b, bit_offset = 0, word_offset = 0\<rparr>"

section \<open>The header byte\<close>

definition RLE_VLI_Bits :: u8 where "RLE_VLI_Bits = 2"

definition dcbp_set_code :: "u8 \<Rightarrow> u8 \<Rightarrow> u8 option" where
  "dcbp_set_code code enc = do { bug_on (code AND NOT 0xf \<noteq> 0); Some ((enc AND NOT 0xf) OR code) }"

definition dcbp_set_start :: "bool \<Rightarrow> u8 \<Rightarrow> u8" where
  "dcbp_set_start s enc = (enc AND NOT 0x80) OR (if s then 0x80 else 0)"

definition dcbp_set_pad_bits :: "nat \<Rightarrow> u8 \<Rightarrow> u8 option" where
  "dcbp_set_pad_bits n enc = do { bug_on (n > 7); Some ((enc AND push_bit 4 (NOT 7)) OR push_bit 4 (of_nat n)) }"

definition dcbp_get_code :: "u8 \<Rightarrow> u8" where
  "dcbp_get_code enc = enc AND 0x0f"

definition dcbp_get_start :: "u8 \<Rightarrow> bool" where
  "dcbp_get_start enc \<longleftrightarrow> enc AND 0x80 \<noteq> 0"

definition dcbp_get_pad_bits :: "u8 \<Rightarrow> nat" where
  "dcbp_get_pad_bits enc = unat (drop_bit 4 enc AND 7)"

section \<open>Sending\<close>

text \<open>
  The encoding loop. \<open>toggle\<close> is 2 in the first round, then 0 while a run of set bits is sought and 1
  otherwise. The loop ends with the stream, the plain bits it covers, the offset and the start flag;
  \<open>Inl (True, off)\<close> is the unexpected zero run, \<open>Inl (False, off)\<close> an encoding error at \<open>off\<close>.
\<close>

type_synonym rle_end = "bool \<times> nat + bitstream \<times> nat \<times> nat \<times> bool"

definition not_toggle :: "nat \<Rightarrow> nat" where
  "not_toggle t = (if t = 0 then 1 else 0)"

function rle_loop :: "drbd_bitmap \<Rightarrow> nat \<Rightarrow> bitstream \<Rightarrow> nat \<Rightarrow> nat \<Rightarrow> bool \<Rightarrow> rle_end option" where
  "rle_loop b toggle bs plain_bits off start =
    (case bm_find_next (toggle = 0) b off of
       None \<Rightarrow> None
     | Some r \<Rightarrow>
        let tmp = (case r of None \<Rightarrow> bm_bits b | Some n \<Rightarrow> n); rl = tmp - off in
        if toggle = 2 \<and> rl = 0
        then if off < bm_bits b then rle_loop b (not_toggle toggle) bs plain_bits off True
             else Some (Inr (bs, plain_bits, off, True))
        else
          let start = (if toggle = 2 then False else start) in
          if rl = 0 then Some (Inl (True, off))
          else case vli_encode_bits bs (of_nat rl) of
            Inl e \<Rightarrow> Some (if e = ENOBUFS then Inr (bs, plain_bits, off, start) else Inl (False, off))
          | Inr (bits, bs) \<Rightarrow>
              if bits = 0 then Some (Inl (False, off))
              else if tmp < bm_bits b then rle_loop b (not_toggle toggle) bs (plain_bits + rl) tmp start
              else Some (Inr (bs, plain_bits + rl, tmp, start)))"
  by pat_completeness auto
termination
  by (relation "measures [\<lambda>(b, toggle, _, _, off, _). bm_bits b - off, \<lambda>(_, toggle, _, _, _, _). toggle]")
    (auto simp: not_toggle_def)

text \<open>
  \<open>Inl ()\<close>: the value \<open>-1\<close>. Otherwise the context and the packet, \<open>None\<close> when the plain bits have to be sent;
  \<open>enc\<close> is what the header byte of the buffer held before.
\<close>

definition fill_bitmap_rle_bits :: "bool \<Rightarrow> int \<Rightarrow> nat \<Rightarrow> u8 \<Rightarrow> drbd_bitmap \<Rightarrow> bm_xfer_ctx
    \<Rightarrow> (unit + (u8 \<times> u8 list) option \<times> bm_xfer_ctx) option" where
  "fill_bitmap_rle_bits use_rle apv sz enc b c =
    (if \<not> use_rle \<or> apv < 90 \<or> bit_offset c \<ge> x_bm_bits c then Some (Inr (None, c))
     else do {
       r \<leftarrow> rle_loop b 2 (bitstream_init (replicate sz 0) 0) 0 (bit_offset c) False;
       case r of
         Inl (zero_run, off) \<Rightarrow> Some (if zero_run then Inl () else Inr (None, c\<lparr>bit_offset := off\<rparr>))
       | Inr (bs, plain_bits, off, start) \<Rightarrow>
           let len = cur_b bs + (if cur_bit bs \<noteq> 0 then 1 else 0); c = c\<lparr>bit_offset := off\<rparr> in
           if plain_bits < len * 8
           then let c = bm_xfer_ctx_bit_to_word_offset (c\<lparr>bit_offset := off - plain_bits\<rparr>)
                in Some (Inr (None, c\<lparr>bit_offset := word_offset c * 64\<rparr>))
           else do {
             enc \<leftarrow> dcbp_set_pad_bits ((8 - cur_bit bs) mod 8) (dcbp_set_start start enc);
             Some (Inr (Some (enc, take len (bs_buf bs)), bm_xfer_ctx_bit_to_word_offset c))
           }
     })"

datatype bm_packet = P_COMPRESSED_BITMAP u8 "u8 list" | P_BITMAP "u64 list"

definition DRBD_SOCKET_BUFFER_SIZE :: nat where "DRBD_SOCKET_BUFFER_SIZE = 4096"

text \<open>The packet sent, whether another round is needed, and the context. \<open>Inl ()\<close> is \<open>-EIO\<close>.\<close>

definition send_bitmap_rle_or_plain :: "bool \<Rightarrow> int \<Rightarrow> nat \<Rightarrow> u8 \<Rightarrow> drbd_bitmap \<Rightarrow> bm_xfer_ctx
    \<Rightarrow> (unit + bm_packet \<times> bool \<times> bm_xfer_ctx) option" where
  "send_bitmap_rle_or_plain use_rle apv header_size enc b c = do {
     r \<leftarrow> fill_bitmap_rle_bits use_rle apv (DRBD_SOCKET_BUFFER_SIZE - header_size - 1) enc b c;
     case r of
       Inl _ \<Rightarrow> Some (Inl ())
     | Inr (Some (enc, code), c) \<Rightarrow> do {
         enc \<leftarrow> dcbp_set_code RLE_VLI_Bits enc;
         Some (Inr (P_COMPRESSED_BITMAP enc code, \<not> bit_offset c \<ge> x_bm_bits c, c))
       }
     | Inr (None, c) \<Rightarrow>
         let num_words = min ((DRBD_SOCKET_BUFFER_SIZE - header_size) div 8) (x_bm_words c - word_offset c);
             p = (if num_words \<noteq> 0 then drbd_bm_get_lel (word_offset c) num_words (replicate num_words 0) b else []);
             c = c\<lparr>word_offset := word_offset c + num_words, bit_offset := (word_offset c + num_words) * 64\<rparr>;
             c = (if bit_offset c > x_bm_bits c then c\<lparr>bit_offset := x_bm_bits c\<rparr> else c)
         in Some (Inr (P_BITMAP p, num_words \<noteq> 0, c))
   }"

text \<open>
  The loop of \<open>_drbd_send_bitmap\<close>; \<open>n\<close> bounds the number of packets, \<open>enc n\<close> is what the buffer of a packet holds
  in place of its header byte.
\<close>

fun send_bitmap_loop :: "nat \<Rightarrow> bool \<Rightarrow> int \<Rightarrow> nat \<Rightarrow> (nat \<Rightarrow> u8) \<Rightarrow> drbd_bitmap \<Rightarrow> bm_xfer_ctx \<Rightarrow> bm_packet list option" where
  "send_bitmap_loop 0 use_rle apv header_size enc b c = None"
| "send_bitmap_loop (Suc n) use_rle apv header_size enc b c =
    (case send_bitmap_rle_or_plain use_rle apv header_size (enc n) b c of
       Some (Inr (p, again, c)) \<Rightarrow>
         if again then map_option ((#) p) (send_bitmap_loop n use_rle apv header_size enc b c) else Some [p]
     | _ \<Rightarrow> None)"

section \<open>Receiving\<close>

text \<open>
  \<open>Inl ()\<close> is \<open>-EIO\<close>, together with the bitmap at that point; otherwise whether more is expected. The decoding loop runs
  at most \<open>fuel\<close> rounds.
\<close>

type_synonym recv_end = "(unit + bool \<times> bm_xfer_ctx) \<times> drbd_bitmap"

fun recv_loop :: "nat \<Rightarrow> bm_xfer_ctx \<Rightarrow> bitstream \<Rightarrow> u64 \<Rightarrow> nat \<Rightarrow> nat \<Rightarrow> bool \<Rightarrow> drbd_bitmap \<Rightarrow> recv_end option" where
  "recv_loop 0 c bs look_ahead have s toggle b = None"
| "recv_loop (Suc fuel) c bs look_ahead have s toggle b =
    (if have = 0
     then let c = bm_xfer_ctx_bit_to_word_offset (c\<lparr>bit_offset := s\<rparr>) in Some (Inr (s \<noteq> x_bm_bits c, c), b)
     else case vli_decode_bits look_ahead of
       None \<Rightarrow> None
     | Some (bits, rl) \<Rightarrow>
        let e = s + unat rl - 1 in
        if toggle \<and> e \<ge> x_bm_bits c then Some (Inl (), b)
        else do {
          b \<leftarrow> (if toggle then drbd_bm_set_bits_fast b s e else Some b);
          if have < bits then Some (Inl (), b)
          else do {
            let look_ahead = (if bits < 64 then drop_bit bits look_ahead else 0);
            let have = have - bits;
            g \<leftarrow> bitstream_get_bits bs (64 - have);
            case g of
              Inl _ \<Rightarrow> Some (Inl (), b)
            | Inr (bits, tmp, bs) \<Rightarrow>
                recv_loop fuel c bs (look_ahead OR push_bit have tmp) (have + bits) (s + unat rl) (\<not> toggle) b
          }
        })"

definition recv_bm_rle_bits :: "u8 \<Rightarrow> u8 list \<Rightarrow> bm_xfer_ctx \<Rightarrow> drbd_bitmap \<Rightarrow> recv_end option" where
  "recv_bm_rle_bits enc code c b = do {
     g \<leftarrow> bitstream_get_bits (bitstream_init code (dcbp_get_pad_bits enc)) 64;
     case g of
       Inl _ \<Rightarrow> Some (Inl (), b)
     | Inr (bits, look_ahead, bs) \<Rightarrow>
         recv_loop (8 * length code + 1) c bs look_ahead bits (bit_offset c) (dcbp_get_start enc) b
   }"

definition decode_bitmap_c :: "u8 \<Rightarrow> u8 list \<Rightarrow> bm_xfer_ctx \<Rightarrow> drbd_bitmap \<Rightarrow> recv_end option" where
  "decode_bitmap_c enc code c b =
    (if dcbp_get_code enc = RLE_VLI_Bits then recv_bm_rle_bits enc code c b else Some (Inl (), b))"

text \<open>\<open>bm_words - word_offset\<close> is unsigned: behind the end it is a huge number.\<close>

definition words_left :: "bm_xfer_ctx \<Rightarrow> nat" where
  "words_left c = unat (of_nat (x_bm_words c) - of_nat (word_offset c) :: u64)"

definition receive_bitmap_plain :: "nat \<Rightarrow> u64 list \<Rightarrow> bm_xfer_ctx \<Rightarrow> drbd_bitmap \<Rightarrow> recv_end option" where
  "receive_bitmap_plain header_size p c b =
    (let num_words = min ((DRBD_SOCKET_BUFFER_SIZE - header_size) div 8) (words_left c) in
     if num_words \<noteq> length p then Some (Inl (), b)
     else if num_words = 0 then Some (Inr (False, c), b)
     else do {
       b \<leftarrow> drbd_bm_merge_lel (word_offset c) p b;
       let c = c\<lparr>word_offset := word_offset c + num_words, bit_offset := (word_offset c + num_words) * 64\<rparr>;
       let c = (if bit_offset c > x_bm_bits c then c\<lparr>bit_offset := x_bm_bits c\<rparr> else c);
       Some (Inr (True, c), b)
     })"

text \<open>The packet loop of \<open>receive_bitmap\<close>. A stream that ends before the transfer is complete fails to deliver a header.\<close>

fun receive_bitmap_loop :: "nat \<Rightarrow> bm_packet list \<Rightarrow> bm_xfer_ctx \<Rightarrow> drbd_bitmap \<Rightarrow> (bool \<times> drbd_bitmap) option" where
  "receive_bitmap_loop header_size [] c b = Some (False, b)"
| "receive_bitmap_loop header_size (p # ps) c b = do {
     (r, b) \<leftarrow> (case p of
         P_BITMAP ws \<Rightarrow> receive_bitmap_plain header_size ws c b
       | P_COMPRESSED_BITMAP enc code \<Rightarrow>
           if length code + 1 > DRBD_SOCKET_BUFFER_SIZE - header_size \<or> code = [] then Some (Inl (), b)
           else decode_bitmap_c enc code c b);
     case r of
       Inl _ \<Rightarrow> Some (False, b)
     | Inr (again, c) \<Rightarrow> if again then receive_bitmap_loop header_size ps c b else Some (True, b)
   }"

end
