(* ===== verification/Bitmap_Facts.thy ===== *)
theory Bitmap_Facts
  imports Bitmap
begin

text \<open>
  The bitmap as a set of blocks: every operation keeps it consistent and has the effect of the corresponding set
  operation.
\<close>


section \<open>The set of blocks out of sync\<close>

definition oos :: "drbd_bitmap \<Rightarrow> nat set" where
  "oos b = {n. n < bm_bits b \<and> mem_bit (bm_mem b) n}"

definition layout_ok :: "drbd_bitmap \<Rightarrow> bool" where
  "layout_ok b \<longleftrightarrow> length (bm_mem b) = bm_number_of_pages b * LWPP \<and> length (bm_private b) = bm_number_of_pages b
     \<and> bm_words b = (bm_bits b + 63) div 64 \<and> bm_number_of_pages b = (bm_words b + 511) div 512"

text \<open>The bits behind the last one, up to the end of its word, are zero, and \<open>bm_set\<close> counts the others.\<close>

definition bm_ok :: "drbd_bitmap \<Rightarrow> bool" where
  "bm_ok b \<longleftrightarrow> layout_ok b \<and> list_all (\<lambda>n. \<not> mem_bit (bm_mem b) n) [bm_bits b..<64 * bm_words b]
     \<and> bm_set b = of_nat (card (oos b))"

definition same_shape :: "drbd_bitmap \<Rightarrow> drbd_bitmap \<Rightarrow> bool" where
  "same_shape b b' \<longleftrightarrow> bm_bits b' = bm_bits b \<and> bm_words b' = bm_words b \<and> bm_number_of_pages b' = bm_number_of_pages b
     \<and> bm_dev_capacity b' = bm_dev_capacity b \<and> length (bm_mem b') = length (bm_mem b)
     \<and> length (bm_private b') = length (bm_private b)"

lemmas bm_sizes = BITS_PER_LONG_def LWPP_def BITS_PER_PAGE_def

lemma same_shape_refl [simp]: "same_shape b b"
  by (simp add: same_shape_def)

lemma same_shape_trans: "same_shape a b \<Longrightarrow> same_shape b c \<Longrightarrow> same_shape a c"
  by (simp add: same_shape_def)

lemma same_shape_layout: "same_shape b b' \<Longrightarrow> layout_ok b \<Longrightarrow> layout_ok b'"
  by (simp add: same_shape_def layout_ok_def)

lemma finite_oos [simp]: "finite (oos b)"
  by (simp add: oos_def)

subsection \<open>Memory\<close>

lemma mem_put_bit:
  "n div 64 < length ws \<Longrightarrow> mem_bit (mem_put v n ws) m = (if m = n then v else mem_bit ws m)"
proof -
  assume n: "n div 64 < length ws"
  show ?thesis
  proof (cases "m div 64 = n div 64")
    case True
    have "m mod 64 \<noteq> n mod 64" if "m \<noteq> n" using True that by (metis div_mult_mod_eq)
    then show ?thesis
      using n True by (auto simp: mem_bit_def mem_put_def BITS_PER_LONG_def bit_set_bit_iff bit_unset_bit_iff possible_bit_word)
  next
    case False
    then show ?thesis by (auto simp: mem_bit_def mem_put_def BITS_PER_LONG_def)
  qed
qed

lemma length_mem_put [simp]: "length (mem_put v n ws) = length ws"
  by (simp add: mem_put_def)

lemma fill_words_nth:
  "fill_words x y f ws ! i = (if x \<le> i \<and> i < y \<and> i < length ws then f i else ws ! i)"
  "length (fill_words x y f ws) = length ws"
proof -
  have "length (fill_words x y f ws) = length ws
    \<and> fill_words x y f ws ! i = (if x \<le> i \<and> i < y \<and> i < length ws then f i else ws ! i)"
  proof (induction y)
    case (Suc y)
    have "fill_words x (Suc y) f ws = (if x \<le> y then (fill_words x y f ws)[y := f y] else fill_words x y f ws)"
      by (simp add: fill_words_def)
    then show ?case using Suc by (cases "i = y"; cases "y < length ws") (auto simp: list_update_beyond)
  qed (simp add: fill_words_def)
  then show "fill_words x y f ws ! i = (if x \<le> i \<and> i < y \<and> i < length ws then f i else ws ! i)"
    "length (fill_words x y f ws) = length ws" by auto
qed

lemma hweight_card: "hweight_long w = card {i. i < 64 \<and> bit w i}"
proof -
  have "hweight_long w = card (set (filter (bit w) [0..<64]))"
    unfolding hweight_long_def by (intro distinct_card [symmetric] distinct_filter distinct_upt)
  also have "set (filter (bit w) [0..<64]) = {i. i < 64 \<and> bit w i}" by auto
  finally show ?thesis .
qed

lemma hweight_le: "hweight_long w \<le> 64"
  unfolding hweight_long_def by (rule order_trans [OF length_filter_le]) simp

lemma word_bits_card:
  "card ({64 * i..<64 * Suc i} \<inter> {n. mem_bit ws n}) = hweight_long (ws ! i)"
proof -
  have "{64 * i..<64 * Suc i} \<inter> {n. mem_bit ws n} = (\<lambda>j. 64 * i + j) ` {j. j < 64 \<and> bit (ws ! i) j}"
  proof (intro set_eqI iffI)
    fix n assume "n \<in> {64 * i..<64 * Suc i} \<inter> {n. mem_bit ws n}"
    then have d: "n div 64 = i" "bit (ws ! (n div 64)) (n mod 64)"
      by (auto simp: mem_bit_def BITS_PER_LONG_def)
    moreover from d(1) have "n = 64 * i + n mod 64" by (metis div_mult_mod_eq mult.commute)
    ultimately have "n = 64 * i + n mod 64" "n div 64 = i" "bit (ws ! (n div 64)) (n mod 64)" by blast+
    then show "n \<in> (\<lambda>j. 64 * i + j) ` {j. j < 64 \<and> bit (ws ! i) j}"
      by (intro image_eqI [of _ _ "n mod 64"]) auto
  qed (auto simp: mem_bit_def BITS_PER_LONG_def)
  then show ?thesis by (simp add: hweight_card card_image)
qed

lemma words_card:
  "x \<le> y \<Longrightarrow> card ({64 * x..<64 * y} \<inter> {n. mem_bit ws n}) = (\<Sum>i\<leftarrow>[x..<y]. hweight_long (ws ! i))"
proof (induction y)
  case (Suc y)
  show ?case
  proof (cases "x = Suc y")
    case False
    then have "x \<le> y" using Suc.prems by simp
    have "{64 * x..<64 * Suc y} \<inter> {n. mem_bit ws n}
        = ({64 * x..<64 * y} \<inter> {n. mem_bit ws n}) \<union> ({64 * y..<64 * Suc y} \<inter> {n. mem_bit ws n})"
      using \<open>x \<le> y\<close> by auto
    then have "card ({64 * x..<64 * Suc y} \<inter> {n. mem_bit ws n})
        = card ({64 * x..<64 * y} \<inter> {n. mem_bit ws n}) + card ({64 * y..<64 * Suc y} \<inter> {n. mem_bit ws n})"
      by (simp only:) (rule card_Un_disjoint, auto)
    then show ?thesis using Suc.IH \<open>x \<le> y\<close> word_bits_card [of y ws] by simp
  qed simp
qed simp

subsection \<open>Setting bits\<close>

text \<open>\<open>b'\<close> is \<open>b\<close> with the bits of \<open>A\<close> added and counted.\<close>

definition adds :: "nat set \<Rightarrow> drbd_bitmap \<Rightarrow> drbd_bitmap \<Rightarrow> bool" where
  "adds A b b' \<longleftrightarrow> same_shape b b' \<and> (\<forall>m. mem_bit (bm_mem b') m \<longleftrightarrow> m \<in> A \<or> mem_bit (bm_mem b) m)
     \<and> bm_set b' = bm_set b + of_nat (card (A - {m. mem_bit (bm_mem b) m}))"

lemma adds_refl [simp]: "adds {} b b"
  by (simp add: adds_def)

lemma adds_trans:
  assumes "adds A b b'" "adds B b' b''" "finite A" "finite B"
  shows "adds (A \<union> B) b b''"
proof -
  let ?S = "{m. mem_bit (bm_mem b) m}"
  have "A \<union> B - ?S = (A - ?S) \<union> (B - {m. mem_bit (bm_mem b') m})"
    using assms(1) by (auto simp: adds_def)
  moreover have "card ((A - ?S) \<union> (B - {m. mem_bit (bm_mem b') m})) = card (A - ?S) + card (B - {m. mem_bit (bm_mem b') m})"
    using assms by (intro card_Un_disjoint) (auto simp: adds_def)
  ultimately show ?thesis using assms(1,2) by (auto simp: adds_def intro: same_shape_trans)
qed

lemma adds_ok:
  assumes "adds A b b'" "bm_ok b" "A \<subseteq> {..<bm_bits b}"
  shows "bm_ok b'" "oos b' = oos b \<union> A"
proof -
  show o: "oos b' = oos b \<union> A" using assms(1,3) by (auto simp: oos_def adds_def same_shape_def)
  have "A - {m. mem_bit (bm_mem b) m} = A - oos b" using assms(3) by (auto simp: oos_def)
  moreover have "card (oos b \<union> A) = card (oos b) + card (A - oos b)"
    using assms(3) by (metis Un_Diff_cancel card_Un_disjoint Diff_disjoint finite_Diff finite_lessThan finite_oos finite_subset)
  ultimately have "bm_set b' = of_nat (card (oos b'))"
    using assms(1,2) by (simp add: adds_def bm_ok_def o)
  then show "bm_ok b'"
    using assms by (auto simp: bm_ok_def adds_def list_all_iff same_shape_def intro: same_shape_layout)
qed


subsection \<open>The bit loop\<close>

lemma mark_changed_frame [simp]:
  "bm_mem (mark_changed p c b) = bm_mem b" "bm_bits (mark_changed p c b) = bm_bits b" "bm_set (mark_changed p c b) = bm_set b"
  "bm_number_of_pages (mark_changed p c b) = bm_number_of_pages b" "same_shape b (mark_changed p c b)"
  by (auto simp: mark_changed_def bm_set_page_lazy_writeout_def bm_set_page_need_writeout_def upd_page_def same_shape_def
      split: option.split)

lemma page_of_bit:
  assumes "layout_ok b" "n < bm_bits b"
  shows "n div BITS_PER_PAGE < bm_number_of_pages b" "n div 64 < length (bm_mem b)"
proof -
  have "n div 64 < bm_words b" using assms by (simp add: layout_ok_def less_eq_div_iff_mult_less_eq div_less_iff_less_mult)
  moreover have "bm_number_of_pages b * 512 \<ge> bm_words b"
    using assms(1) div_mult_mod_eq [of "bm_words b + 511" 512] mod_less_divisor [of 512 "bm_words b + 511"]
    by (simp add: layout_ok_def)
  ultimately have "n div 64 < bm_number_of_pages b * 512" by linarith
  then show "n div 64 < length (bm_mem b)" using assms(1) by (simp add: layout_ok_def LWPP_def)
  have "n div 32768 = n div 64 div 512" by (simp add: div_mult2_eq [symmetric])
  then show "n div BITS_PER_PAGE < bm_number_of_pages b"
    using \<open>n div 64 < bm_number_of_pages b * 512\<close> by (simp add: BITS_PER_PAGE_def less_mult_imp_div_less)
qed

lemma words_in_pages:
  assumes "layout_ok b" "64 * w \<le> bm_bits b"
  shows "w \<le> bm_number_of_pages b * 512"
proof -
  have "w \<le> bm_words b" using assms by (simp add: layout_ok_def)
  also have "\<dots> \<le> bm_number_of_pages b * 512" using assms(1) by (simp add: layout_ok_def)
  finally show ?thesis .
qed

lemma bit_to_page_idx:
  "layout_ok b \<Longrightarrow> n < bm_bits b \<Longrightarrow> bm_bit_to_page_idx b n = Some (n div BITS_PER_PAGE)"
  using page_of_bit by (simp add: bm_bit_to_page_idx_def Let_def not_le)

definition gain :: "bool \<Rightarrow> u64 list \<Rightarrow> nat \<Rightarrow> int" where
  "gain val ws n = (if val then if mem_bit ws n then 0 else 1 else if mem_bit ws n then -1 else 0)"

lemma change_loop_correct:
  assumes "layout_ok b" "distinct ns" "\<forall>n \<in> set ns. n < bm_bits b"
  shows "\<exists>p c' t' b'. change_loop val ns lp c t b = Some (p, c', t', b') \<and> same_shape b b' \<and> bm_set b' = bm_set b
    \<and> c' + t' = c + t + (\<Sum>n\<leftarrow>ns. gain val (bm_mem b) n)
    \<and> (\<forall>m. mem_bit (bm_mem b') m = (if m \<in> set ns then val else mem_bit (bm_mem b) m))"
  using assms
proof (induction ns arbitrary: lp c t b)
  case (Cons n ns)
  define t1 where "t1 = (if lp \<noteq> Some (n div BITS_PER_PAGE) then t + c else t)"
  define c1 where "c1 = (if lp \<noteq> Some (n div BITS_PER_PAGE) then 0 else c)"
  define b1 where "b1 = (if lp \<noteq> Some (n div BITS_PER_PAGE) then mark_changed lp c b else b)"
  define b2 where "b2 = b1\<lparr>bm_mem := mem_put val n (bm_mem b)\<rparr>"
  have b1: "bm_mem b1 = bm_mem b" "same_shape b b1" "bm_set b1 = bm_set b" by (simp_all add: b1_def)
  have s2: "same_shape b b2" using b1 by (simp add: b2_def same_shape_def)
  have m2: "mem_bit (bm_mem b2) m = (if m = n then val else mem_bit (bm_mem b) m)" for m
    using Cons.prems page_of_bit(2) [of b n] by (simp add: b2_def mem_put_bit)
  have step: "change_loop val (n # ns) lp c t b
      = change_loop val ns (Some (n div BITS_PER_PAGE)) (c1 + gain val (bm_mem b) n) t1 b2"
    using bit_to_page_idx [OF Cons.prems(1), of n] Cons.prems(3) b1(1)
    by (simp add: c1_def t1_def b1_def b2_def gain_def Let_def)
  have "gain val (bm_mem b2) m = gain val (bm_mem b) m" if "m \<in> set ns" for m
    using that Cons.prems(2) m2 by (auto simp: gain_def)
  then have g: "(\<Sum>m\<leftarrow>ns. gain val (bm_mem b2) m) = (\<Sum>m\<leftarrow>ns. gain val (bm_mem b) m)"
    by (intro arg_cong [where f = sum_list] map_cong refl)
  have ct: "c1 + t1 = c + t" by (simp add: c1_def t1_def)
  obtain p c' t' b' where r: "change_loop val ns (Some (n div BITS_PER_PAGE)) (c1 + gain val (bm_mem b) n) t1 b2 = Some (p, c', t', b')"
    "same_shape b2 b'" "bm_set b' = bm_set b2"
    "c' + t' = c1 + gain val (bm_mem b) n + t1 + (\<Sum>m\<leftarrow>ns. gain val (bm_mem b2) m)"
    "\<forall>m. mem_bit (bm_mem b') m = (if m \<in> set ns then val else mem_bit (bm_mem b2) m)"
    using Cons.IH [of b2 "Some (n div BITS_PER_PAGE)" "c1 + gain val (bm_mem b) n" t1] Cons.prems
      same_shape_layout [OF s2] s2 [unfolded same_shape_def] by auto
  show ?case unfolding step
    using r s2 m2 b1(3) ct g by (auto simp: b2_def intro: same_shape_trans)
qed simp

lemma gain_sum:
  "finite A \<Longrightarrow> (\<Sum>n\<in>A. gain True ws n) = int (card (A - {m. mem_bit ws m}))"
  "finite A \<Longrightarrow> (\<Sum>n\<in>A. gain False ws n) = - int (card (A \<inter> {m. mem_bit ws m}))"
proof -
  assume A: "finite A"
  have "(\<Sum>n\<in>A. gain True ws n) = (\<Sum>n\<in>A. if n \<in> - {m. mem_bit ws m} then 1 else 0)"
    by (intro sum.cong) (auto simp: gain_def)
  also have "\<dots> = int (card (A - {m. mem_bit ws m}))"
    using A by (simp add: sum.If_cases Diff_eq Collect_neg_eq)
  finally show "(\<Sum>n\<in>A. gain True ws n) = int (card (A - {m. mem_bit ws m}))" .
  have "(\<Sum>n\<in>A. gain False ws n) = (\<Sum>n\<in>A. if n \<in> {m. mem_bit ws m} then - 1 else 0)"
    by (intro sum.cong) (auto simp: gain_def)
  also have "\<dots> = - int (card (A \<inter> {m. mem_bit ws m}))"
    using A by (simp add: sum.If_cases)
  finally show "(\<Sum>n\<in>A. gain False ws n) = - int (card (A \<inter> {m. mem_bit ws m}))" .
qed

lemma change_bits_to_correct:
  assumes "layout_ok b" "e < bm_bits b"
  shows "\<exists>k b'. bm_change_bits_to b s e val = Some (k, b') \<and> same_shape b b' \<and> bm_set b' = bm_set b + of_int k
    \<and> k = (if val then int (card ({s..e} - {m. mem_bit (bm_mem b) m})) else - int (card ({s..e} \<inter> {m. mem_bit (bm_mem b) m})))
    \<and> (\<forall>m. mem_bit (bm_mem b') m = (if m \<in> {s..e} then val else mem_bit (bm_mem b) m))"
proof -
  obtain p c' t' b' where r: "change_loop val [s..<Suc e] None 0 0 b = Some (p, c', t', b')"
    "same_shape b b'" "bm_set b' = bm_set b" "c' + t' = (\<Sum>n\<leftarrow>[s..<Suc e]. gain val (bm_mem b) n)"
    "\<forall>m. mem_bit (bm_mem b') m = (if m \<in> set [s..<Suc e] then val else mem_bit (bm_mem b) m)"
    using change_loop_correct [OF assms(1), of "[s..<Suc e]" val None 0 0] assms(2) by (auto simp del: upt_Suc)
  have "(\<Sum>n\<leftarrow>[s..<Suc e]. gain val (bm_mem b) n) = (\<Sum>n\<in>{s..e}. gain val (bm_mem b) n)"
    by (simp only: sum_list_distinct_conv_sum_set [OF distinct_upt] set_upt atLeastLessThanSuc_atLeastAtMost)
  also have "\<dots> = (if val then int (card ({s..e} - {m. mem_bit (bm_mem b) m}))
      else - int (card ({s..e} \<inter> {m. mem_bit (bm_mem b) m})))"
    using gain_sum [of "{s..e}" "bm_mem b"] by (cases val) simp_all
  finally have k: "t' + c' = (if val then int (card ({s..e} - {m. mem_bit (bm_mem b) m}))
      else - int (card ({s..e} \<inter> {m. mem_bit (bm_mem b) m})))" using r(4) by simp
  define b2 where "b2 = (mark_changed p c' b')\<lparr>bm_set := bm_set b' + of_int (t' + c')\<rparr>"
  have "bm_change_bits_to b s e val = Some (t' + c', b2)"
    using assms(2) by (simp add: bm_change_bits_to_def Let_def r(1) b2_def del: upt_Suc)
  moreover have "same_shape b b2"
    using r(2) mark_changed_frame(5) [of b' p c'] unfolding b2_def same_shape_def by simp
  moreover have "bm_mem b2 = bm_mem b'" "bm_set b2 = bm_set b + of_int (t' + c')" by (simp_all add: b2_def r(3))
  ultimately show ?thesis using k r(5) by (simp add: atLeastLessThanSuc_atLeastAtMost del: upt_Suc)
qed

lemma set_bits_adds:
  assumes "layout_ok b" "e < bm_bits b"
  shows "\<exists>k b'. bm_change_bits_to b s e True = Some (k, b') \<and> adds {s..e} b b' \<and> k = int (card ({s..e} - oos b))"
proof -
  have "{s..e} - {m. mem_bit (bm_mem b) m} = {s..e} - oos b" using assms(2) by (auto simp: oos_def)
  then show ?thesis
    using change_bits_to_correct [OF assms, of s True] by (auto simp: adds_def)
qed


subsection \<open>Whole words\<close>

lemma shift_upt: "map ((+) k) [x..<y] = [k + x..<k + y]"
  by (induction y) auto

lemma full_words_adds:
  assumes "layout_ok b" "page < bm_number_of_pages b" "y \<le> LWPP"
  shows "\<exists>b'. bm_set_full_words_within_one_page page x y b = Some b'
    \<and> adds {64 * (page * LWPP + x)..<64 * (page * LWPP + y)} b b'"
proof -
  let ?A = "{64 * (page * LWPP + x)..<64 * (page * LWPP + y)}" and ?S = "{m. mem_bit (bm_mem b) m}"
  define ch where "ch = (\<Sum>i\<leftarrow>[x..<y]. BITS_PER_LONG - hweight_long (bm_mem b ! (page * LWPP + i)))"
  define ws where "ws = fill_words (page * LWPP + x) (page * LWPP + y) (\<lambda>_. -1) (bm_mem b)"
  have len: "page * LWPP + y \<le> length (bm_mem b)"
    using assms mult_le_mono1 [of "Suc page" "bm_number_of_pages b" LWPP] by (simp add: layout_ok_def)
  have bits: "mem_bit ws m \<longleftrightarrow> m \<in> ?A \<or> mem_bit (bm_mem b) m" for m
  proof -
    have "m \<in> ?A \<longleftrightarrow> page * LWPP + x \<le> m div 64 \<and> m div 64 < page * LWPP + y"
      by (auto simp: less_eq_div_iff_mult_less_eq div_less_iff_less_mult mult.commute)
    then show ?thesis using len
      by (auto simp: ws_def mem_bit_def fill_words_nth BITS_PER_LONG_def bit_minus_1_iff possible_bit_word)
  qed
  have card: "ch = card (?A - ?S)"
  proof (cases "x \<le> y")
    case True
    have "(\<Sum>i\<leftarrow>[x..<y]. hweight_long (bm_mem b ! (page * LWPP + i)))
        = (\<Sum>i\<leftarrow>[page * LWPP + x..<page * LWPP + y]. hweight_long (bm_mem b ! i))"
      unfolding shift_upt [symmetric] by (simp add: comp_def)
    also have "\<dots> = card (?A \<inter> ?S)" using words_card [of "page * LWPP + x" "page * LWPP + y" "bm_mem b"] True by simp
    finally have s: "(\<Sum>i\<leftarrow>[x..<y]. hweight_long (bm_mem b ! (page * LWPP + i))) = card (?A \<inter> ?S)" .
    have "ch + (\<Sum>i\<leftarrow>[x..<y]. hweight_long (bm_mem b ! (page * LWPP + i))) = 64 * (y - x)"
    proof -
      have "(\<Sum>i\<leftarrow>is. BITS_PER_LONG - hweight_long (f i)) + (\<Sum>i\<leftarrow>is. hweight_long (f i)) = 64 * length is" for f and "is" :: "nat list"
      proof (induction "is")
        case (Cons i "is")
        then show ?case using hweight_le [of "f i"] by (simp add: BITS_PER_LONG_def)
      qed simp
      from this [of "\<lambda>i. bm_mem b ! (page * LWPP + i)" "[x..<y]"] show ?thesis by (simp add: ch_def)
    qed
    moreover have "card ?A = card (?A \<inter> ?S) + card (?A - ?S)"
      by (metis card_Int_Diff finite_atLeastLessThan)
    moreover have "card ?A = 64 * (y - x)" by (simp add: diff_mult_distrib2 [symmetric])
    ultimately show ?thesis using s by linarith
  qed (simp add: ch_def)
  define b' where "b' = (if ch \<noteq> 0 then (bm_set_page_lazy_writeout page (b\<lparr>bm_mem := ws\<rparr>))\<lparr>bm_set := bm_set b + of_nat ch\<rparr>
    else b\<lparr>bm_mem := ws\<rparr>)"
  have "bm_set_full_words_within_one_page page x y b = Some b'"
    using assms(2) unfolding bm_set_full_words_within_one_page_def Let_def ch_def [symmetric] ws_def [symmetric]
    by (simp add: b'_def)
  moreover have "adds ?A b b'"
    unfolding adds_def card [symmetric] using bits
    by (auto simp: b'_def same_shape_def bm_set_page_lazy_writeout_def upd_page_def fill_words_nth ws_def)
  ultimately show ?thesis by blast
qed


lemma full_pages_adds:
  assumes "layout_ok b" "p \<le> q" "q \<le> bm_number_of_pages b" "x \<le> LWPP"
  shows "\<exists>b'. full_pages [p..<q] x b = Some (if p = q then x else 0, b')
    \<and> adds (if p = q then {} else {64 * (p * LWPP + x)..<64 * (q * LWPP)}) b b'"
  using assms
proof (induction "q - p" arbitrary: p x b)
  case 0
  then show ?case by simp
next
  case (Suc d)
  then have lt: "p < q" "d = q - Suc p" by simp_all
  obtain b1 where b1: "bm_set_full_words_within_one_page p x LWPP b = Some b1"
    "adds {64 * (p * LWPP + x)..<64 * (Suc p * LWPP)} b b1"
    using full_words_adds [of b p LWPP x] Suc.prems lt by (auto simp: add.commute)
  then have l1: "layout_ok b1" "bm_number_of_pages b1 = bm_number_of_pages b"
    using Suc.prems(1) by (auto simp: adds_def same_shape_def layout_ok_def)
  obtain b2 where b2: "full_pages [Suc p..<q] 0 b1 = Some (0, b2)"
    "adds (if Suc p = q then {} else {64 * (Suc p * LWPP + 0)..<64 * (q * LWPP)}) b1 b2"
    using Suc.hyps(1) [of "Suc p" b1 0] Suc.prems l1 lt by auto
  have u: "{64 * (p * LWPP + x)..<64 * (Suc p * LWPP)} \<union> (if Suc p = q then {} else {64 * (Suc p * LWPP + 0)..<64 * (q * LWPP)})
      = {64 * (p * LWPP + x)..<64 * (q * LWPP)}"
    using lt Suc.prems(4) mult_le_mono1 [of "Suc p" q LWPP] by (auto split: if_splits)
  have "adds {64 * (p * LWPP + x)..<64 * (q * LWPP)} b b2"
    using adds_trans [OF b1(2) b2(2)] unfolding u by (auto split: if_splits)
  then show ?case using lt b1(1) b2(1) by (simp add: upt_conv_Cons)
qed

lemma adds_layout:
  "adds A b b' \<Longrightarrow> layout_ok b \<Longrightarrow> layout_ok b'" "adds A b b' \<Longrightarrow> bm_number_of_pages b' = bm_number_of_pages b"
  "adds A b b' \<Longrightarrow> bm_bits b' = bm_bits b"
  by (auto simp: adds_def same_shape_def layout_ok_def)

lemma middle_words_adds:
  assumes "layout_ok b" "x \<le> y" "64 * y \<le> bm_bits b"
  shows "\<exists>b'. do { (fw, b) \<leftarrow> full_pages [x div LWPP..<y div LWPP] (x mod LWPP) b;
      if y mod LWPP \<noteq> 0 then bm_set_full_words_within_one_page (y div LWPP) fw (y mod LWPP) b else Some b } = Some b'
    \<and> adds {64 * x..<64 * y} b b'"
proof -
  define p q where "p = x div LWPP" and "q = y div LWPP"
  have pq: "x = p * LWPP + x mod LWPP" "y = q * LWPP + y mod LWPP" "p \<le> q"
    using div_le_mono [OF assms(2), of LWPP] by (simp_all add: p_def q_def)
  have y: "y \<le> bm_number_of_pages b * LWPP" using words_in_pages [OF assms(1,3)] by (simp add: LWPP_def)
  then have nq: "q \<le> bm_number_of_pages b" by (simp add: q_def LWPP_def)
  define fw where "fw = (if p = q then x mod LWPP else 0)"
  define A where "A = (if p = q then {} else {64 * x..<64 * (q * LWPP)})"
  obtain b2 where b2: "full_pages [p..<q] (x mod LWPP) b = Some (fw, b2)" "adds A b b2"
    using full_pages_adds [OF assms(1) pq(3) nq, of "x mod LWPP"] pq(1)
    by (auto simp: LWPP_def fw_def A_def split: if_splits)
  note l2 = adds_layout [OF b2(2)]
  show ?thesis
  proof (cases "y mod LWPP = 0")
    case True
    then have "A = {64 * x..<64 * y}" using pq assms(2) by (auto simp: A_def)
    then show ?thesis using True b2 by (simp add: p_def q_def)
  next
    case False
    then have "y \<noteq> bm_number_of_pages b * LWPP" by auto
    then have "q < bm_number_of_pages b" using y by (simp add: q_def less_mult_imp_div_less)
    then obtain b3 where b3: "bm_set_full_words_within_one_page q fw (y mod LWPP) b2 = Some b3"
      "adds {64 * (q * LWPP + fw)..<64 * (q * LWPP + y mod LWPP)} b2 b3"
      using full_words_adds [of b2 q "y mod LWPP" fw] l2 assms(1) by (auto simp: LWPP_def)
    have "A \<union> {64 * (q * LWPP + fw)..<64 * (q * LWPP + y mod LWPP)} = {64 * x..<64 * y}"
    proof (cases "p = q")
      case True
      then show ?thesis using pq by (simp add: A_def fw_def)
    next
      case False
      then have "x \<le> q * LWPP" using pq(1,3) mult_le_mono1 [of "Suc p" q LWPP] mod_less_divisor [of LWPP x]
        by (simp add: LWPP_def)
      moreover have "q * LWPP \<le> y" using pq(2) by linarith
      moreover have "q * LWPP + y mod LWPP = y" using pq(2) by simp
      ultimately show ?thesis using False by (auto simp: A_def fw_def)
    qed
    then have "adds {64 * x..<64 * y} b b3" using adds_trans [OF b2(2) b3(2)] by (simp add: A_def)
    then show ?thesis using False b2(1) b3(1) by (simp add: p_def q_def)
  qed
qed

lemma some_bits_adds:
  assumes "layout_ok b" "c \<Longrightarrow> e < bm_bits b"
  shows "\<exists>b'. (if c then map_option snd (bm_change_bits_to b s e True) else Some b) = Some b'
    \<and> adds (if c then {s..e} else {}) b b'"
  using set_bits_adds [OF assms(1), of e s] assms(2) by auto

lemma set_bits_fast_adds:
  assumes "layout_ok b" "s \<le> e" "e < bm_bits b"
  shows "\<exists>b'. drbd_bm_set_bits_fast b s e = Some b' \<and> adds {s..e} b b'"
proof (cases "e - s \<le> 3 * BITS_PER_LONG")
  case True
  then show ?thesis using set_bits_adds [OF assms(1,3), of s] assms(2) by (auto simp: drbd_bm_set_bits_fast_def Let_def)
next
  case False
  define x y where "x = (s + 63) div 64" and "y = (e + 1) div 64"
  have xy: "s \<le> 64 * x" "64 * y \<le> e + 1" "x \<le> y" "64 * x \<le> e"
    using False assms(2) unfolding x_def y_def BITS_PER_LONG_def by linarith+
  have pg: "x * 64 div BITS_PER_PAGE = x div LWPP" "y * 64 div BITS_PER_PAGE = y div LWPP"
    by (simp_all add: bm_sizes div_mult2_eq [symmetric])
  have x1: "x * 64 - 1 < bm_bits b" using xy(4) assms(3) by linarith
  obtain b1 where b1: "(if x * 64 \<noteq> 0 then map_option snd (bm_change_bits_to b s (x * 64 - 1) True) else Some b) = Some b1"
    "adds (if x * 64 \<noteq> 0 then {s..x * 64 - 1} else {}) b b1"
    using some_bits_adds [OF assms(1), of "x * 64 \<noteq> 0" "x * 64 - 1" s, OF x1] by metis
  obtain b3 where b3: "do { (fw, b) \<leftarrow> full_pages [x div LWPP..<y div LWPP] (x mod LWPP) b1;
      if y mod LWPP \<noteq> 0 then bm_set_full_words_within_one_page (y div LWPP) fw (y mod LWPP) b else Some b } = Some b3"
    "adds {64 * x..<64 * y} b1 b3"
    using middle_words_adds [of b1 x y] adds_layout [OF b1(2)] assms(1,3) xy(2,3) by auto
  obtain b4 where b4: "(if y * 64 \<le> e then map_option snd (bm_change_bits_to b3 (y * 64) e True) else Some b3) = Some b4"
    "adds (if y * 64 \<le> e then {y * 64..e} else {}) b3 b4"
    using some_bits_adds [of b3 "y * 64 \<le> e" e "y * 64"] adds_layout [OF b3(2)] adds_layout [OF b1(2)] assms(1,3) by auto
  obtain fw b2 where b2: "full_pages [x div LWPP..<y div LWPP] (x mod LWPP) b1 = Some (fw, b2)"
    "(if y mod LWPP \<noteq> 0 then bm_set_full_words_within_one_page (y div LWPP) fw (y mod LWPP) b2 else Some b2) = Some b3"
    using b3(1) by (auto simp: bind_eq_Some_conv split: prod.splits)
  have d: "x * 64 div 64 = x" "y * 64 div 64 = y" "(s \<le> e \<and> e - s \<le> 3 * BITS_PER_LONG) = False" using False by simp_all
  have "drbd_bm_set_bits_fast b s e = Some b4"
    by (simp only: drbd_bm_set_bits_fast_def Let_def x_def [symmetric] y_def [symmetric] d if_False b1(1) bind.bind_lunit
        prod.case pg b2 b4(1))
  moreover have "adds (((if x * 64 \<noteq> 0 then {s..x * 64 - 1} else {}) \<union> {64 * x..<64 * y}) \<union> (if y * 64 \<le> e then {y * 64..e} else {})) b b4"
    by (intro adds_trans [OF adds_trans [OF b1(2) b3(2)] b4(2)]) auto
  moreover have "((if x * 64 \<noteq> 0 then {s..x * 64 - 1} else {}) \<union> {64 * x..<64 * y}) \<union> (if y * 64 \<le> e then {y * 64..e} else {}) = {s..e}"
    using xy by auto
  ultimately show ?thesis by metis
qed


subsection \<open>Clearing bits\<close>

lemma clear_bits_correct:
  assumes "bm_ok b" "e < bm_bits b"
  shows "\<exists>b'. bm_change_bits_to b s e False = Some (- int (card ({s..e} \<inter> oos b)), b') \<and> bm_ok b' \<and> oos b' = oos b - {s..e}"
proof -
  have l: "layout_ok b" using assms(1) by (simp add: bm_ok_def)
  have i: "{s..e} \<inter> {m. mem_bit (bm_mem b) m} = {s..e} \<inter> oos b" using assms(2) by (auto simp: oos_def)
  obtain b' where b': "bm_change_bits_to b s e False = Some (- int (card ({s..e} \<inter> oos b)), b')" "same_shape b b'"
    "bm_set b' = bm_set b + of_int (- int (card ({s..e} \<inter> oos b)))"
    "\<forall>m. mem_bit (bm_mem b') m = (if m \<in> {s..e} then False else mem_bit (bm_mem b) m)"
    using change_bits_to_correct [OF l assms(2), of s False] unfolding i by auto
  have o: "oos b' = oos b - {s..e}" using b'(2,4) by (auto simp: oos_def same_shape_def)
  have "card (oos b) = card (oos b - {s..e}) + card ({s..e} \<inter> oos b)"
    by (metis card_Diff_subset_Int Int_commute card_mono finite_Int finite_oos inf_le1 le_add_diff_inverse2)
  then have "bm_set b' = of_nat (card (oos b'))" using assms(1) b'(3) by (simp add: bm_ok_def o)
  then have "bm_ok b'"
    using assms b'(2,4) by (auto simp: bm_ok_def list_all_iff same_shape_def intro: same_shape_layout)
  then show ?thesis using b'(1) o by blast
qed

lemma mem_not_empty: "layout_ok b \<Longrightarrow> e < bm_bits b \<Longrightarrow> bm_mem b \<noteq> []"
  using page_of_bit(2) by fastforce


section \<open>Searching\<close>

definition next_bit :: "bool \<Rightarrow> drbd_bitmap \<Rightarrow> nat \<Rightarrow> nat option" where
  "next_bit zero b fo = find (\<lambda>n. mem_bit (bm_mem b) n \<noteq> zero) [fo..<bm_bits b]"

lemma find_upt_split: "x \<le> y \<Longrightarrow> y \<le> z \<Longrightarrow> find P [x..<z] = (case find P [x..<y] of None \<Rightarrow> find P [y..<z] | Some i \<Rightarrow> Some i)"
proof -
  assume "x \<le> y" "y \<le> z"
  then have "[x..<z] = [x..<y] @ [y..<z]" by (metis upt_add_eq_append le_add_diff_inverse)
  moreover have "find P (xs @ ys) = (case find P xs of None \<Rightarrow> find P ys | Some i \<Rightarrow> Some i)" for xs ys
    by (induction xs) auto
  ultimately show ?thesis by simp
qed

lemma find_shift: "find (\<lambda>i. P (k + i)) [x..<y] = map_option (\<lambda>i. i - k) (find P [k + x..<k + y])"
proof -
  have "find P (map ((+) k) xs) = map_option ((+) k) (find (\<lambda>i. P (k + i)) xs)" for xs
    by (induction xs) auto
  from this [of "[x..<y]"] show ?thesis unfolding shift_upt
    by (cases "find (\<lambda>i. P (k + i)) [x..<y]") simp_all
qed

lemma find_upt_Some:
  "find P [x..<y] = Some n \<longleftrightarrow> x \<le> n \<and> n < y \<and> P n \<and> (\<forall>m. x \<le> m \<and> m < n \<longrightarrow> \<not> P m)"
proof
  assume "find P [x..<y] = Some n"
  then obtain i where i: "i < y - x" "P (x + i)" "n = x + i" "\<forall>j < i. \<not> P ([x..<y] ! j)" by (auto simp: find_Some_iff)
  have "\<not> P m" if "x \<le> m" "m < n" for m
    using i(4) [rule_format, of "m - x"] that i(1,3) by auto
  then show "x \<le> n \<and> n < y \<and> P n \<and> (\<forall>m. x \<le> m \<and> m < n \<longrightarrow> \<not> P m)" using i by auto
next
  assume n: "x \<le> n \<and> n < y \<and> P n \<and> (\<forall>m. x \<le> m \<and> m < n \<longrightarrow> \<not> P m)"
  then have "n - x < length [x..<y]" "[x..<y] ! (n - x) = n" "\<forall>j < n - x. \<not> P ([x..<y] ! j)" by auto
  then show "find P [x..<y] = Some n" unfolding find_Some_iff using n by (intro exI [of _ "n - x"]) simp
qed

lemma find_upt_None: "find P [x..<y] = None \<longleftrightarrow> (\<forall>m. x \<le> m \<and> m < y \<longrightarrow> \<not> P m)"
  by (auto simp: find_None_iff)

lemma find_upt_other:
  assumes "find P [x..<y] = Some n"
  shows "find P [x..<z] = (if n < z then Some n else None)"
  using assms by (auto simp: find_upt_Some find_upt_None)

lemma find_next_loop_correct:
  assumes "layout_ok b"
  shows "find_next_loop zero b fo = Some (next_bit zero b fo)"
  using assms
proof (induction zero b fo rule: find_next_loop.induct)
  case (1 zero b fo)
  show ?case
  proof (cases "fo < bm_bits b")
    case True
    let ?P = "\<lambda>n. mem_bit (bm_mem b) n \<noteq> zero"
    define pg where "pg = fo div BITS_PER_PAGE"
    define k where "k = pg * BITS_PER_PAGE"
    have fo: "fo = k + fo mod BITS_PER_PAGE" "fo - fo mod BITS_PER_PAGE = k" "fo mod BITS_PER_PAGE < BITS_PER_PAGE"
      by (simp_all add: k_def pg_def minus_mod_eq_div_mult) (simp add: BITS_PER_PAGE_def)
    define r where "r = find ?P [fo..<k + BITS_PER_PAGE]"
    have i: "find_in_page zero (bm_mem b) pg (fo mod BITS_PER_PAGE) = (case r of None \<Rightarrow> BITS_PER_PAGE | Some n \<Rightarrow> n - k)"
      unfolding find_in_page_def k_def [symmetric] find_shift [of ?P k] fo(1) [symmetric] r_def
      by (simp split: option.split)
    have step: "find_next_loop zero b fo = (case r of None \<Rightarrow> find_next_loop zero b (k + BITS_PER_PAGE)
        | Some n \<Rightarrow> Some (if n \<ge> bm_bits b then None else Some n))"
    proof (cases r)
      case None
      then show ?thesis
        using True bit_to_page_idx [OF 1(2) True] i fo(2) by (subst find_next_loop.simps) (simp add: Let_def pg_def [symmetric])
    next
      case (Some n)
      then have "fo \<le> n" "n < k + BITS_PER_PAGE" unfolding r_def by (auto simp: find_Some_iff)
      then have "n - k < BITS_PER_PAGE" "k + (n - k) = n" using fo(1) by linarith+
      then show ?thesis
        using True bit_to_page_idx [OF 1(2) True] i fo(2) Some
        by (subst find_next_loop.simps) (simp add: Let_def pg_def [symmetric])
    qed
    show ?thesis
    proof (cases r)
      case None
      have IH: "find_next_loop zero b (k + BITS_PER_PAGE) = Some (next_bit zero b (k + BITS_PER_PAGE))"
        using 1(1) [OF True bit_to_page_idx [OF 1(2) True] refl refl] 1(2) i fo(2) None by (simp add: pg_def [symmetric])
      have "next_bit zero b fo = next_bit zero b (k + BITS_PER_PAGE)"
      proof (cases "k + BITS_PER_PAGE \<le> bm_bits b")
        case True
        then show ?thesis using find_upt_split [of fo "k + BITS_PER_PAGE" "bm_bits b" ?P] fo None
          by (simp add: next_bit_def r_def)
      next
        case False
        then show ?thesis using None find_upt_split [of fo "bm_bits b" "k + BITS_PER_PAGE" ?P] True
          by (simp add: next_bit_def r_def split: option.splits)
      qed
      then show ?thesis using step None IH by simp
    next
      case (Some n)
      then show ?thesis using step find_upt_other [of ?P fo "k + BITS_PER_PAGE" n "bm_bits b"]
        by (simp add: next_bit_def r_def)
    qed
  next
    case False
    then show ?thesis by (simp add: next_bit_def)
  qed
qed


lemma next_bit_spec:
  "case next_bit zero b fo of
     None \<Rightarrow> \<forall>n. fo \<le> n \<and> n < bm_bits b \<longrightarrow> mem_bit (bm_mem b) n = zero
   | Some n \<Rightarrow> fo \<le> n \<and> n < bm_bits b \<and> mem_bit (bm_mem b) n \<noteq> zero
       \<and> (\<forall>m. fo \<le> m \<and> m < n \<longrightarrow> mem_bit (bm_mem b) m = zero)"
proof (cases "next_bit zero b fo")
  case None
  then show ?thesis unfolding None option.case using None [unfolded next_bit_def find_upt_None] by simp
next
  case (Some n)
  then show ?thesis unfolding Some option.case using Some [unfolded next_bit_def find_upt_Some] by simp
qed

text \<open>
  C35: \<open>drbd_bm_find_next\<close> terminates without reaching a page that is not there and returns the
  first block out of sync from the given one on, or the end of the bitmap exactly when there is none; the search for a
  clear bit finds the first block in sync.
\<close>

theorem bm_find_next_first:
  assumes "bm_ok b"
  shows "(\<exists>r. drbd_bm_find_next b fo = Some r
      \<and> (case r of None \<Rightarrow> \<forall>n \<ge> fo. n \<notin> oos b
         | Some n \<Rightarrow> fo \<le> n \<and> n \<in> oos b \<and> (\<forall>m. fo \<le> m \<and> m < n \<longrightarrow> m \<notin> oos b)))
    \<and> (\<exists>r. bm_find_next True b fo = Some r
      \<and> (case r of None \<Rightarrow> {fo..<bm_bits b} \<subseteq> oos b
         | Some n \<Rightarrow> fo \<le> n \<and> n < bm_bits b \<and> n \<notin> oos b \<and> {fo..<n} \<subseteq> oos b))"
proof -
  have l: "layout_ok b" using assms by (simp add: bm_ok_def)
  have f: "bm_find_next zero b fo = Some (next_bit zero b fo)" for zero
    using find_next_loop_correct [OF l] by (simp add: bm_find_next_def next_bit_def)
  have "drbd_bm_find_next b fo = Some (next_bit False b fo)"
  proof (cases "bm_mem b = []")
    case True
    then have "bm_bits b = 0" using mem_not_empty [OF l] by blast
    then show ?thesis using True by (simp add: drbd_bm_find_next_def next_bit_def)
  qed (simp add: drbd_bm_find_next_def f)
  then show ?thesis
    using f [of True] next_bit_spec [where zero = False and b = b and fo = fo]
      next_bit_spec [where zero = True and b = b and fo = fo]
    by (auto simp: oos_def split: option.splits)
qed

section \<open>Surplus bits and counting\<close>

lemma used_mask_alt: "used_mask n = mask (n mod 64)"
  by (simp add: used_mask_def mask_eq_exp_minus_1 BITS_PER_LONG_def)

lemma used_mask_page: "used_mask (n mod BITS_PER_PAGE) = used_mask n"
  by (simp add: used_mask_def bm_sizes mod_mod_cancel)

lemma used_mask_0: "used_mask n = 0 \<longleftrightarrow> n mod 64 = 0"
  by (simp add: used_mask_alt)

lemma last_word_eq:
  assumes "layout_ok b" "bm_bits b mod 64 \<noteq> 0"
  shows "last_word_idx b = bm_bits b div 64" "bm_words b = Suc (bm_bits b div 64)"
proof -
  have e: "bm_bits b + 63 = 64 * Suc (bm_bits b div 64) + (bm_bits b mod 64 - 1)"
  proof -
    obtain k where k: "bm_bits b mod 64 = Suc k" using assms(2) by (cases "bm_bits b mod 64") auto
    then have "bm_bits b = bm_bits b div 64 * 64 + Suc k" using div_mult_mod_eq [of "bm_bits b" 64] by simp
    then show ?thesis unfolding k by simp
  qed
  have "bm_words b = (64 * Suc (bm_bits b div 64) + (bm_bits b mod 64 - 1)) div 64"
    using assms(1) unfolding layout_ok_def e by blast
  also have "\<dots> = Suc (bm_bits b div 64)" by (rule div_nat_eqI) simp_all
  finally show w: "bm_words b = Suc (bm_bits b div 64)" .
  then have "bm_number_of_pages b - 1 = bm_bits b div 64 div 512" using assms(1) by (simp add: layout_ok_def)
  moreover have "(bm_bits b mod 32768) div 64 = bm_bits b div 64 mod 512" by (simp add: mod_mult2_eq [of _ 64 512, simplified])
  ultimately show "last_word_idx b = bm_bits b div 64" by (simp add: last_word_idx_def bm_sizes)
qed


lemma div_mod_64: "m div 64 = i \<Longrightarrow> m = 64 * i + m mod 64" for m i :: nat
  by (metis div_mult_mod_eq mult.commute)

lemma in_word: "m div 64 = i \<longleftrightarrow> 64 * i \<le> m \<and> m < 64 * Suc i" for m i :: nat
  by auto

lemma below_in_word: "m div 64 = n div 64 \<Longrightarrow> m < n \<longleftrightarrow> m mod 64 < n mod 64" for m n :: nat
  using div_mult_mod_eq [of m 64] div_mult_mod_eq [of n 64] by linarith

lemma rest_of_word: "m \<in> {n..<64 * Suc (n div 64)} \<longleftrightarrow> m div 64 = n div 64 \<and> n mod 64 \<le> m mod 64" for m n :: nat
proof -
  have "m \<in> {n..<64 * Suc (n div 64)} \<longleftrightarrow> m div 64 = n div 64 \<and> \<not> m < n" by (auto simp: in_word)
  then show ?thesis using below_in_word [of m n] by auto
qed

lemma mem_bit_and:
  assumes "i < length ws"
  shows "mem_bit (ws[i := ws ! i AND w]) m \<longleftrightarrow> mem_bit ws m \<and> (m div 64 = i \<longrightarrow> bit w (m mod 64))"
  using assms by (cases "m div 64 = i") (auto simp: mem_bit_def BITS_PER_LONG_def bit_and_iff)

lemma clear_surplus_correct:
  assumes "layout_ok b" "0 < bm_bits b"
  defines "n \<equiv> fst (bm_clear_surplus b)" and "b' \<equiv> snd (bm_clear_surplus b)"
  shows "same_shape b b'" "bm_set b' = bm_set b"
    "n = card ({bm_bits b..<64 * bm_words b} \<inter> {m. mem_bit (bm_mem b) m})"
    "mem_bit (bm_mem b') m \<longleftrightarrow> mem_bit (bm_mem b) m \<and> m \<notin> {bm_bits b..<64 * bm_words b}"
proof -
  let ?k = "bm_bits b mod 64" and ?i = "bm_bits b div 64"
  have "same_shape b b' \<and> bm_set b' = bm_set b
    \<and> n = card ({bm_bits b..<64 * bm_words b} \<inter> {m. mem_bit (bm_mem b) m})
    \<and> (mem_bit (bm_mem b') m \<longleftrightarrow> mem_bit (bm_mem b) m \<and> m \<notin> {bm_bits b..<64 * bm_words b})"
  proof (cases "?k = 0")
    case True
    then have "64 * bm_words b = bm_bits b" using assms(1) by (auto simp: layout_ok_def)
    then show ?thesis using True by (simp add: n_def b'_def bm_clear_surplus_def Let_def used_mask_page used_mask_0)
  next
    case False
    note lw = last_word_eq [OF assms(1) False]
    have il: "?i < length (bm_mem b)" using page_of_bit(2) [OF assms(1), of "bm_bits b - 1"] assms(2) False
      by (metis Suc_pred div_Suc Suc_pred' diff_less less_numeral_extra(1) mod_Suc nat.simps(3) not_gr_zero)
    have r: "bm_clear_surplus b = (hweight_long (bm_mem b ! ?i AND NOT (mask ?k)), b\<lparr>bm_mem := (bm_mem b)[?i := bm_mem b ! ?i AND mask ?k]\<rparr>)"
      unfolding bm_clear_surplus_def Let_def used_mask_page lw(1) unfolding used_mask_alt using False by simp
    have in_s: "m \<in> {bm_bits b..<64 * bm_words b} \<longleftrightarrow> m div 64 = ?i \<and> ?k \<le> m mod 64" for m
      unfolding lw(2) by (rule rest_of_word)
    have bm: "bit (mask ?k :: u64) j \<longleftrightarrow> j < ?k" "j < 64 \<Longrightarrow> bit (NOT (mask ?k) :: u64) j \<longleftrightarrow> ?k \<le> j" for j
      by (auto simp: bit_mask_iff possible_bit_word bit_not_iff)
    have "hweight_long (bm_mem b ! ?i AND NOT (mask ?k))
        = card ({64 * ?i..<64 * Suc ?i} \<inter> {m. mem_bit ((bm_mem b)[?i := bm_mem b ! ?i AND NOT (mask ?k)]) m})"
      using word_bits_card [of ?i "(bm_mem b)[?i := bm_mem b ! ?i AND NOT (mask ?k)]"] il by simp
    also have "{64 * ?i..<64 * Suc ?i} \<inter> {m. mem_bit ((bm_mem b)[?i := bm_mem b ! ?i AND NOT (mask ?k)]) m}
        = {bm_bits b..<64 * bm_words b} \<inter> {m. mem_bit (bm_mem b) m}"
      using in_s bm(2) by (auto simp: mem_bit_and [OF il] in_word)
    finally have "n = card ({bm_bits b..<64 * bm_words b} \<inter> {m. mem_bit (bm_mem b) m})" by (simp add: n_def r)
    moreover have "mem_bit (bm_mem b') m \<longleftrightarrow> mem_bit (bm_mem b) m \<and> m \<notin> {bm_bits b..<64 * bm_words b}"
    proof -
      have "bm_mem b' = (bm_mem b)[?i := bm_mem b ! ?i AND mask ?k]" by (simp add: b'_def r)
      then show ?thesis unfolding in_s by (simp only: mem_bit_and [OF il] bm(1) not_le de_Morgan_conj) blast
    qed
    ultimately show ?thesis by (simp add: b'_def r same_shape_def)
  qed
  then show "same_shape b b'" "bm_set b' = bm_set b"
    "n = card ({bm_bits b..<64 * bm_words b} \<inter> {m. mem_bit (bm_mem b) m})"
    "mem_bit (bm_mem b') m \<longleftrightarrow> mem_bit (bm_mem b) m \<and> m \<notin> {bm_bits b..<64 * bm_words b}" by auto
qed

lemma layout_words:
  assumes "layout_ok b" "0 < bm_bits b"
  shows "bm_words b = Suc ((bm_bits b - 1) div 64)" "bm_words b \<le> length (bm_mem b)"
    "(bm_number_of_pages b - 1) * LWPP \<le> bm_words b - 1"
    "(bm_number_of_pages b - 1) * LWPP + ((bm_bits b - 1) mod BITS_PER_PAGE) div BITS_PER_LONG = bm_words b - 1"
proof -
  show w: "bm_words b = Suc ((bm_bits b - 1) div 64)" using assms by (simp add: layout_ok_def)
  show "bm_words b \<le> length (bm_mem b)" using page_of_bit(2) [OF assms(1), of "bm_bits b - 1"] assms(2) w by simp
  have p: "bm_number_of_pages b - 1 = (bm_words b - 1) div 512" using assms(1) w by (simp add: layout_ok_def)
  then show "(bm_number_of_pages b - 1) * LWPP \<le> bm_words b - 1" by (simp add: LWPP_def)
  have "((bm_bits b - 1) mod 32768) div 64 = (bm_words b - 1) mod 512"
    using w mod_mult2_eq [of "bm_bits b - 1" 64 512] by simp
  then show "(bm_number_of_pages b - 1) * LWPP + ((bm_bits b - 1) mod BITS_PER_PAGE) div BITS_PER_LONG = bm_words b - 1"
    using p by (simp add: bm_sizes)
qed

text \<open>
  C36: \<open>bm_count_bits\<close> returns the number of bits set in the bitmap it leaves behind and otherwise only
  clears surplus bits, except when the number of bits is a multiple of 64: then the mask of the last
  word is empty, and the 64 last blocks are silently marked as in sync.
\<close>

theorem bm_count_bits_result:
  assumes "layout_ok b" "0 < bm_bits b"
  shows "\<exists>b'. bm_count_bits b = (card (oos b'), b') \<and> same_shape b b' \<and> bm_set b' = bm_set b
    \<and> list_all (\<lambda>n. \<not> mem_bit (bm_mem b') n) [bm_bits b..<64 * bm_words b]
    \<and> oos b' = (if bm_bits b mod 64 = 0 then oos b - {bm_bits b - 64..<bm_bits b} else oos b)"
proof -
  note w = layout_words [OF assms]
  define l where "l = bm_words b - 1"
  define b' where "b' = b\<lparr>bm_mem := (bm_mem b)[l := bm_mem b ! l AND used_mask (bm_bits b)]\<rparr>"
  have l: "l < length (bm_mem b)" "(bm_number_of_pages b - 1) * LWPP \<le> l" "bm_words b = Suc l" using w by (simp_all add: l_def)
  let ?f = "(bm_number_of_pages b - 1) * LWPP"
  have "map hweight_long (take ?f (bm_mem b)) = map (\<lambda>i. hweight_long (bm_mem b ! i)) [0..<?f]"
    using l(1,2) by (intro nth_equalityI) simp_all
  then have "fst (bm_count_bits b) = (\<Sum>i\<leftarrow>[0..<?f] @ [?f..<l]. hweight_long (bm_mem b ! i)) + hweight_long (bm_mem b' ! l)"
    using l(1) w(4) by (simp add: bm_count_bits_def Let_def b'_def l_def)
  also have "[0..<?f] @ [?f..<l] = [0..<l]" using l(2) by (metis le_add_diff_inverse upt_add_eq_append zero_le add_0)
  also have "(\<Sum>i\<leftarrow>[0..<l]. hweight_long (bm_mem b ! i)) = (\<Sum>i\<leftarrow>[0..<l]. hweight_long (bm_mem b' ! i))"
    by (intro arg_cong [where f = sum_list] map_cong) (auto simp: b'_def)
  finally have c: "fst (bm_count_bits b) = card ({0..<64 * bm_words b} \<inter> {m. mem_bit (bm_mem b') m})"
    using words_card [of 0 "Suc l" "bm_mem b'"] by (simp add: l(3))
  have mb: "mem_bit (bm_mem b') m \<longleftrightarrow> mem_bit (bm_mem b) m \<and> (m div 64 = l \<longrightarrow> m mod 64 < bm_bits b mod 64)" for m
    by (simp add: b'_def mem_bit_and [OF l(1)] used_mask_alt bit_mask_iff possible_bit_word)
  have "(\<forall>m \<in> {bm_bits b..<64 * bm_words b}. \<not> mem_bit (bm_mem b') m)
    \<and> oos b' = (if bm_bits b mod 64 = 0 then oos b - {bm_bits b - 64..<bm_bits b} else oos b)"
  proof (cases "bm_bits b mod 64 = 0")
    case True
    then have B: "bm_bits b = 64 * Suc l" using assms(1) l(3) by (auto simp: layout_ok_def)
    have "m div 64 = l \<longleftrightarrow> m \<in> {bm_bits b - 64..<bm_bits b}" for m by (auto simp: B in_word)
    then show ?thesis using True mb B l(3) by (auto simp: oos_def b'_def)
  next
    case False
    have B: "bm_bits b div 64 = l" using l(3) last_word_eq(2) [OF assms(1) False] by simp
    have "m div 64 = l \<Longrightarrow> m mod 64 < bm_bits b mod 64 \<longleftrightarrow> m < bm_bits b" for m
      using below_in_word [of m "bm_bits b"] B by simp
    moreover have "m \<in> {bm_bits b..<64 * bm_words b} \<Longrightarrow> m div 64 = l" for m
      using rest_of_word [of m "bm_bits b"] B l(3) by simp
    ultimately show ?thesis using False mb by (auto simp: oos_def b'_def)
  qed
  then have z: "\<forall>m \<in> {bm_bits b..<64 * bm_words b}. \<not> mem_bit (bm_mem b') m"
    and o': "oos b' = (if bm_bits b mod 64 = 0 then oos b - {bm_bits b - 64..<bm_bits b} else oos b)" by blast+
  have "bm_bits b \<le> 64 * bm_words b" using w(1) by linarith
  then have o: "{0..<64 * bm_words b} \<inter> {m. mem_bit (bm_mem b') m} = oos b'"
    using z by (auto simp: oos_def b'_def not_less)
  note o'
  moreover have "bm_count_bits b = (card (oos b'), b')"
    using c o w(4) by (simp add: prod_eq_iff) (simp add: bm_count_bits_def Let_def b'_def l_def)
  ultimately show ?thesis using z by (auto simp: list_all_iff b'_def same_shape_def)
qed

section \<open>Whole words\<close>

lemma mark_pages_frame [simp]:
  "bm_mem (mark_pages bm_set_page_need_writeout x y b) = bm_mem b" "bm_set (mark_pages bm_set_page_need_writeout x y b) = bm_set b"
  "bm_bits (mark_pages bm_set_page_need_writeout x y b) = bm_bits b" "bm_words (mark_pages bm_set_page_need_writeout x y b) = bm_words b"
  "same_shape b (mark_pages bm_set_page_need_writeout x y b)"
proof -
  have "bm_mem (fold bm_set_page_need_writeout ps b) = bm_mem b \<and> bm_set (fold bm_set_page_need_writeout ps b) = bm_set b
      \<and> same_shape b (fold bm_set_page_need_writeout ps b)" for ps
    by (induction ps arbitrary: b) (auto simp: bm_set_page_need_writeout_def upd_page_def same_shape_def)
  then show "bm_mem (mark_pages bm_set_page_need_writeout x y b) = bm_mem b"
    "bm_set (mark_pages bm_set_page_need_writeout x y b) = bm_set b" "same_shape b (mark_pages bm_set_page_need_writeout x y b)"
    "bm_bits (mark_pages bm_set_page_need_writeout x y b) = bm_bits b" "bm_words (mark_pages bm_set_page_need_writeout x y b) = bm_words b"
    by (auto simp: mark_pages_def same_shape_def)
qed

text \<open>The bits of the words \<open>buffer\<close>, placed at word \<open>offset\<close>.\<close>

definition word_bits :: "nat \<Rightarrow> u64 list \<Rightarrow> nat set" where
  "word_bits offset buffer = {m. offset \<le> m div 64 \<and> m div 64 < offset + length buffer \<and> bit (buffer ! (m div 64 - offset)) (m mod 64)}"

lemma word_bits_bound: "word_bits offset buffer \<subseteq> {..<64 * (offset + length buffer)}"
  unfolding word_bits_def by (auto simp: div_less_iff_less_mult mult.commute)

lemma finite_word_bits [simp]: "finite (word_bits offset buffer)"
  using word_bits_bound finite_subset by blast

lemma word_bits_Nil [simp]: "word_bits offset [] = {}"
  using word_bits_bound by (auto simp: word_bits_def)

lemma word_bits_take:
  "n \<le> length buffer \<Longrightarrow> word_bits offset (take n buffer)
    = {m. offset \<le> m div 64 \<and> m div 64 < offset + n \<and> bit (buffer ! (m div 64 - offset)) (m mod 64)}"
  by (auto simp: word_bits_def)

lemma mem_bit_or:
  "i < length ws \<Longrightarrow> mem_bit (ws[i := ws ! i OR w]) m \<longleftrightarrow> mem_bit ws m \<or> m div 64 = i \<and> bit w (m mod 64)"
  by (cases "m div 64 = i") (auto simp: mem_bit_def BITS_PER_LONG_def bit_or_iff)

lemma merge_step_adds:
  assumes "i < length (bm_mem b)" "offset \<le> i"
  shows "adds {m. m div 64 = i \<and> bit (buffer ! (i - offset)) (m mod 64)} b (merge_step offset buffer i b)"
proof -
  define w where "w = bm_mem b ! i OR buffer ! (i - offset)"
  define A where "A = {m. m div 64 = i \<and> bit (buffer ! (i - offset)) (m mod 64)}"
  define ws where "ws = (bm_mem b)[i := w]"
  let ?W = "{64 * i..<64 * Suc i}" and ?S = "{m. mem_bit (bm_mem b) m}"
  have b: "mem_bit ws m \<longleftrightarrow> m \<in> A \<or> mem_bit (bm_mem b) m" for m
    using mem_bit_or [OF assms(1)] by (auto simp: ws_def w_def A_def)
  have lw: "length ws = length (bm_mem b)" by (simp add: ws_def)
  have AW: "A \<subseteq> ?W" by (auto simp: A_def)
  have "?W \<inter> {m. mem_bit ws m} = (?W \<inter> ?S) \<union> (A - ?S)" using b AW by auto
  then have "card (?W \<inter> {m. mem_bit ws m}) = card (?W \<inter> ?S) + card (A - ?S)"
    using finite_subset [OF AW] by (simp only:) (rule card_Un_disjoint, auto)
  then have "hweight_long w = hweight_long (bm_mem b ! i) + card (A - ?S)"
    unfolding word_bits_card using assms(1) by (simp add: ws_def)
  then show ?thesis
    unfolding A_def [symmetric] adds_def using b lw by (auto simp: merge_step_def Let_def w_def [symmetric] ws_def [symmetric] same_shape_def)
qed

lemma word_bits_snoc:
  "n < length buffer \<Longrightarrow> word_bits offset (take (Suc n) buffer)
    = word_bits offset (take n buffer) \<union> {m. m div 64 = offset + n \<and> bit (buffer ! (offset + n - offset)) (m mod 64)}"
  by (auto simp: word_bits_take less_Suc_eq)

lemma merge_adds:
  assumes "offset + n \<le> length (bm_mem b)" "n \<le> length buffer"
  shows "adds (word_bits offset (take n buffer)) b (fold (merge_step offset buffer) [offset..<offset + n] b)"
  using assms
proof (induction n)
  case 0
  then show ?case by simp
next
  case (Suc n)
  define b1 where "b1 = fold (merge_step offset buffer) [offset..<offset + n] b"
  have 1: "adds (word_bits offset (take n buffer)) b b1" using Suc by (simp add: b1_def)
  then have "adds {m. m div 64 = offset + n \<and> bit (buffer ! (offset + n - offset)) (m mod 64)} b1 (merge_step offset buffer (offset + n) b1)"
    using Suc.prems by (intro merge_step_adds) (auto simp: adds_def same_shape_def)
  from adds_trans [OF 1 this] show ?case
    using Suc.prems(2) word_bits_snoc [of n buffer offset] finite_word_bits [of offset "take (Suc n) buffer"]
    by (simp add: b1_def)
qed

lemma clear_surplus_ok:
  assumes "layout_ok b" "0 < bm_bits b" "bm_set b = of_nat (card {m. m < 64 * bm_words b \<and> mem_bit (bm_mem b) m})"
  shows "case bm_clear_surplus b of (n, b1) \<Rightarrow>
    bm_ok (b1\<lparr>bm_set := bm_set b1 - of_nat n\<rparr>) \<and> oos b1 = oos b \<and> same_shape b b1"
proof -
  obtain n b1 where c: "bm_clear_surplus b = (n, b1)" by fastforce
  note cs = clear_surplus_correct [OF assms(1,2), unfolded c fst_conv snd_conv]
  have w: "bm_bits b \<le> 64 * bm_words b" using assms(1) by (auto simp: layout_ok_def)
  have sh: "bm_bits b1 = bm_bits b" "bm_words b1 = bm_words b" using cs(1) by (simp_all add: same_shape_def)
  have o: "oos b1 = oos b" unfolding oos_def sh(1) cs(4) by auto
  have "{m. m < 64 * bm_words b \<and> mem_bit (bm_mem b) m} = oos b \<union> ({bm_bits b..<64 * bm_words b} \<inter> {m. mem_bit (bm_mem b) m})"
    using w by (auto simp: oos_def)
  moreover have "card (oos b \<union> ({bm_bits b..<64 * bm_words b} \<inter> {m. mem_bit (bm_mem b) m})) = card (oos b) + n"
    unfolding cs(3) by (rule card_Un_disjoint) (auto simp: oos_def)
  ultimately have "bm_set b1 - of_nat n = of_nat (card (oos b1))" using assms(3) cs(2) o by simp
  moreover have "layout_ok b1" using same_shape_layout [OF cs(1) assms(1)] .
  moreover have "\<not> mem_bit (bm_mem b1) m" if "bm_bits b \<le> m" "m < 64 * bm_words b" for m using that unfolding cs(4) by simp
  ultimately show ?thesis using cs(1) o
    by (simp add: c bm_ok_def list_all_iff sh layout_ok_def oos_def)
qed

lemma mem_in_oos: "bm_ok b \<Longrightarrow> m < 64 * bm_words b \<Longrightarrow> mem_bit (bm_mem b) m \<longleftrightarrow> m \<in> oos b"
  by (auto simp: bm_ok_def list_all_iff oos_def not_le intro: ccontr)

lemma merge_lel_correct:
  assumes "bm_ok b" "offset + length buffer \<le> bm_words b"
  shows "\<exists>b'. drbd_bm_merge_lel offset buffer b = Some b' \<and> bm_ok b' \<and> same_shape b b'
    \<and> oos b' = oos b \<union> (word_bits offset buffer \<inter> {..<bm_bits b})"
proof (cases "buffer = []")
  case True
  then show ?thesis using assms(1) by (simp add: drbd_bm_merge_lel_def)
next
  case False
  let ?A = "word_bits offset buffer" and ?e = "offset + length buffer"
  have l: "layout_ok b" using assms by (simp add: bm_ok_def)
  have "0 < bm_words b" using assms(2) False by (cases buffer) auto
  then have pos: "0 < bm_bits b" using l by (cases "bm_bits b") (auto simp: layout_ok_def)
  note lw = layout_words [OF l pos]
  define b1 where "b1 = mark_pages bm_set_page_need_writeout offset ?e (fold (merge_step offset buffer) [offset..<?e] b)"
  have ad: "adds ?A b b1"
    using merge_adds [of offset "length buffer" b buffer] assms(2) lw(2) same_shape_trans
    by (auto simp: b1_def adds_def)
  have "length (bm_mem b) = bm_number_of_pages b * 512" "0 < length buffer" using l False by (simp_all add: layout_ok_def LWPP_def)
  then have "?e - 1 < bm_number_of_pages b * 512" using assms(2) lw(2) by linarith
  then have "\<not> bm_number_of_pages b \<le> (?e - 1) div LWPP" by (simp add: LWPP_def not_le less_mult_imp_div_less)
  moreover have "bm_mem b \<noteq> []" using mem_not_empty [OF l pos] .
  ultimately have m: "drbd_bm_merge_lel offset buffer b = Some (if ?e = bm_words b
      then let (cleared, b) = bm_clear_surplus b1 in b\<lparr>bm_set := bm_set b - of_nat cleared\<rparr> else b1)"
    using False adds_def ad by (simp add: drbd_bm_merge_lel_def Let_def b1_def [symmetric] same_shape_def)
  show ?thesis
  proof (cases "?e = bm_words b")
    case False
    then have "64 * ?e \<le> bm_bits b" using assms(2) lw(1) by simp
    then have "?A \<subseteq> {..<bm_bits b}" using word_bits_bound [of offset buffer] by auto
    then show ?thesis using m False adds_ok [OF ad assms(1)] ad by (auto simp: adds_def)
  next
    case True
    have sh: "bm_bits b1 = bm_bits b" "bm_words b1 = bm_words b" "same_shape b b1" using ad by (auto simp: adds_def same_shape_def)
    have "{m. m < 64 * bm_words b \<and> mem_bit (bm_mem b1) m} = oos b \<union> (?A - oos b)"
      using ad assms(1) word_bits_bound [of offset buffer] True by (auto simp: adds_def oos_def bm_ok_def list_all_iff layout_ok_def)
    then have "card {m. m < 64 * bm_words b \<and> mem_bit (bm_mem b1) m} = card (oos b) + card (?A - oos b)"
      by (simp only:) (rule card_Un_disjoint, auto)
    moreover have "?A - {m. mem_bit (bm_mem b) m} = ?A - oos b"
      using mem_in_oos [OF assms(1)] word_bits_bound [of offset buffer] True by (auto simp: oos_def)
    ultimately have "bm_set b1 = of_nat (card {m. m < 64 * bm_words b1 \<and> mem_bit (bm_mem b1) m})"
      using ad assms(1) sh by (simp add: adds_def bm_ok_def)
    from clear_surplus_ok [OF adds_layout(1) [OF ad l] _ this] sh pos
    obtain n b2 where b2: "bm_clear_surplus b1 = (n, b2)" "bm_ok (b2\<lparr>bm_set := bm_set b2 - of_nat n\<rparr>)" "oos b2 = oos b1" "same_shape b1 b2"
      by (auto split: prod.splits)
    have "oos b1 = oos b \<union> (?A \<inter> {..<bm_bits b})" using ad by (auto simp: adds_def oos_def same_shape_def)
    then show ?thesis using m True b2 sh(3) by (simp add: oos_def same_shape_def)
  qed
qed

section \<open>Examples\<close>

text \<open>Ten blocks, 0 and 2 out of sync; and 128 blocks, the first and the last out of sync.\<close>

definition ex_bm :: drbd_bitmap where
  "ex_bm = \<lparr>bm_mem = 5 # replicate 511 0, bm_private = [fresh_page], bm_set = 2, bm_bits = 10, bm_words = 1,
            bm_number_of_pages = 1, bm_dev_capacity = 80\<rparr>"

definition ex_bm_full :: drbd_bitmap where
  "ex_bm_full = \<lparr>bm_mem = 1 # 0x8000000000000000 # replicate 510 0, bm_private = [fresh_page], bm_set = 2, bm_bits = 128, bm_words = 2,
                 bm_number_of_pages = 1, bm_dev_capacity = 1024\<rparr>"

lemma oos_filter: "oos b = set (filter (mem_bit (bm_mem b)) [0..<bm_bits b])"
  by (auto simp: oos_def)

lemma ex_bm_oos: "oos ex_bm = {0, 2}"
proof -
  have "filter (mem_bit (bm_mem ex_bm)) [0..<bm_bits ex_bm] = [0, 2]" by code_simp
  then show ?thesis unfolding oos_filter by simp
qed

lemma ex_bm_ok: "bm_ok ex_bm"
proof -
  have "list_all (\<lambda>n. \<not> mem_bit (bm_mem ex_bm) n) [bm_bits ex_bm..<64 * bm_words ex_bm]" by code_simp
  then show ?thesis unfolding bm_ok_def ex_bm_oos by (simp add: layout_ok_def ex_bm_def LWPP_def)
qed

lemma ex_bm_full_oos: "oos ex_bm_full = {0, 127}"
proof -
  have "filter (mem_bit (bm_mem ex_bm_full)) [0..<bm_bits ex_bm_full] = [0, 127]" by code_simp
  then show ?thesis unfolding oos_filter by simp
qed

lemma ex_bm_full_ok: "bm_ok ex_bm_full"
proof -
  have "list_all (\<lambda>n. \<not> mem_bit (bm_mem ex_bm_full) n) [bm_bits ex_bm_full..<64 * bm_words ex_bm_full]" by code_simp
  then show ?thesis unfolding bm_ok_def ex_bm_full_oos by (simp add: layout_ok_def ex_bm_full_def LWPP_def)
qed


theorem bm_find_next_first_witness:
  "(\<exists>r. drbd_bm_find_next ex_bm 1 = Some r \<and> (case r of None \<Rightarrow> False | Some n \<Rightarrow> n = 2))
    \<and> (\<exists>r. bm_find_next True ex_bm 2 = Some r \<and> (case r of None \<Rightarrow> False | Some n \<Rightarrow> n = 3))"
proof
  show "\<exists>r. drbd_bm_find_next ex_bm 1 = Some r \<and> (case r of None \<Rightarrow> False | Some n \<Rightarrow> n = 2)"
    using bm_find_next_first [OF ex_bm_ok, of 1, THEN conjunct1] unfolding ex_bm_oos by (fastforce split: option.splits)
  have "\<not> {2..<10} \<subseteq> {0, 2 :: nat}" by (auto simp: subset_eq intro!: bexI [of _ 3])
  moreover have "{2..<n} \<subseteq> {0, 2 :: nat} \<Longrightarrow> n \<notin> {0, 2} \<Longrightarrow> 2 \<le> n \<Longrightarrow> n = 3" for n
    by (rule ccontr) (auto simp: subset_eq dest: bspec [of _ _ 3])
  ultimately show "\<exists>r. bm_find_next True ex_bm 2 = Some r \<and> (case r of None \<Rightarrow> False | Some n \<Rightarrow> n = 3)"
    using bm_find_next_first [OF ex_bm_ok, of 2, THEN conjunct2] unfolding ex_bm_oos by (fastforce simp: ex_bm_def split: option.splits)
qed

theorem bm_count_bits_result_witness:
  "oos ex_bm_full = {0, 127} \<and> (\<exists>b'. bm_count_bits ex_bm_full = (1, b') \<and> oos b' = {0})"
proof -
  have "layout_ok ex_bm_full" "0 < bm_bits ex_bm_full" using ex_bm_full_ok by (simp_all add: bm_ok_def) (simp add: ex_bm_full_def)
  from bm_count_bits_result [OF this] obtain b' where
    "bm_count_bits ex_bm_full = (card (oos b'), b')" "oos b' = {0, 127} - {64..<128}"
    unfolding ex_bm_full_oos by (auto simp: ex_bm_full_def)
  moreover have "{0, 127} - {64..<128} = {0 :: nat}" by auto
  ultimately show ?thesis using ex_bm_full_oos by auto
qed

end
