(* ===== verification/Bm_Xfer_Facts.thy ===== *)
theory Bm_Xfer_Facts
  imports Bm_Xfer Bitmap_Facts
begin

text \<open>
  The exchange of the bitmap is correct: the receiver decodes exactly the runs the sender encoded, whatever the peer
  sends keeps the bitmap of the receiver consistent, and a complete transfer adds the blocks of the sender to those of the receiver.
\<close>


section \<open>The look-ahead window of the receiver\<close>

text \<open>\<open>w\<close> holds \<open>k\<close> bits of the code from position \<open>p\<close> on, and the stream stands behind them.\<close>

definition code_end :: "u8 list \<Rightarrow> nat \<Rightarrow> nat" where
  "code_end code pad = 8 * length code - pad"

definition window :: "u8 list \<Rightarrow> nat \<Rightarrow> nat \<Rightarrow> nat \<Rightarrow> u64 \<Rightarrow> bitstream \<Rightarrow> bool" where
  "window code pad p k w bs \<longleftrightarrow> bs_ok bs \<and> bs_buf bs = code \<and> pad_bits bs = pad \<and> pad < 8 \<and> pad \<le> 8 * length code
     \<and> bs_pos bs = p + k \<and> p + k \<le> code_end code pad \<and> (k = 64 \<or> p + k = code_end code pad) \<and> k \<le> 64
     \<and> (\<forall>j < 64. bit w j \<longleftrightarrow> j < k \<and> stream_bit code (p + j))"

lemma window_avail: "window code pad p k w bs \<Longrightarrow> avail_bits bs = int (code_end code pad - (p + k))"
  by (auto simp: window_def avail_bits_def code_end_def bs_pos_def)

lemma nat_min_int [simp]: "nat (min (int m) (int n)) = min m n"
  by (simp add: min_def)

text \<open>Fetching up to \<open>n\<close> bits, in terms of the code that is left.\<close>

lemma get_bits_min:
  assumes "bs_ok bs" "pad_bits bs < 8" "0 < n" "n \<le> 64" "avail_bits bs = int a"
  shows "\<exists>v bs'. bitstream_get_bits bs n = Some (Inr (min a n, v, bs')) \<and> bs_pos bs' = bs_pos bs + min a n \<and> bs_ok bs'
    \<and> bs_buf bs' = bs_buf bs \<and> pad_bits bs' = pad_bits bs
    \<and> (\<forall>j < 64. bit v j \<longleftrightarrow> j < min a n \<and> stream_bit (bs_buf bs) (bs_pos bs + j))"
  using bitstream_get_bits_spec [OF assms(1-4)] assms(5) by simp

lemma window_init:
  assumes "code \<noteq> []" "pad < 8"
  shows "\<exists>k w bs. bitstream_get_bits (bitstream_init code pad) 64 = Some (Inr (k, w, bs)) \<and> window code pad 0 k w bs"
proof -
  let ?bs = "bitstream_init code pad" and ?m = "min (code_end code pad) 64"
  have l: "1 \<le> length code" using assms(1) by (cases code) auto
  have i: "bs_ok ?bs" "pad_bits ?bs < 8" "bs_pos ?bs = 0" "bs_buf ?bs = code" "pad_bits ?bs = pad"
    using assms(2) by (simp_all add: bitstream_init_def bs_ok_def bs_pos_def)
  have a: "avail_bits ?bs = int (code_end code pad)"
    using l assms(2) by (simp add: bitstream_init_def avail_bits_def code_end_def)
  obtain v bs' where g: "bitstream_get_bits ?bs 64 = Some (Inr (?m, v, bs'))" "bs_pos bs' = ?m" "bs_ok bs'"
      "bs_buf bs' = code" "pad_bits bs' = pad" "\<forall>j < 64. bit v j \<longleftrightarrow> j < ?m \<and> stream_bit code j"
    using get_bits_min [OF i(1,2) _ _ a, of 64] unfolding i(3,4,5) by auto
  show ?thesis using g assms(2) l by (intro exI [of _ ?m] exI [of _ v] exI [of _ bs']) (auto simp: window_def)
qed

lemma window_step:
  assumes "window code pad p k w bs" "0 < t" "t \<le> k"
  shows "\<exists>n v bs'. bitstream_get_bits bs (64 - (k - t)) = Some (Inr (n, v, bs'))
    \<and> window code pad (p + t) (k - t + n) ((if t < 64 then drop_bit t w else 0) OR push_bit (k - t) v) bs'"
proof -
  define n where "n = min (code_end code pad - (p + k)) (64 - (k - t))"
  have k: "k \<le> 64" "bs_ok bs" "pad_bits bs < 8" "bs_pos bs = p + k" "bs_buf bs = code" "pad_bits bs = pad"
    "\<forall>j < 64. bit w j \<longleftrightarrow> j < k \<and> stream_bit code (p + j)" "p + k \<le> code_end code pad" "k = 64 \<or> p + k = code_end code pad"
    using assms(1) by (simp_all add: window_def)
  have pos: "0 < 64 - (k - t)" "64 - (k - t) \<le> 64" using assms(2,3) k(1) by linarith+
  obtain v bs' where g: "bitstream_get_bits bs (64 - (k - t)) = Some (Inr (n, v, bs'))" "bs_pos bs' = p + k + n"
      "bs_ok bs'" "bs_buf bs' = code" "pad_bits bs' = pad" "\<forall>j < 64. bit v j \<longleftrightarrow> j < n \<and> stream_bit code (p + k + j)"
    using get_bits_min [OF k(2,3) pos window_avail [OF assms(1)]] unfolding k(4,5,6) n_def [symmetric] by blast
  define w' where "w' = (if t < 64 then drop_bit t w else 0) OR push_bit (k - t) v"
  have "bit w' j \<longleftrightarrow> j < k - t + n \<and> stream_bit code (p + t + j)" if j: "j < 64" for j
  proof -
    have 1: "bit (if t < 64 then drop_bit t w else 0) j \<longleftrightarrow> j < k - t \<and> stream_bit code (p + t + j)"
    proof (cases "t + j < 64")
      case True
      then have "bit w (t + j) \<longleftrightarrow> j < k - t \<and> stream_bit code (p + t + j)" using k(7) by (auto simp: add.assoc)
      then show ?thesis using True by (simp add: bit_drop_bit_eq)
    next
      case False
      then have "\<not> bit w (t + j)" "\<not> j < k - t" using k(1) bit_imp_le_length [of w "t + j"] by auto
      then show ?thesis by (simp add: bit_drop_bit_eq)
    qed
    have 2: "bit (push_bit (k - t) v) j \<longleftrightarrow> k - t \<le> j \<and> j - (k - t) < n \<and> stream_bit code (p + t + j)"
    proof (cases "k - t \<le> j")
      case True
      then have "p + k + (j - (k - t)) = p + t + j" using assms(3) by linarith
      then show ?thesis using g(6) [rule_format, of "j - (k - t)"] True j by (auto simp: bit_push_bit_iff ac_simps)
    qed (simp add: bit_push_bit_iff)
    show ?thesis unfolding w'_def bit_or_iff 1 2 by auto
  qed
  then have "window code pad (p + t) (k - t + n) w' bs'"
    using assms g k unfolding window_def by (auto simp: n_def)
  then show ?thesis using g(1) w'_def by blast
qed

text \<open>Whatever bits the peer sent, a window with bits left decodes to a run of at least one block.\<close>

lemma window_decode:
  "\<exists>t rl. vli_decode_bits w = Some (t, rl) \<and> 0 < t \<and> t \<le> 64 \<and> 0 < unat rl"
  by (rule vli.decode_total)

lemma run_set:
  assumes "bm_ok b" "toggle \<longrightarrow> s \<le> e \<and> e < bm_bits b"
  shows "\<exists>b'. (if toggle then drbd_bm_set_bits_fast b s e else Some b) = Some b' \<and> bm_ok b' \<and> same_shape b b'
    \<and> oos b' = oos b \<union> (if toggle then {s..e} else {})"
proof (cases toggle)
  case True
  then obtain b' where "drbd_bm_set_bits_fast b s e = Some b'" "adds {s..e} b b'"
    using set_bits_fast_adds [of b s e] assms by (auto simp: bm_ok_def)
  moreover have "{s..e} \<subseteq> {..<bm_bits b}" using assms(2) True by auto
  ultimately show ?thesis using True adds_ok [of "{s..e}" b b'] assms(1) by (auto simp: adds_def)
qed (use assms(1) in simp)

lemma recv_round:
  assumes "k \<noteq> 0" "vli_decode_bits w = Some (t, rl)" "e = s + unat rl - 1" "\<not> (toggle \<and> x_bm_bits c \<le> e)"
    "(if toggle then drbd_bm_set_bits_fast b s e else Some b) = Some b1"
  shows "recv_loop (Suc fuel) c bs w k s toggle b =
    (if k < t then Some (Inl (), b1)
     else bitstream_get_bits bs (64 - (k - t)) \<bind> (\<lambda>g. case g of
       Inl _ \<Rightarrow> Some (Inl (), b1)
     | Inr (n, v, bs') \<Rightarrow> recv_loop fuel c bs' ((if t < 64 then drop_bit t w else 0) OR push_bit (k - t) v) (k - t + n)
                           (s + unat rl) (\<not> toggle) b1))"
  unfolding recv_loop.simps(2) assms(2) option.case prod.case assms(3) [symmetric] Let_def
  by (simp only: assms(1,4,5) if_False Option.bind.bind_lunit)

lemma recv_loop_safe:
  assumes "window code pad p k w bs" "bm_ok b" "x_bm_bits c = bm_bits b" "code_end code pad - p < fuel"
  shows "\<exists>r b'. recv_loop fuel c bs w k s toggle b = Some (r, b') \<and> bm_ok b' \<and> oos b \<subseteq> oos b' \<and> same_shape b b'"
  using assms
proof (induction fuel arbitrary: p k w bs s toggle b)
  case (Suc fuel)
  show ?case
  proof (cases "k = 0")
    case False
    obtain t rl where d: "vli_decode_bits w = Some (t, rl)" "0 < t" "0 < unat rl" using window_decode by blast
    define e where "e = s + unat rl - 1"
    show ?thesis
    proof (cases "toggle \<and> e \<ge> x_bm_bits c")
      case True
      then show ?thesis using False d Suc.prems(2) by (simp add: e_def)
    next
      case fits: False
      obtain b1 where b1: "(if toggle then drbd_bm_set_bits_fast b s e else Some b) = Some b1" "bm_ok b1" "oos b \<subseteq> oos b1" "same_shape b b1"
        using run_set [of b toggle s e] Suc.prems(2,3) fits d(3) e_def by fastforce
      show ?thesis
      proof (cases "k < t")
        case True
        then show ?thesis using recv_round [OF False d(1) e_def fits b1(1)] b1(2-) by simp
      next
        case kt: False
        obtain n v bs' where g: "bitstream_get_bits bs (64 - (k - t)) = Some (Inr (n, v, bs'))"
          "window code pad (p + t) (k - t + n) ((if t < 64 then drop_bit t w else 0) OR push_bit (k - t) v) bs'"
          using window_step [OF Suc.prems(1) d(2)] kt by auto
        have step: "recv_loop (Suc fuel) c bs w k s toggle b
            = recv_loop fuel c bs' ((if t < 64 then drop_bit t w else 0) OR push_bit (k - t) v) (k - t + n) (s + unat rl) (\<not> toggle) b1"
          using recv_round [OF False d(1) e_def fits b1(1)] kt g(1) by simp
        have "p + t \<le> code_end code pad" using Suc.prems(1) kt by (auto simp: window_def)
        then have "code_end code pad - (p + t) < fuel" using Suc.prems(4) d(2) by linarith
        then have "\<exists>r b'. recv_loop fuel c bs' ((if t < 64 then drop_bit t w else 0) OR push_bit (k - t) v) (k - t + n) (s + unat rl) (\<not> toggle) b1
          = Some (r, b') \<and> bm_ok b' \<and> oos b1 \<subseteq> oos b' \<and> same_shape b1 b'"
          using Suc.prems(3) b1(2,4) by (intro Suc.IH [OF g(2)]) (auto simp: same_shape_def)
        then show ?thesis unfolding step using b1(3,4) same_shape_trans by blast
      qed
    qed
  qed (use Suc.prems(2) in \<open>simp add: Let_def\<close>)
qed simp

section \<open>Runs of the bitmap\<close>

text \<open>From \<open>off\<close> to \<open>off'\<close> the bitmap consists of runs of the given lengths, the first one of value \<open>v\<close>.\<close>

fun runs :: "drbd_bitmap \<Rightarrow> nat \<Rightarrow> bool \<Rightarrow> nat list \<Rightarrow> nat \<Rightarrow> bool" where
  "runs b off v [] off' \<longleftrightarrow> off = off'"
| "runs b off v (rl # rls) off' \<longleftrightarrow> 0 < rl \<and> off + rl \<le> bm_bits b
     \<and> (\<forall>n. off \<le> n \<and> n < off + rl \<longrightarrow> mem_bit (bm_mem b) n = v) \<and> runs b (off + rl) (\<not> v) rls off'"

lemma runs_le: "runs b off v rls off' \<Longrightarrow> off \<le> off'"
  by (induction rls arbitrary: off v) fastforce+

definition vli_max :: nat where "vli_max = 0x100000400202130"

lemma recv_loop_runs:
  assumes "window code pad p k w bs" "vli.coded (stream_bit code) p (map of_nat rls) (code_end code pad)"
    "runs sb s v rls s'" "bm_ok b" "x_bm_bits c = bm_bits b" "bm_bits sb = bm_bits b" "bm_bits b \<le> vli_max"
    "code_end code pad - p < fuel"
  shows "\<exists>b'. recv_loop fuel c bs w k s v b = Some (Inr (s' \<noteq> bm_bits b, bm_xfer_ctx_bit_to_word_offset (c\<lparr>bit_offset := s'\<rparr>)), b')
    \<and> bm_ok b' \<and> same_shape b b' \<and> oos b' = oos b \<union> (oos sb \<inter> {s..<s'})"
  using assms
proof (induction fuel arbitrary: p k w bs s v b rls)
  case (Suc fuel)
  show ?case
  proof (cases rls)
    case Nil
    then have "k = 0" "s' = s" using Suc.prems(1,2,3) by (auto simp: window_def)
    then show ?thesis using Suc.prems(4,5) by (simp add: Let_def bm_xfer_ctx_bit_to_word_offset_def)
  next
    case (Cons rl rest)
    have r: "0 < rl" "s + rl \<le> bm_bits b" "\<forall>n. s \<le> n \<and> n < s + rl \<longrightarrow> mem_bit (bm_mem sb) n = v" "runs sb (s + rl) (\<not> v) rest s'"
      using Suc.prems(3,6) Cons by auto
    have u: "unat (of_nat rl :: u64) = rl" using r(2) Suc.prems(7) by (intro unat_of_nat_small) (simp add: vli_max_def)
    obtain t where d: "vli_decode_bits w = Some (t, of_nat rl)" "0 < t" "t \<le> k"
      "vli.coded (stream_bit code) (p + t) (map of_nat rest) (code_end code pad)"
      using vli.decode_window [of "stream_bit code" p "of_nat rl" "map of_nat rest" "code_end code pad" w k] Suc.prems(1,2) Cons
      by (auto simp: window_def)
    obtain n x bs' where g: "bitstream_get_bits bs (64 - (k - t)) = Some (Inr (n, x, bs'))"
      "window code pad (p + t) (k - t + n) ((if t < 64 then drop_bit t w else 0) OR push_bit (k - t) x) bs'"
      using window_step [OF Suc.prems(1) d(2,3)] by auto
    define e where "e = s + rl - 1"
    obtain b1 where b1: "(if v then drbd_bm_set_bits_fast b s e else Some b) = Some b1" "bm_ok b1" "same_shape b b1"
      "oos b1 = oos b \<union> (if v then {s..e} else {})"
      using run_set [of b v s e] Suc.prems(4) r(1,2) e_def by fastforce
    have e': "e = s + unat (of_nat rl :: u64) - 1" by (simp add: e_def u)
    have nb: "\<not> (v \<and> x_bm_bits c \<le> e)" using r(1,2) Suc.prems(5) by (auto simp: e_def)
    have k0: "k \<noteq> 0" using d(2,3) by simp
    have "recv_loop (Suc fuel) c bs w k s v b
        = recv_loop fuel c bs' ((if t < 64 then drop_bit t w else 0) OR push_bit (k - t) x) (k - t + n) (s + rl) (\<not> v) b1"
      using recv_round [OF k0 d(1) e' nb b1(1)] d(3) g(1) by (simp add: u del: recv_loop.simps)
    moreover have "code_end code pad - (p + t) < fuel" using Suc.prems(1,8) d(2,3) by (auto simp: window_def)
    then have "\<exists>b'. recv_loop fuel c bs' ((if t < 64 then drop_bit t w else 0) OR push_bit (k - t) x) (k - t + n) (s + rl) (\<not> v) b1
      = Some (Inr (s' \<noteq> bm_bits b1, bm_xfer_ctx_bit_to_word_offset (c\<lparr>bit_offset := s'\<rparr>)), b')
      \<and> bm_ok b' \<and> same_shape b1 b' \<and> oos b' = oos b1 \<union> (oos sb \<inter> {s + rl..<s'})"
      using Suc.prems(5,6,7) b1(2,3) by (intro Suc.IH [OF g(2) d(4) r(4)]) (auto simp: same_shape_def)
    moreover have "oos b1 \<union> (oos sb \<inter> {s + rl..<s'}) = oos b \<union> (oos sb \<inter> {s..<s'})"
      using r runs_le [OF r(4)] Suc.prems(6) unfolding b1(4) by (auto simp: oos_def e_def)
    ultimately show ?thesis using b1(3) same_shape_trans by (auto simp: same_shape_def)
  qed
qed simp

section \<open>The sender\<close>

lemma encode_bits_ok:
  assumes "0 < rl" "rl \<le> vli_max" "bs_ok bs" "vli.coded (stream_bit (bs_buf bs)) 0 xs (bs_pos bs)"
    "\<forall>n. bs_pos bs \<le> n \<and> n < 8 * length (bs_buf bs) \<longrightarrow> \<not> stream_bit (bs_buf bs) n"
  shows "vli_encode_bits bs (of_nat rl) = Inl ENOBUFS \<and> 8 * length (bs_buf bs) < bs_pos bs + 64
    \<or> (\<exists>t bs'. vli_encode_bits bs (of_nat rl) = Inr (t, bs') \<and> 0 < t \<and> bs_ok bs' \<and> length (bs_buf bs') = length (bs_buf bs)
        \<and> vli.coded (stream_bit (bs_buf bs')) 0 (xs @ [of_nat rl]) (bs_pos bs')
        \<and> (\<forall>n. bs_pos bs' \<le> n \<and> n < 8 * length (bs_buf bs') \<longrightarrow> \<not> stream_bit (bs_buf bs') n))"
proof -
  have u: "unat (of_nat rl :: u64) = rl" using assms(2) by (intro unat_of_nat_small) (simp add: vli_max_def)
  obtain t c where c: "vli_encode_word (of_nat rl) = Inr (t, c)" using vli_encode_some [of "of_nat rl"] assms(1,2) u by (auto simp: vli_max_def)
  then have t: "0 < t" "t \<le> 64" "take_bit t c = c" using vli.code_bounds by auto
  have e: "vli_encode_bits bs (of_nat rl) = bitstream_put_bits bs c t" by (simp add: vli_encode_bits_def c)
  note put = bitstream_put_bits_spec [OF assms(3) t(2), of c]
  show ?thesis
  proof (cases "8 * length (bs_buf bs) < bs_pos bs + t")
    case True
    then show ?thesis using put t e by simp
  next
    case False
    then obtain bs' where bs': "bitstream_put_bits bs c t = Inr (t, bs')" "bs_ok bs'" "bs_pos bs' = bs_pos bs + t"
      "length (bs_buf bs') = length (bs_buf bs)"
      "\<forall>n < 8 * length (bs_buf bs). stream_bit (bs_buf bs') n
         \<longleftrightarrow> stream_bit (bs_buf bs) n \<or> bs_pos bs \<le> n \<and> n < bs_pos bs + t \<and> bit c (n - bs_pos bs)"
      using put t(1) by auto
    have "vli.coded (stream_bit (bs_buf bs')) 0 xs (bs_pos bs)"
      using assms(4) by (rule vli.coded_cong) (use bs'(5) False in auto)
    moreover have "\<forall>j < t. stream_bit (bs_buf bs') (bs_pos bs + j) = bit c j"
      using bs'(5) assms(5) False by auto
    ultimately have "vli.coded (stream_bit (bs_buf bs')) 0 (xs @ [of_nat rl]) (bs_pos bs + t)"
      using vli.coded_snoc c by blast
    then show ?thesis using bs' assms(5) e t(1) by auto
  qed
qed

text \<open>What the encoding loop has to deliver from \<open>off\<close> on, where a run of \<open>v\<close> starts.\<close>

definition rle_result :: "drbd_bitmap \<Rightarrow> bitstream \<Rightarrow> u64 list \<Rightarrow> nat \<Rightarrow> bool \<Rightarrow> nat \<Rightarrow> bitstream \<Rightarrow> nat \<Rightarrow> nat \<Rightarrow> bool" where
  "rle_result b bs xs off v plain bs' plain' off' \<longleftrightarrow> bs_ok bs' \<and> length (bs_buf bs') = length (bs_buf bs)
     \<and> off \<le> off' \<and> off' \<le> bm_bits b \<and> plain' = plain + (off' - off)
     \<and> (\<exists>rls. runs b off v rls off' \<and> vli.coded (stream_bit (bs_buf bs')) 0 (xs @ map of_nat rls) (bs_pos bs'))
     \<and> (off < bm_bits b \<and> bs_pos bs + 64 \<le> 8 * length (bs_buf bs) \<longrightarrow> off < off')"

definition stream_free :: "bitstream \<Rightarrow> u64 list \<Rightarrow> bool" where
  "stream_free bs xs \<longleftrightarrow> bs_ok bs \<and> vli.coded (stream_bit (bs_buf bs)) 0 xs (bs_pos bs)
     \<and> (\<forall>n. bs_pos bs \<le> n \<and> n < 8 * length (bs_buf bs) \<longrightarrow> \<not> stream_bit (bs_buf bs) n)"

lemma rle_result_start:
  "stream_free bs xs \<Longrightarrow> off \<le> bm_bits b \<Longrightarrow> 8 * length (bs_buf bs) < bs_pos bs + 64 \<Longrightarrow> rle_result b bs xs off v plain bs plain off"
  by (auto simp: rle_result_def stream_free_def intro!: exI [of _ "[]"])

lemma rle_result_step:
  assumes "rle_result b bs' (xs @ [of_nat rl]) (off + rl) (\<not> v) (plain + rl) bs'' plain' off'" "0 < rl" "off + rl \<le> bm_bits b"
    "\<forall>n. off \<le> n \<and> n < off + rl \<longrightarrow> mem_bit (bm_mem b) n = v" "length (bs_buf bs') = length (bs_buf bs)"
  shows "rle_result b bs xs off v plain bs'' plain' off'"
proof -
  obtain rls where "runs b (off + rl) (\<not> v) rls off'"
    "vli.coded (stream_bit (bs_buf bs'')) 0 ((xs @ [of_nat rl]) @ map of_nat rls) (bs_pos bs'')"
    using assms(1) by (auto simp: rle_result_def)
  then have "runs b off v (rl # rls) off' \<and> vli.coded (stream_bit (bs_buf bs'')) 0 (xs @ map of_nat (rl # rls)) (bs_pos bs'')"
    using assms(2-4) by simp
  then have "\<exists>rls. runs b off v rls off' \<and> vli.coded (stream_bit (bs_buf bs'')) 0 (xs @ map of_nat rls) (bs_pos bs'')" by blast
  then show ?thesis using assms(1,2,5) unfolding rle_result_def by auto
qed

definition run_end :: "drbd_bitmap \<Rightarrow> nat option \<Rightarrow> nat" where
  "run_end b r = (case r of None \<Rightarrow> bm_bits b | Some n \<Rightarrow> n)"

lemma find_run_end:
  assumes "layout_ok b" "off \<le> bm_bits b"
  shows "\<exists>r. bm_find_next v b off = Some r \<and> off \<le> run_end b r \<and> run_end b r \<le> bm_bits b
    \<and> (\<forall>n. off \<le> n \<and> n < run_end b r \<longrightarrow> mem_bit (bm_mem b) n = v)
    \<and> (run_end b r < bm_bits b \<longrightarrow> mem_bit (bm_mem b) (run_end b r) \<noteq> v)"
proof -
  have "bm_find_next v b off = Some (next_bit v b off)"
    using find_next_loop_correct [OF assms(1)] by (simp add: bm_find_next_def next_bit_def)
  then show ?thesis using next_bit_spec [where zero = v and b = b and fo = off] assms(2)
    by (cases "next_bit v b off") (auto simp: run_end_def)
qed

lemma encode_run:
  assumes "stream_free bs xs" "0 < rl" "rl \<le> vli_max"
  shows "vli_encode_bits bs (of_nat rl) = Inl ENOBUFS \<and> 8 * length (bs_buf bs) < bs_pos bs + 64
    \<or> (\<exists>t bs'. vli_encode_bits bs (of_nat rl) = Inr (t, bs') \<and> 0 < t \<and> length (bs_buf bs') = length (bs_buf bs)
        \<and> stream_free bs' (xs @ [of_nat rl]))"
  using encode_bits_ok [of rl bs xs] assms by (auto simp: stream_free_def)

lemma rle_loop_step:
  "bm_find_next (toggle = 0) b off = Some r \<Longrightarrow> tmp = run_end b r \<Longrightarrow> rl = tmp - off \<Longrightarrow> 0 < rl \<Longrightarrow>
   rle_loop b toggle bs plain off start =
     (case vli_encode_bits bs (of_nat rl) of
        Inl e \<Rightarrow> Some (if e = ENOBUFS then Inr (bs, plain, off, toggle \<noteq> 2 \<and> start) else Inl (False, off))
      | Inr (bits, bs) \<Rightarrow>
          if bits = 0 then Some (Inl (False, off))
          else if tmp < bm_bits b then rle_loop b (not_toggle toggle) bs (plain + rl) tmp (toggle \<noteq> 2 \<and> start)
          else Some (Inr (bs, plain + rl, tmp, toggle \<noteq> 2 \<and> start)))"
  by (subst rle_loop.simps) (simp add: run_end_def Let_def split: sum.split)

declare rle_loop.simps [simp del]

lemma not_toggle_simps [simp]: "(not_toggle t = 0) = (t \<noteq> 0)" "(not_toggle t = 2) = False"
  by (simp_all add: not_toggle_def)

lemma rle_loop_correct:
  assumes "bm_ok b" "bm_bits b \<le> vli_max" "off < bm_bits b" "mem_bit (bm_mem b) off = (toggle = 0)" "stream_free bs xs"
  shows "\<exists>bs' plain' off'. rle_loop b toggle bs plain off start = Some (Inr (bs', plain', off', toggle \<noteq> 2 \<and> start))
    \<and> rle_result b bs xs off (toggle = 0) plain bs' plain' off'"
  using assms(3-5)
proof (induction "bm_bits b - off" arbitrary: off toggle bs xs plain start rule: less_induct)
  case less
  obtain r where r: "bm_find_next (toggle = 0) b off = Some r" "off \<le> run_end b r" "run_end b r \<le> bm_bits b"
    "\<forall>n. off \<le> n \<and> n < run_end b r \<longrightarrow> mem_bit (bm_mem b) n = (toggle = 0)"
    "run_end b r < bm_bits b \<longrightarrow> mem_bit (bm_mem b) (run_end b r) \<noteq> (toggle = 0)"
    using find_run_end [of b off "toggle = 0"] assms(1) less.prems(1) by (auto simp: bm_ok_def)
  define tmp rl where "tmp = run_end b r" and "rl = tmp - off"
  have rl: "0 < rl" "off + rl = tmp" "tmp \<le> bm_bits b" "rl \<le> vli_max"
    using r(2,3,5) less.prems(1,2) assms(2) by (cases "run_end b r = off"; auto simp: tmp_def rl_def)+
  have run: "\<forall>n. off \<le> n \<and> n < off + rl \<longrightarrow> mem_bit (bm_mem b) n = (toggle = 0)" using r(4) rl(2) by (simp add: tmp_def)
  note step = rle_loop_step [OF r(1) tmp_def rl_def rl(1), of bs plain start]
  consider (full) "vli_encode_bits bs (of_nat rl) = Inl ENOBUFS" "8 * length (bs_buf bs) < bs_pos bs + 64"
    | (more_room) t bs1 where "vli_encode_bits bs (of_nat rl) = Inr (t, bs1)" "0 < t" "length (bs_buf bs1) = length (bs_buf bs)"
        "stream_free bs1 (xs @ [of_nat rl])"
    using encode_run [OF less.prems(3) rl(1,4)] by blast
  then show ?case
  proof cases
    case full
    then show ?thesis using step rle_result_start [OF less.prems(3)] less.prems(1) by simp
  next
    case more_room
    have "\<exists>bs' plain' off'. rle_loop b toggle bs plain off start = Some (Inr (bs', plain', off', toggle \<noteq> 2 \<and> start))
      \<and> rle_result b bs1 (xs @ [of_nat rl]) (off + rl) (\<not> (toggle = 0)) (plain + rl) bs' plain' off'"
    proof (cases "tmp < bm_bits b")
      case True
      have "\<exists>bs' plain' off'. rle_loop b (not_toggle toggle) bs1 (plain + rl) tmp (toggle \<noteq> 2 \<and> start)
          = Some (Inr (bs', plain', off', not_toggle toggle \<noteq> 2 \<and> toggle \<noteq> 2 \<and> start))
        \<and> rle_result b bs1 (xs @ [of_nat rl]) tmp (not_toggle toggle = 0) (plain + rl) bs' plain' off'"
        using True rl r(5) less.prems(1) more_room(4) by (intro less.hyps) (auto simp: tmp_def)
      then show ?thesis unfolding rl(2) using step more_room(1,2) True by simp
    next
      case False
      then show ?thesis using step more_room rl
        by (auto simp: rle_result_def stream_free_def intro!: exI [of _ "[]"])
    qed
    then show ?thesis using rle_result_step [OF _ rl(1) _ run more_room(3)] rl(2,3) by blast
  qed
qed

section \<open>The packet\<close>

lemma low_mask_8: "(x :: u8) AND 0xf = take_bit 4 x" "(x :: u8) AND 7 = take_bit 3 x"
proof -
  have "(0xf :: u8) = mask 4" "(7 :: u8) = mask 3" by (simp_all add: mask_eq_exp_minus_1)
  then show "x AND 0xf = take_bit 4 x" "x AND 7 = take_bit 3 x" by (simp_all only: take_bit_eq_mask)
qed

lemma top_bit_8: "(x :: u8) AND 0x80 \<noteq> 0 \<longleftrightarrow> bit x 7"
  using and_exp_eq_0_iff_not_bit [of x 7] by simp

lemma bit_consts_8: "bit (0x80 :: u8) j \<longleftrightarrow> j = 7" "bit (0xf :: u8) j \<longleftrightarrow> j < 4" "bit (7 :: u8) j \<longleftrightarrow> j < 3"
  "bit (2 :: u8) j \<longleftrightarrow> j = 1"
proof -
  have "(0x80 :: u8) = 2 ^ 7" "(0xf :: u8) = mask 4" "(7 :: u8) = mask 3" by (simp_all add: mask_eq_exp_minus_1)
  then show "bit (0x80 :: u8) j \<longleftrightarrow> j = 7" "bit (0xf :: u8) j \<longleftrightarrow> j < 4" "bit (7 :: u8) j \<longleftrightarrow> j < 3" "bit (2 :: u8) j \<longleftrightarrow> j = 1"
    by (simp_all only: bit_exp_iff bit_mask_iff bit_2_iff possible_bit_word) auto
qed

text \<open>The three fields of the header byte do not disturb each other.\<close>

lemma dcbp_fields:
  assumes "n < 8"
  shows "\<exists>e1 e2. dcbp_set_pad_bits n (dcbp_set_start s enc) = Some e1 \<and> dcbp_set_code RLE_VLI_Bits e1 = Some e2
    \<and> dcbp_get_pad_bits e2 = n \<and> dcbp_get_start e2 = s \<and> dcbp_get_code e2 = RLE_VLI_Bits"
proof -
  define e1 where "e1 = (dcbp_set_start s enc AND push_bit 4 (NOT 7)) OR push_bit 4 (of_nat n)"
  define e2 where "e2 = (e1 AND NOT 0xf) OR RLE_VLI_Bits"
  have n: "bit (of_nat n :: u8) j \<longleftrightarrow> j < 3 \<and> bit n j" for j
  proof -
    have "take_bit 3 n = n" using assms by (simp add: take_bit_nat_eq_self)
    then have "bit n j \<longleftrightarrow> j < 3 \<and> bit n j" by (metis bit_take_bit_iff)
    then show ?thesis by (auto simp: bit_of_nat_iff possible_bit_word)
  qed
  have 2: "bit e2 j \<longleftrightarrow> j = 1 \<or> 4 \<le> j \<and> j < 7 \<and> bit n (j - 4) \<or> j = 7 \<and> s" if "j < 8" for j
    using that
    by (simp only: e2_def e1_def RLE_VLI_Bits_def dcbp_set_start_def bit_or_iff bit_and_iff bit_not_iff bit_push_bit_iff
        bit_consts_8 n possible_bit_word if_distrib [of "\<lambda>w. bit w _"] bit_0_eq) (cases s; auto)
  have "take_bit 3 (drop_bit 4 e2) = (of_nat n :: u8)"
    by (rule bit_word_eqI) (auto simp: bit_take_bit_iff bit_drop_bit_eq 2 n)
  then have "dcbp_get_pad_bits e2 = n" using assms by (simp add: dcbp_get_pad_bits_def low_mask_8 unat_of_nat_small)
  moreover have "dcbp_get_start e2 = s" by (simp add: dcbp_get_start_def top_bit_8 2)
  moreover have "dcbp_get_code e2 = RLE_VLI_Bits" unfolding dcbp_get_code_def low_mask_8
    by (rule bit_word_eqI) (simp only: bit_take_bit_iff 2 RLE_VLI_Bits_def bit_consts_8 word_size len_num0 len_num1 len_bit0 len_bit1, auto)
  moreover have "dcbp_set_pad_bits n (dcbp_set_start s enc) = Some e1"
    using assms unfolding dcbp_set_pad_bits_def e1_def [symmetric] by simp
  moreover have "dcbp_set_code RLE_VLI_Bits e1 = Some e2"
    unfolding dcbp_set_code_def e2_def [symmetric] by (simp add: RLE_VLI_Bits_def)
  ultimately show ?thesis by blast
qed

text \<open>A packet that carries the runs from \<open>off\<close> to \<open>off'\<close>, as the receiver reads it.\<close>

definition rle_packet :: "drbd_bitmap \<Rightarrow> nat \<Rightarrow> nat \<Rightarrow> u8 \<Rightarrow> u8 list \<Rightarrow> bool" where
  "rle_packet b off off' enc code \<longleftrightarrow> code \<noteq> [] \<and> dcbp_get_code enc = RLE_VLI_Bits \<and> off' \<le> bm_bits b
     \<and> (\<exists>rls. runs b off (dcbp_get_start enc) rls off'
         \<and> vli.coded (stream_bit code) 0 (map of_nat rls) (code_end code (dcbp_get_pad_bits enc)))"

lemma take_stream:
  assumes "bs_ok bs"
  defines "len \<equiv> cur_b bs + (if cur_bit bs \<noteq> 0 then 1 else 0)"
  shows "len \<le> length (bs_buf bs)" "code_end (take len (bs_buf bs)) ((8 - cur_bit bs) mod 8) = bs_pos bs"
    "\<forall>n < bs_pos bs. stream_bit (bs_buf bs) n = stream_bit (take len (bs_buf bs)) n"
    "0 < bs_pos bs \<Longrightarrow> take len (bs_buf bs) \<noteq> []"
proof -
  have cb: "cur_bit bs < 8" "bs_pos bs \<le> 8 * length (bs_buf bs)" using assms(1) by (auto simp: bs_ok_def)
  show l: "len \<le> length (bs_buf bs)" using cb by (auto simp: len_def bs_pos_def)
  have pos: "bs_pos bs \<le> 8 * len" using cb(1) by (simp add: len_def bs_pos_def)
  show "code_end (take len (bs_buf bs)) ((8 - cur_bit bs) mod 8) = bs_pos bs"
    using l cb(1) by (auto simp: code_end_def len_def bs_pos_def min_def)
  show "\<forall>n < bs_pos bs. stream_bit (bs_buf bs) n = stream_bit (take len (bs_buf bs)) n"
    using pos by (auto simp: stream_bit_def)
  show "0 < bs_pos bs \<Longrightarrow> take len (bs_buf bs) \<noteq> []" using pos l by auto
qed

lemma get_pad_less: "dcbp_get_pad_bits enc < 8"
proof -
  have "dcbp_get_pad_bits enc = unat (take_bit 3 (drop_bit 4 enc))" by (simp add: dcbp_get_pad_bits_def low_mask_8)
  also have "\<dots> = take_bit 3 (unat (drop_bit 4 enc))" by (rule unsigned_take_bit_eq)
  also have "\<dots> < 2 ^ 3" by (rule take_bit_nat_less_exp)
  finally show ?thesis by simp
qed

lemma rle_loop_first:
  assumes "bm_ok b" "bm_bits b \<le> vli_max" "off < bm_bits b" "8 \<le> sz"
  shows "\<exists>bs off' start rls. rle_loop b 2 (bitstream_init (replicate sz 0) 0) 0 off False = Some (Inr (bs, off' - off, off', start))
    \<and> bs_ok bs \<and> length (bs_buf bs) = sz \<and> off < off' \<and> off' \<le> bm_bits b
    \<and> runs b off start rls off' \<and> vli.coded (stream_bit (bs_buf bs)) 0 (map of_nat rls) (bs_pos bs)"
proof -
  define bs where "bs = bitstream_init (replicate sz 0) 0"
  have bs: "stream_free bs []" "bs_pos bs = 0" "length (bs_buf bs) = sz"
    by (auto simp: bs_def stream_free_def bitstream_init_def bs_ok_def bs_pos_def stream_bit_def)
  define v where "v = mem_bit (bm_mem b) off"
  have "\<exists>bs' plain off'. rle_loop b 2 bs 0 off False = Some (Inr (bs', plain, off', v)) \<and> rle_result b bs [] off v 0 bs' plain off'"
  proof (cases v)
    case False
    then show ?thesis using rle_loop_correct [OF assms(1-3) _ bs(1), of 2 0 False] by (simp add: v_def)
  next
    case True
    obtain r where r: "bm_find_next False b off = Some r" "off \<le> run_end b r"
      "\<forall>n. off \<le> n \<and> n < run_end b r \<longrightarrow> mem_bit (bm_mem b) n = False"
      using find_run_end [of b off False] assms(1,3) by (auto simp: bm_ok_def)
    have "run_end b r = off" using r(2,3) True unfolding v_def by (metis le_neq_implies_less order_refl)
    then have "rle_loop b 2 bs 0 off False = rle_loop b (not_toggle 2) bs 0 off True"
      using r(1) assms(3) by (subst rle_loop.simps) (simp add: run_end_def)
    then show ?thesis using rle_loop_correct [OF assms(1-3) _ bs(1), of 0 0 True] True by (simp add: v_def not_toggle_def)
  qed
  then show ?thesis unfolding bs_def [symmetric] rle_result_def using assms(3,4) bs(2,3) by fastforce
qed

lemma fill_correct:
  assumes "bm_ok b" "bm_bits b \<le> vli_max" "8 \<le> sz" "use_rle" "90 \<le> apv" "bit_offset c < bm_bits b" "x_bm_bits c = bm_bits b"
  shows "fill_bitmap_rle_bits use_rle apv sz enc b c
      = Some (Inr (None, c\<lparr>word_offset := bit_offset c div 64, bit_offset := bit_offset c div 64 * 64\<rparr>))
    \<or> (\<exists>e1 e2 code off'. fill_bitmap_rle_bits use_rle apv sz enc b c
          = Some (Inr (Some (e1, code), bm_xfer_ctx_bit_to_word_offset (c\<lparr>bit_offset := off'\<rparr>)))
        \<and> dcbp_set_code RLE_VLI_Bits e1 = Some e2 \<and> length code \<le> sz \<and> bit_offset c < off' \<and> rle_packet b (bit_offset c) off' e2 code)"
proof -
  obtain bs off' start rls where r: "rle_loop b 2 (bitstream_init (replicate sz 0) 0) 0 (bit_offset c) False
      = Some (Inr (bs, off' - bit_offset c, off', start))"
    "bs_ok bs" "length (bs_buf bs) = sz" "bit_offset c < off'" "off' \<le> bm_bits b" "runs b (bit_offset c) start rls off'"
    "vli.coded (stream_bit (bs_buf bs)) 0 (map of_nat rls) (bs_pos bs)"
    using rle_loop_first [OF assms(1,2,6,3)] by blast
  define len where "len = cur_b bs + (if cur_bit bs \<noteq> 0 then 1 else 0)"
  note ts = take_stream [OF r(2), folded len_def]
  show ?thesis
  proof (cases "off' - bit_offset c < len * 8")
    case True
    then show ?thesis using assms r(1,4) unfolding len_def
      by (intro disjI1) (simp add: fill_bitmap_rle_bits_def Let_def bm_xfer_ctx_bit_to_word_offset_def)
  next
    case False
    obtain e1 e2 where e: "dcbp_set_pad_bits ((8 - cur_bit bs) mod 8) (dcbp_set_start start enc) = Some e1"
      "dcbp_set_code RLE_VLI_Bits e1 = Some e2" "dcbp_get_pad_bits e2 = (8 - cur_bit bs) mod 8" "dcbp_get_start e2 = start"
      "dcbp_get_code e2 = RLE_VLI_Bits"
      using dcbp_fields [of "(8 - cur_bit bs) mod 8" start enc] by auto
    have "rls \<noteq> []" using r(4,6) by auto
    then have "0 < bs_pos bs" using r(7) vli.code_bounds vli.coded_le by (cases rls) fastforce+
    then have "rle_packet b (bit_offset c) off' e2 (take len (bs_buf bs))"
      unfolding rle_packet_def e(3,4,5) ts(2) using ts(4) r(5,6) vli.coded_cong [OF r(7) ts(3)] by blast
    moreover have "fill_bitmap_rle_bits use_rle apv sz enc b c
        = Some (Inr (Some (e1, take len (bs_buf bs)), bm_xfer_ctx_bit_to_word_offset (c\<lparr>bit_offset := off'\<rparr>)))"
      using assms r(1) e(1) False unfolding len_def by (simp add: fill_bitmap_rle_bits_def Let_def)
    ultimately show ?thesis using e(2) ts(1) r(3,4) by fastforce
  qed
qed

section \<open>The transfer\<close>

text \<open>Both ends keep the same position in the bitmap.\<close>

definition ctx_at :: "drbd_bitmap \<Rightarrow> bm_xfer_ctx \<Rightarrow> bool" where
  "ctx_at b c \<longleftrightarrow> x_bm_bits c = bm_bits b \<and> x_bm_words c = bm_words b
     \<and> (bit_offset c < bm_bits b \<and> word_offset c = bit_offset c div 64 \<or> bit_offset c = bm_bits b \<and> word_offset c = bm_words b)"

lemma ctx_at_bounds:
  assumes "ctx_at b c" "layout_ok b"
  shows "word_offset c \<le> bm_words b" "bit_offset c \<le> bm_bits b" "word_offset c = bm_words b \<longleftrightarrow> bit_offset c = bm_bits b"
    "64 * word_offset c \<le> bit_offset c \<or> bit_offset c = bm_bits b" "bm_bits b \<le> 64 * bm_words b"
proof -
  have "bm_words b = (bm_bits b + 63) div 64" using assms(2) by (simp add: layout_ok_def)
  then have "bit_offset c < bm_bits b \<Longrightarrow> bit_offset c div 64 < bm_words b" "bm_bits b \<le> 64 * bm_words b" by linarith+
  then show "word_offset c \<le> bm_words b" "bit_offset c \<le> bm_bits b" "word_offset c = bm_words b \<longleftrightarrow> bit_offset c = bm_bits b"
    "64 * word_offset c \<le> bit_offset c \<or> bit_offset c = bm_bits b" "bm_bits b \<le> 64 * bm_words b"
    using assms(1) by (auto simp: ctx_at_def)
qed

definition receive_packet :: "nat \<Rightarrow> bm_packet \<Rightarrow> bm_xfer_ctx \<Rightarrow> drbd_bitmap \<Rightarrow> recv_end option" where
  "receive_packet header_size p c b =
    (case p of
       P_BITMAP ws \<Rightarrow> receive_bitmap_plain header_size ws c b
     | P_COMPRESSED_BITMAP enc code \<Rightarrow>
         if length code + 1 > DRBD_SOCKET_BUFFER_SIZE - header_size \<or> code = [] then Some (Inl (), b)
         else decode_bitmap_c enc code c b)"

text \<open>A packet of \<open>sb\<close> sent at \<open>c\<close> is received with the effect it should have, and both ends move to \<open>c'\<close>.\<close>

definition delivered :: "nat \<Rightarrow> drbd_bitmap \<Rightarrow> bm_packet \<Rightarrow> bool \<Rightarrow> bm_xfer_ctx \<Rightarrow> bm_xfer_ctx \<Rightarrow> drbd_bitmap \<Rightarrow> bool" where
  "delivered header_size sb p again c c' rb \<longleftrightarrow>
    (\<exists>rb' d. receive_packet header_size p c rb = Some (Inr (again, d), rb') \<and> (again \<longrightarrow> d = c')
       \<and> bm_ok rb' \<and> same_shape rb rb' \<and> oos rb' \<subseteq> oos rb \<union> oos sb
       \<and> oos rb \<union> (oos sb \<inter> {bit_offset c..<bit_offset c'}) \<subseteq> oos rb')"

lemma rle_packet_delivered:
  assumes "rle_packet sb (bit_offset c) off' enc code" "bm_ok rb" "bm_bits sb = bm_bits rb" "bm_bits rb \<le> vli_max"
    "x_bm_bits c = bm_bits rb" "length code + 1 \<le> DRBD_SOCKET_BUFFER_SIZE - header_size"
  shows "delivered header_size sb (P_COMPRESSED_BITMAP enc code) (off' < bm_bits rb) c
    (bm_xfer_ctx_bit_to_word_offset (c\<lparr>bit_offset := off'\<rparr>)) rb"
proof -
  obtain rls where p: "code \<noteq> []" "dcbp_get_code enc = RLE_VLI_Bits" "off' \<le> bm_bits rb"
    "runs sb (bit_offset c) (dcbp_get_start enc) rls off'"
    "vli.coded (stream_bit code) 0 (map of_nat rls) (code_end code (dcbp_get_pad_bits enc))"
    using assms(1,3) by (auto simp: rle_packet_def)
  obtain k w bs where w: "bitstream_get_bits (bitstream_init code (dcbp_get_pad_bits enc)) 64 = Some (Inr (k, w, bs))"
    "window code (dcbp_get_pad_bits enc) 0 k w bs"
    using window_init [OF p(1) get_pad_less] by blast
  have "code_end code (dcbp_get_pad_bits enc) - 0 < 8 * length code + 1" by (simp add: code_end_def)
  from recv_loop_runs [OF w(2) p(5,4) assms(2,5,3,4) this]
  obtain b' where "recv_bm_rle_bits enc code c rb
      = Some (Inr (off' \<noteq> bm_bits rb, bm_xfer_ctx_bit_to_word_offset (c\<lparr>bit_offset := off'\<rparr>)), b')"
    "bm_ok b'" "same_shape rb b'" "oos b' = oos rb \<union> (oos sb \<inter> {bit_offset c..<off'})"
    by (auto simp: recv_bm_rle_bits_def w(1))
  then show ?thesis using p(1,2,3) assms(6)
    by (auto simp: delivered_def receive_packet_def decode_bitmap_c_def bm_xfer_ctx_bit_to_word_offset_def)
qed

lemma words_left_eq:
  assumes "x_bm_words c < 2 ^ 64" "word_offset c \<le> x_bm_words c"
  shows "words_left c = x_bm_words c - word_offset c"
proof -
  have "words_left c = unat (of_nat (x_bm_words c - word_offset c) :: u64)" using assms(2) by (simp add: words_left_def of_nat_diff)
  then show ?thesis using assms(1) by (simp add: unat_of_nat_small)
qed

lemma sent_words: "0 < n \<Longrightarrow> bm_ok b \<Longrightarrow> off + n \<le> bm_words b \<Longrightarrow>
   word_bits off (drbd_bm_get_lel off n buf b) \<inter> {..<bm_bits b} = oos b \<inter> {64 * off..<64 * (off + n)}"
proof -
  assume a: "0 < n" "bm_ok b" "off + n \<le> bm_words b"
  then have "bm_mem b \<noteq> []" using mem_not_empty [of b "bm_bits b - 1"] by (auto simp: bm_ok_def layout_ok_def)
  then have g: "drbd_bm_get_lel off n buf b = map (\<lambda>i. bm_mem b ! i) [off..<off + n]" using a by (simp add: drbd_bm_get_lel_def)
  show ?thesis unfolding g by (auto simp: word_bits_def oos_def mem_bit_def BITS_PER_LONG_def)
qed

text \<open>What a plain packet does to the position.\<close>

definition plain_ctx :: "bm_xfer_ctx \<Rightarrow> nat \<Rightarrow> nat \<Rightarrow> bm_xfer_ctx" where
  "plain_ctx c off n = c\<lparr>word_offset := off + n, bit_offset := (if (off + n) * 64 > x_bm_bits c then x_bm_bits c else (off + n) * 64)\<rparr>"

lemma plain_progress:
  assumes "ctx_at b c" "layout_ok b" "n = min ((DRBD_SOCKET_BUFFER_SIZE - header_size) div 8) (x_bm_words c - word_offset c)"
    "header_size \<le> 4000"
  shows "if n \<noteq> 0 then ctx_at b (plain_ctx c (word_offset c) n) \<and> bit_offset c < bit_offset (plain_ctx c (word_offset c) n)
    else bit_offset (plain_ctx c (word_offset c) n) = bm_bits b"
proof (cases "n = 0")
  case True
  then have "x_bm_words c - word_offset c = 0"
    using assms(3,4) by (auto simp: DRBD_SOCKET_BUFFER_SIZE_def min_def split: if_splits)
  then have "word_offset c = bm_words b" using ctx_at_bounds(1) [OF assms(1,2)] assms(1) by (auto simp: ctx_at_def)
  then show ?thesis using True ctx_at_bounds(5) [OF assms(1,2)] assms(1) by (auto simp: plain_ctx_def ctx_at_def)
next
  case False
  have x: "x_bm_bits c = bm_bits b" "x_bm_words c = bm_words b" using assms(1) by (auto simp: ctx_at_def)
  have nle: "n \<le> x_bm_words c - word_offset c" using assms(3) by simp
  have n: "word_offset c + n \<le> bm_words b" "0 < n" "word_offset c \<noteq> bm_words b"
    using nle False x(2) ctx_at_bounds(1) [OF assms(1,2)] by auto
  then have c: "word_offset c = bit_offset c div 64" "bit_offset c < bm_bits b" using assms(1) by (auto simp: ctx_at_def)
  have w: "bm_words b = (bm_bits b + 63) div 64" using assms(2) by (simp add: layout_ok_def)
  have "bit_offset c < 64 * Suc (word_offset c)" using c(1) by simp
  also have "\<dots> \<le> (word_offset c + n) * 64" using n(2) by simp
  finally have "bit_offset c < (word_offset c + n) * 64" .
  moreover have "word_offset c + n = bm_words b" if "bm_bits b \<le> (word_offset c + n) * 64"
  proof -
    have "bm_bits b + 63 < 64 * Suc (word_offset c + n)" using that by simp
    then have "bm_words b < Suc (word_offset c + n)" unfolding w by (simp add: less_mult_imp_div_less mult.commute)
    then show ?thesis using n(1) by simp
  qed
  ultimately show ?thesis using False c(2) x by (auto simp: plain_ctx_def ctx_at_def min_def)
qed

lemma plain_packet_delivered:
  assumes "bm_ok sb" "bm_ok rb" "bm_bits sb = bm_bits rb" "bm_words sb = bm_words rb" "bm_bits rb \<le> vli_max" "ctx_at sb c"
    "n = min ((DRBD_SOCKET_BUFFER_SIZE - header_size) div 8) (x_bm_words c - word_offset c)" "header_size \<le> 4000"
  shows "delivered header_size sb (P_BITMAP (if n \<noteq> 0 then drbd_bm_get_lel (word_offset c) n (replicate n 0) sb else [])) (n \<noteq> 0) c
    (plain_ctx c (word_offset c) n) rb"
proof -
  have l: "layout_ok sb" using assms(1) by (simp add: bm_ok_def)
  note cb = ctx_at_bounds [OF assms(6) l]
  have w: "word_offset c \<le> bm_words sb" "64 * word_offset c \<le> bit_offset c \<or> bit_offset c = bm_bits sb"
    "x_bm_words c = bm_words sb" "x_bm_bits c = bm_bits sb"
    using cb assms(6) by (auto simp: ctx_at_def)
  have "bm_words sb < 2 ^ 64" using l assms(3,5) by (simp add: layout_ok_def vli_max_def)
  then have wl: "words_left c = x_bm_words c - word_offset c" using words_left_eq w(1,3) by simp
  show ?thesis
  proof (cases "n = 0")
    case True
    then have "x_bm_words c - word_offset c = 0"
      using assms(7,8) by (auto simp: DRBD_SOCKET_BUFFER_SIZE_def min_def split: if_splits)
    then have "word_offset c = bm_words sb" using w(1,3) by simp
    then have "bit_offset (plain_ctx c (word_offset c) 0) = bit_offset c" using cb(3,5) w(4) by (simp add: plain_ctx_def)
    then show ?thesis using True wl w(3) assms(2) \<open>word_offset c = bm_words sb\<close>
      by (auto simp: delivered_def receive_packet_def receive_bitmap_plain_def Let_def)
  next
    case False
    define p where "p = drbd_bm_get_lel (word_offset c) n (replicate n 0) sb"
    have n: "word_offset c + n \<le> bm_words sb" using assms(7) w(1,3) by simp
    have lp: "length p = n" by (simp add: p_def drbd_bm_get_lel_def)
    obtain b' where b': "drbd_bm_merge_lel (word_offset c) p rb = Some b'" "bm_ok b'" "same_shape rb b'"
      "oos b' = oos rb \<union> (word_bits (word_offset c) p \<inter> {..<bm_bits rb})"
      using merge_lel_correct [OF assms(2), of "word_offset c" p] n lp assms(4) by auto
    have nw: "min ((DRBD_SOCKET_BUFFER_SIZE - header_size) div 8) (words_left c) = length p" using assms(7) wl lp by simp
    have sw: "word_bits (word_offset c) p \<inter> {..<bm_bits rb} = oos sb \<inter> {64 * word_offset c..<64 * (word_offset c + n)}"
      unfolding p_def using sent_words [OF _ assms(1) n] False assms(3) by simp
    have "receive_packet header_size (P_BITMAP p) c rb = Some (Inr (True, plain_ctx c (word_offset c) n), b')"
      unfolding receive_packet_def receive_bitmap_plain_def bm_packet.case Let_def nw using False b'(1) lp
      by (simp add: plain_ctx_def)
    moreover have "oos sb \<inter> {bit_offset c..<bit_offset (plain_ctx c (word_offset c) n)} \<subseteq> oos sb \<inter> {64 * word_offset c..<64 * (word_offset c + n)}"
      using w(2,4) by (auto simp: plain_ctx_def oos_def)
    moreover have "oos b' = oos rb \<union> (oos sb \<inter> {64 * word_offset c..<64 * (word_offset c + n)})" using b'(4) sw by simp
    moreover from this have "oos b' \<subseteq> oos rb \<union> oos sb" by blast
    ultimately have "delivered header_size sb (P_BITMAP p) True c (plain_ctx c (word_offset c) n) rb"
      unfolding delivered_def using b'(2,3) by blast
    then show ?thesis using False by (simp add: p_def)
  qed
qed

lemma send_round:
  assumes "bm_ok sb" "bm_ok rb" "bm_bits sb = bm_bits rb" "bm_words sb = bm_words rb" "bm_bits rb \<le> vli_max" "ctx_at sb c"
    "header_size \<le> 4000"
  shows "\<exists>p again c'. send_bitmap_rle_or_plain use_rle apv header_size enc sb c = Some (Inr (p, again, c'))
    \<and> delivered header_size sb p again c c' rb \<and> (if again then ctx_at sb c' \<and> bit_offset c < bit_offset c' else bit_offset c' = bm_bits sb)"
proof -
  have l: "layout_ok sb" using assms(1) by (simp add: bm_ok_def)
  note cb = ctx_at_bounds [OF assms(6) l]
  have x: "x_bm_bits c = bm_bits sb" "x_bm_words c = bm_words sb" using assms(6) by (auto simp: ctx_at_def)
  define n where "n = min ((DRBD_SOCKET_BUFFER_SIZE - header_size) div 8) (x_bm_words c - word_offset c)"
  have plain: ?thesis if f: "fill_bitmap_rle_bits use_rle apv (DRBD_SOCKET_BUFFER_SIZE - header_size - 1) enc sb c
      = Some (Inr (None, c\<lparr>word_offset := word_offset c, bit_offset := k\<rparr>))" for k
  proof -
    have S: "send_bitmap_rle_or_plain use_rle apv header_size enc sb c = Some (Inr (P_BITMAP (if n \<noteq> 0
        then drbd_bm_get_lel (word_offset c) n (replicate n 0) sb else []), n \<noteq> 0, plain_ctx c (word_offset c) n))"
      unfolding send_bitmap_rle_or_plain_def f by (simp add: Let_def plain_ctx_def n_def [symmetric]) (simp add: n_def)
    have P: "if n \<noteq> 0 then ctx_at sb (plain_ctx c (word_offset c) n) \<and> bit_offset c < bit_offset (plain_ctx c (word_offset c) n)
        else bit_offset (plain_ctx c (word_offset c) n) = bm_bits sb"
      by (rule plain_progress [OF assms(6) l n_def assms(7)])
    show ?thesis by (intro exI conjI) (rule S, rule plain_packet_delivered [OF assms(1-6) n_def assms(7)], rule P)
  qed
  show ?thesis
  proof (cases "use_rle \<and> 90 \<le> apv \<and> bit_offset c < bm_bits sb")
    case False
    then have "fill_bitmap_rle_bits use_rle apv (DRBD_SOCKET_BUFFER_SIZE - header_size - 1) enc sb c = Some (Inr (None, c))"
      using x(1) by (auto simp: fill_bitmap_rle_bits_def)
    then show ?thesis using plain [of "bit_offset c"] by simp
  next
    case True
    have w: "word_offset c = bit_offset c div 64" using True assms(6) by (simp add: ctx_at_def)
    have "8 \<le> DRBD_SOCKET_BUFFER_SIZE - header_size - 1" using assms(7) by (simp add: DRBD_SOCKET_BUFFER_SIZE_def)
    from fill_correct [OF assms(1) _ this, of use_rle apv c enc] True assms(3,5) x(1)
    consider "fill_bitmap_rle_bits use_rle apv (DRBD_SOCKET_BUFFER_SIZE - header_size - 1) enc sb c
        = Some (Inr (None, c\<lparr>word_offset := word_offset c, bit_offset := bit_offset c div 64 * 64\<rparr>))"
      | e1 e2 code off' where "fill_bitmap_rle_bits use_rle apv (DRBD_SOCKET_BUFFER_SIZE - header_size - 1) enc sb c
          = Some (Inr (Some (e1, code), bm_xfer_ctx_bit_to_word_offset (c\<lparr>bit_offset := off'\<rparr>)))"
        "dcbp_set_code RLE_VLI_Bits e1 = Some e2" "length code \<le> DRBD_SOCKET_BUFFER_SIZE - header_size - 1" "bit_offset c < off'"
        "rle_packet sb (bit_offset c) off' e2 code"
      unfolding w by auto
    then show ?thesis
    proof cases
      case 2
      have le: "off' \<le> bm_bits sb" "length code + 1 \<le> DRBD_SOCKET_BUFFER_SIZE - header_size"
        using 2(3,5) assms(7) by (auto simp: rle_packet_def DRBD_SOCKET_BUFFER_SIZE_def)
      have "send_bitmap_rle_or_plain use_rle apv header_size enc sb c
          = Some (Inr (P_COMPRESSED_BITMAP e2 code, off' < bm_bits sb, bm_xfer_ctx_bit_to_word_offset (c\<lparr>bit_offset := off'\<rparr>)))"
        using 2(1,2) x(1) by (simp add: send_bitmap_rle_or_plain_def bm_xfer_ctx_bit_to_word_offset_def not_le)
      moreover note rle_packet_delivered [OF 2(5) assms(2,3,5) _ le(2)]
      ultimately show ?thesis using le(1) 2(4) x assms(3) by (auto simp: bm_xfer_ctx_bit_to_word_offset_def ctx_at_def)
    qed (rule plain)
  qed
qed

lemma transfer_loop:
  assumes "bm_ok sb" "bm_ok rb" "bm_bits sb = bm_bits rb" "bm_words sb = bm_words rb" "bm_bits rb \<le> vli_max" "ctx_at sb c"
    "header_size \<le> 4000" "bm_bits sb - bit_offset c < n"
  shows "\<exists>ps rb'. send_bitmap_loop n use_rle apv header_size enc sb c = Some ps
    \<and> receive_bitmap_loop header_size ps c rb = Some (True, rb') \<and> bm_ok rb' \<and> same_shape rb rb'
    \<and> oos rb' \<subseteq> oos rb \<union> oos sb \<and> oos rb \<union> (oos sb \<inter> {bit_offset c..}) \<subseteq> oos rb'"
  using assms(2-6,8)
proof (induction n arbitrary: c rb)
  case (Suc n)
  obtain p again c' where r: "send_bitmap_rle_or_plain use_rle apv header_size (enc n) sb c = Some (Inr (p, again, c'))"
    "delivered header_size sb p again c c' rb" "if again then ctx_at sb c' \<and> bit_offset c < bit_offset c' else bit_offset c' = bm_bits sb"
    using send_round [OF assms(1) Suc.prems(1-5) assms(7)] by blast
  obtain rb' d where d: "receive_packet header_size p c rb = Some (Inr (again, d), rb')" "again \<longrightarrow> d = c'" "bm_ok rb'" "same_shape rb rb'"
    "oos rb' \<subseteq> oos rb \<union> oos sb" "oos rb \<union> (oos sb \<inter> {bit_offset c..<bit_offset c'}) \<subseteq> oos rb'"
    using r(2) by (auto simp: delivered_def)
  have loop: "receive_bitmap_loop header_size (p # ps) c rb = (if again then receive_bitmap_loop header_size ps c' rb' else Some (True, rb'))" for ps
    using d(1,2) by (simp add: receive_packet_def)
  show ?case
  proof (cases again)
    case False
    have "oos sb \<inter> {bit_offset c..} = oos sb \<inter> {bit_offset c..<bit_offset c'}" using r(3) False by (auto simp: oos_def)
    then show ?thesis using r(1) loop [of "[]"] False d(3-6) by simp
  next
    case True
    have cb: "bit_offset c' \<le> bm_bits sb" using ctx_at_bounds(2) r(3) True assms(1) by (auto simp: bm_ok_def)
    have "\<exists>ps rb2. send_bitmap_loop n use_rle apv header_size enc sb c' = Some ps
      \<and> receive_bitmap_loop header_size ps c' rb' = Some (True, rb2) \<and> bm_ok rb2 \<and> same_shape rb' rb2
      \<and> oos rb2 \<subseteq> oos rb' \<union> oos sb \<and> oos rb' \<union> (oos sb \<inter> {bit_offset c'..}) \<subseteq> oos rb2"
      using Suc.prems d(3,4) r(3) True cb by (intro Suc.IH) (auto simp: same_shape_def)
    then obtain ps rb2 where 2: "send_bitmap_loop n use_rle apv header_size enc sb c' = Some ps"
      "receive_bitmap_loop header_size ps c' rb' = Some (True, rb2)" "bm_ok rb2" "same_shape rb' rb2"
      "oos rb2 \<subseteq> oos rb' \<union> oos sb" "oos rb' \<union> (oos sb \<inter> {bit_offset c'..}) \<subseteq> oos rb2" by blast
    have "oos sb \<inter> {bit_offset c..} = (oos sb \<inter> {bit_offset c..<bit_offset c'}) \<union> (oos sb \<inter> {bit_offset c'..})"
      using r(3) True by auto
    then have "oos rb \<union> (oos sb \<inter> {bit_offset c..}) \<subseteq> oos rb2" "oos rb2 \<subseteq> oos rb \<union> oos sb" using d(5,6) 2(5,6) by auto
    then show ?thesis using r(1) 2 True loop [of ps] same_shape_trans [OF d(4)] by simp
  qed
qed simp

text \<open>
  C4: The exchange of the bitmap is a round trip. Whatever mixture of run length encoded and plain packets the sender
  chooses, its loop ends, the receiver accepts every packet and reports the transfer complete, and afterwards the blocks out of
  sync at the receiver are exactly those of either node, with a consistent bitmap.
\<close>

theorem bitmap_exchange_roundtrip:
  assumes "bm_ok sb" "bm_ok rb" "bm_bits sb = bm_bits rb" "bm_bits rb \<le> 0x100000400202130" "header_size \<le> 4000"
  shows "\<exists>ps rb'. send_bitmap_loop (Suc (bm_bits sb)) use_rle apv header_size enc sb (new_ctx sb) = Some ps
    \<and> receive_bitmap_loop header_size ps (new_ctx rb) rb = Some (True, rb') \<and> bm_ok rb' \<and> oos rb' = oos rb \<union> oos sb"
proof -
  have w: "bm_words sb = bm_words rb" using assms(1-3) by (simp add: bm_ok_def layout_ok_def)
  then have c: "new_ctx sb = new_ctx rb" "bit_offset (new_ctx sb) = 0" using assms(3) by (simp_all add: new_ctx_def)
  have "ctx_at sb (new_ctx sb)" using assms(1) by (auto simp: ctx_at_def new_ctx_def bm_ok_def layout_ok_def)
  moreover have "bm_bits sb - bit_offset (new_ctx sb) < Suc (bm_bits sb)" using c(2) by simp
  moreover have "bm_bits rb \<le> vli_max" using assms(4) by (simp add: vli_max_def)
  moreover have "oos sb \<inter> {0..} = oos sb" by auto
  ultimately obtain ps rb' where "send_bitmap_loop (Suc (bm_bits sb)) use_rle apv header_size enc sb (new_ctx sb) = Some ps"
    "receive_bitmap_loop header_size ps (new_ctx rb) rb = Some (True, rb')" "bm_ok rb'"
    "oos rb' \<subseteq> oos rb \<union> oos sb" "oos rb \<union> oos sb \<subseteq> oos rb'"
    using transfer_loop [OF assms(1-3) w _ _ assms(5)] c by metis
  then show ?thesis by blast
qed


theorem bitmap_exchange_roundtrip_witness:
  "\<exists>ps rb'. send_bitmap_loop (Suc (bm_bits ex_bm)) True 100 16 (\<lambda>_. 0xff) ex_bm (new_ctx ex_bm) = Some ps
    \<and> receive_bitmap_loop 16 ps (new_ctx ex_bm) ex_bm = Some (True, rb') \<and> bm_ok rb' \<and> oos rb' = {0, 2}"
proof -
  have "bm_bits ex_bm \<le> 0x100000400202130" by (simp add: ex_bm_def)
  from bitmap_exchange_roundtrip [OF ex_bm_ok ex_bm_ok refl this, of 16 True 100 "\<lambda>_. 0xff"]
  show ?thesis unfolding ex_bm_oos by simp
qed


end
