(* ===== verification/Request.thy ===== *)
theory Request
  imports Prelude
begin

text \<open>
  The life of one application request, \<open>drbd_req.c\<close>: its flags, its two reference counts and the events that happen to it
  until it is completed towards the upper layers and freed. \<open>rq_state\<close>, a bit mask in the source, is the set of its flags. The device
  appears with the fields this code uses, its counters count the share of this request, and calls to other
  components are recorded in \<open>calls\<close>, in order. \<open>D_ASSERT\<close>, which only writes a message, wake-ups and statistics are left out.
\<close>

section \<open>Data\<close>

datatype rq_flag =
    RQ_LOCAL_PENDING | RQ_LOCAL_COMPLETED | RQ_LOCAL_OK | RQ_LOCAL_ABORTED
  | RQ_NET_PENDING | RQ_NET_QUEUED | RQ_NET_SENT | RQ_NET_DONE | RQ_NET_OK | RQ_NET_SIS
  | RQ_WRITE | RQ_IN_ACT_LOG | RQ_POSTPONED | RQ_COMPLETION_SUSP
  | RQ_EXP_RECEIVE_ACK | RQ_EXP_WRITE_ACK | RQ_EXP_BARR_ACK

definition RQ_LOCAL_MASK :: "rq_flag set" where
  [mask_defs]: "RQ_LOCAL_MASK = {RQ_LOCAL_PENDING, RQ_LOCAL_COMPLETED, RQ_LOCAL_OK, RQ_LOCAL_ABORTED}"

definition RQ_NET_MASK :: "rq_flag set" where
  [mask_defs]: "RQ_NET_MASK = {RQ_NET_PENDING, RQ_NET_QUEUED, RQ_NET_SENT, RQ_NET_DONE, RQ_NET_OK, RQ_NET_SIS}"

datatype drbd_req_event =
    CREATED | TO_BE_SENT | TO_BE_SUBMITTED
  | QUEUE_FOR_NET_WRITE | QUEUE_FOR_NET_READ | QUEUE_FOR_SEND_OOS | QUEUE_AS_DRBD_BARRIER
  | SEND_CANCELED | SEND_FAILED | HANDED_OVER_TO_NETWORK | OOS_HANDED_TO_NETWORK
  | CONNECTION_LOST_WHILE_PENDING | READ_RETRY_REMOTE_CANCELED
  | RECV_ACKED_BY_PEER | WRITE_ACKED_BY_PEER | WRITE_ACKED_BY_PEER_AND_SIS | CONFLICT_RESOLVED | POSTPONE_WRITE
  | NEG_ACKED | BARRIER_ACKED | DATA_RECEIVED
  | COMPLETED_OK | READ_COMPLETED_WITH_ERROR | READ_AHEAD_COMPLETED_WITH_ERROR | WRITE_COMPLETED_WITH_ERROR
  | DISCARD_COMPLETED_NOTSUPP | DISCARD_COMPLETED_WITH_ERROR
  | ABORT_DISK_IO | RESEND | FAIL_FROZEN_DISK_IO | RESTART_FROZEN_DISK_IO | NOTHING

datatype bio_rw = READ | WRITE | READA

datatype work_cb = w_send_read_req | w_send_dblock | w_send_out_of_sync | w_restart_disk_io

text \<open>Where the list head \<open>tl_requests\<close> is linked; \<open>On_worker\<close>: taken from the retry list by \<open>do_retry\<close>.\<close>

datatype tl_place = Off_list | On_transfer_log | On_retry | On_worker

datatype req_call =
    Call_bio_endio int
  | Call_set_out_of_sync
  | Call_set_in_sync
  | Call_al_complete_io
  | Call_noblock_complete_io
  | Call_queue_work work_cb
  | Call_chk_io_error bio_rw
  | Call_restart_request
  | Call_free
  | Logic_BUG

record req_device =
  suspended :: bool
  ldev_failed_ok :: bool
  wire_protocol :: int
  max_epoch_size :: nat
  current_tle_nr :: nat
  current_tle_writes :: nat
  ap_pending_cnt :: int
  ap_in_flight :: int
  writ_cnt :: nat
  read_cnt :: nat
  UNPLUG_REMOTE :: bool
  calls :: "req_call list"

text \<open>
  \<open>private_bio\<close> is the value of \<open>PTR_ERR\<close>, \<open>has_private_bio\<close> tells whether there is a clone to submit;
  \<open>m_bio\<close> is the \<open>bio_and_error\<close> of the last event.
\<close>

record drbd_request =
  rq_state :: "rq_flag set"
  completion_ref :: int
  kref :: int
  master_bio :: bool
  rw :: bio_rw
  has_private_bio :: bool
  private_bio :: int
  epoch :: nat
  in_tree :: bool
  tl_requests :: tl_place
  i_size :: nat
  w_cb :: "work_cb option"
  device :: req_device
  m_bio :: "int option"

definition DRBD_PROT_A :: int where "DRBD_PROT_A = 1"
definition DRBD_PROT_B :: int where "DRBD_PROT_B = 2"
definition DRBD_PROT_C :: int where "DRBD_PROT_C = 3"
definition DRBD_PROT_S :: int where "DRBD_PROT_S = 19"
definition EIO :: int where "EIO = 5"

definition upd_dev :: "(req_device \<Rightarrow> req_device) \<Rightarrow> drbd_request \<Rightarrow> drbd_request" where
  "upd_dev f r = r\<lparr>device := f (device r)\<rparr>"

definition call :: "req_call \<Rightarrow> drbd_request \<Rightarrow> drbd_request" where
  "call x = upd_dev (\<lambda>d. d\<lparr>calls := calls d @ [x]\<rparr>)"

definition drbd_req_new :: "req_device \<Rightarrow> bio_rw \<Rightarrow> nat \<Rightarrow> drbd_request" where
  "drbd_req_new d bio sz =
    \<lparr>rq_state = (if bio = WRITE then {RQ_WRITE} else {}), completion_ref = 1, kref = 1, master_bio = True, rw = bio,
     has_private_bio = True, private_bio = 0, epoch = 0, in_tree = False, tl_requests = Off_list, i_size = sz,
     w_cb = None, device = d, m_bio = None\<rparr>"

section \<open>Reference counts\<close>

definition call_if :: "bool \<Rightarrow> req_call \<Rightarrow> drbd_request \<Rightarrow> drbd_request" where
  "call_if c x r = (if c then call x r else r)"

definition drbd_req_destroy :: "drbd_request \<Rightarrow> drbd_request" where
  "drbd_req_destroy r =
    (let s = rq_state r in
     if master_bio r \<and> RQ_POSTPONED \<notin> s \<or> completion_ref r \<noteq> 0 \<or> RQ_LOCAL_PENDING \<in> s
        \<or> s \<inter> RQ_NET_MASK \<noteq> {} \<and> RQ_NET_DONE \<notin> s
     then call Logic_BUG r
     else
       let r = r\<lparr>tl_requests := Off_list\<rparr>;
           touch = (RQ_WRITE \<in> s \<and> s \<inter> ({RQ_POSTPONED} \<union> RQ_LOCAL_MASK \<union> RQ_NET_MASK) \<noteq> {RQ_POSTPONED});
           r = call_if (touch \<and> (RQ_NET_OK \<notin> s \<or> RQ_LOCAL_OK \<notin> s)) Call_set_out_of_sync r;
           r = call_if (touch \<and> RQ_NET_OK \<in> s \<and> RQ_LOCAL_OK \<in> s \<and> RQ_NET_SIS \<in> s) Call_set_in_sync r;
           r = call_if (RQ_WRITE \<in> s \<and> RQ_IN_ACT_LOG \<in> s \<and> ldev_failed_ok (device r)) Call_al_complete_io r
       in call Call_free r)"

text \<open>
  \<open>start_new_tl_epoch\<close> on the part of the connection that a request sees; the state engine has it on the whole connection, where it
  also wakes the senders.
\<close>

definition start_new_tl_epoch_req :: "req_device \<Rightarrow> req_device" where
  "start_new_tl_epoch_req d =
    (if current_tle_writes d = 0 then d else d\<lparr>current_tle_writes := 0, current_tle_nr := current_tle_nr d + 1\<rparr>)"

definition drbd_req_complete :: "drbd_request \<Rightarrow> drbd_request" where
  "drbd_req_complete r =
    (let s = rq_state r in
     if RQ_LOCAL_PENDING \<in> s \<and> RQ_LOCAL_ABORTED \<notin> s \<or> RQ_NET_QUEUED \<in> s \<or> RQ_NET_PENDING \<in> s \<or> RQ_COMPLETION_SUSP \<in> s
     then call Logic_BUG r
     else if \<not> master_bio r then call Logic_BUG r
     else
       let ok = (RQ_LOCAL_OK \<in> s \<or> RQ_NET_OK \<in> s);
           r = r\<lparr>in_tree := False\<rparr>;
           r = (if rw r = WRITE \<and> epoch r = current_tle_nr (device r) then upd_dev start_new_tl_epoch_req r else r);
           r = (if \<not> ok \<and> rw r = READ \<and> tl_requests r \<noteq> Off_list then r\<lparr>rq_state := insert RQ_POSTPONED s\<rparr> else r)
       in if RQ_POSTPONED \<notin> rq_state r
          then r\<lparr>m_bio := Some (if ok then 0 else if private_bio r \<noteq> 0 then private_bio r else - EIO), master_bio := False\<rparr>
          else r)"

definition drbd_restart_request :: "drbd_request \<Rightarrow> drbd_request" where
  "drbd_restart_request r = call Call_restart_request (r\<lparr>tl_requests := On_retry\<rparr>)"

definition drbd_req_put_completion_ref :: "drbd_request \<Rightarrow> int \<Rightarrow> int \<times> drbd_request" where
  "drbd_req_put_completion_ref r put =
    (let r = r\<lparr>completion_ref := completion_ref r - put\<rparr> in
     if completion_ref r \<noteq> 0 then (0, r)
     else
       let r = drbd_req_complete r in
       if RQ_POSTPONED \<in> rq_state r then (0, drbd_restart_request r) else (1, r))"

definition kref_sub :: "drbd_request \<Rightarrow> int \<Rightarrow> drbd_request" where
  "kref_sub r n =
    (let r = r\<lparr>kref := kref r - n\<rparr> in if kref r = 0 then drbd_req_destroy r else r)"

definition get_ref :: "bool \<Rightarrow> drbd_request \<Rightarrow> drbd_request" where
  "get_ref c r = (if c then r\<lparr>completion_ref := completion_ref r + 1\<rparr> else r)"

definition get_kref :: "bool \<Rightarrow> drbd_request \<Rightarrow> drbd_request" where
  "get_kref c r = (if c then r\<lparr>kref := kref r + 1\<rparr> else r)"

definition add_pending :: "bool \<Rightarrow> int \<Rightarrow> drbd_request \<Rightarrow> drbd_request" where
  "add_pending c n r = (if c then upd_dev (\<lambda>d. d\<lparr>ap_pending_cnt := ap_pending_cnt d + n\<rparr>) r else r)"

definition add_in_flight :: "bool \<Rightarrow> int \<Rightarrow> drbd_request \<Rightarrow> drbd_request" where
  "add_in_flight c n r = (if c then upd_dev (\<lambda>d. d\<lparr>ap_in_flight := ap_in_flight d + n\<rparr>) r else r)"

definition mod_rq_state :: "drbd_request \<Rightarrow> rq_flag set \<Rightarrow> rq_flag set \<Rightarrow> drbd_request" where
  "mod_rq_state r clear add =
    (let s = rq_state r;
         add = (if suspended (device r) \<and> RQ_COMPLETION_SUSP \<notin> s \<union> clear then insert RQ_COMPLETION_SUSP add else add);
         n = s - clear \<union> add;
         sectors = int (i_size r div 512);
         r = r\<lparr>rq_state := n\<rparr>
     in if n = s then r
     else
       let r = get_ref (RQ_LOCAL_PENDING \<notin> s \<and> RQ_LOCAL_PENDING \<in> add) r;
           r = get_ref (RQ_NET_PENDING \<notin> s \<and> RQ_NET_PENDING \<in> add) (add_pending (RQ_NET_PENDING \<notin> s \<and> RQ_NET_PENDING \<in> add) 1 r);
           r = get_ref (RQ_NET_QUEUED \<notin> s \<and> RQ_NET_QUEUED \<in> add) r;
           r = get_kref (RQ_EXP_BARR_ACK \<notin> s \<and> RQ_EXP_BARR_ACK \<in> add) r;
           r = add_in_flight (RQ_NET_SENT \<notin> s \<and> RQ_NET_SENT \<in> add) sectors r;
           r = get_ref (RQ_COMPLETION_SUSP \<notin> s \<and> RQ_COMPLETION_SUSP \<in> add) r;
           c_put = of_bool (RQ_COMPLETION_SUSP \<in> s \<and> RQ_COMPLETION_SUSP \<in> clear);
           r = get_kref (RQ_LOCAL_ABORTED \<notin> s \<and> RQ_LOCAL_ABORTED \<in> add) r;
           c_put = c_put + of_bool (RQ_LOCAL_ABORTED \<notin> s \<and> RQ_LOCAL_ABORTED \<in> add);
           k_put = of_bool (RQ_LOCAL_PENDING \<in> s \<and> RQ_LOCAL_PENDING \<in> clear \<and> RQ_LOCAL_ABORTED \<in> n);
           c_put = c_put + of_bool (RQ_LOCAL_PENDING \<in> s \<and> RQ_LOCAL_PENDING \<in> clear \<and> RQ_LOCAL_ABORTED \<notin> n);
           r = add_pending (RQ_NET_PENDING \<in> s \<and> RQ_NET_PENDING \<in> clear) (-1) r;
           c_put = c_put + of_bool (RQ_NET_PENDING \<in> s \<and> RQ_NET_PENDING \<in> clear);
           c_put = c_put + of_bool (RQ_NET_QUEUED \<in> s \<and> RQ_NET_QUEUED \<in> clear);
           done = (RQ_EXP_BARR_ACK \<in> s \<and> RQ_NET_DONE \<notin> s \<and> RQ_NET_DONE \<in> add);
           r = add_in_flight (done \<and> RQ_NET_SENT \<in> n) (- sectors) r;
           k_put = k_put + of_bool done;
           r = (if (k_put \<noteq> 0 \<or> c_put \<noteq> 0) \<and> kref r < k_put + of_bool (c_put \<noteq> 0) then call Logic_BUG r else r);
           (k, r) = (if c_put \<noteq> 0 then drbd_req_put_completion_ref r c_put else (0, r))
       in if k_put + k \<noteq> 0 then kref_sub r (k_put + k) else r)"

section \<open>Events\<close>

definition MR_WRITE :: int where "MR_WRITE = 1"
definition MR_READ :: int where "MR_READ = 2"

definition queue_work :: "work_cb \<Rightarrow> drbd_request \<Rightarrow> drbd_request" where
  "queue_work cb r = call (Call_queue_work cb) (r\<lparr>w_cb := Some cb\<rparr>)"

definition ack_flags :: "int \<Rightarrow> rq_flag set" where
  "ack_flags p = (if p = DRBD_PROT_C then {RQ_EXP_WRITE_ACK} else if p = DRBD_PROT_B then {RQ_EXP_RECEIVE_ACK} else {})"

definition barrier_acked :: "drbd_request \<Rightarrow> drbd_request" where
  "barrier_acked r =
    (if RQ_WRITE \<notin> rq_state r then r
     else mod_rq_state r {RQ_COMPLETION_SUSP} (if rq_state r \<inter> RQ_NET_MASK \<noteq> {} then {RQ_NET_DONE} else {}))"

text \<open>
  \<open>__req_mod\<close> returns \<open>rv\<close> and the request; \<open>None\<close> is the access to a master bio that is gone. \<open>NOTHING\<close> and \<open>CREATED\<close> are
  the default branch, a message.
\<close>

fun req_mod_locked :: "drbd_request \<Rightarrow> drbd_req_event \<Rightarrow> (int \<times> drbd_request) option" where
  "req_mod_locked r0 what =
    (let r = r0\<lparr>m_bio := None\<rparr>; s = rq_state r in
     case what of
       TO_BE_SENT \<Rightarrow> Some (0, mod_rq_state (r\<lparr>rq_state := s \<union> ack_flags (wire_protocol (device r))\<rparr>) {} {RQ_NET_PENDING})
     | TO_BE_SUBMITTED \<Rightarrow> Some (0, mod_rq_state r {} {RQ_LOCAL_PENDING})
     | COMPLETED_OK \<Rightarrow>
         let n = i_size r div 512;
             r = upd_dev (\<lambda>d. if RQ_WRITE \<in> s then d\<lparr>writ_cnt := writ_cnt d + n\<rparr> else d\<lparr>read_cnt := read_cnt d + n\<rparr>) r
         in Some (0, mod_rq_state r {RQ_LOCAL_PENDING} {RQ_LOCAL_COMPLETED, RQ_LOCAL_OK})
     | ABORT_DISK_IO \<Rightarrow> Some (0, mod_rq_state r {} {RQ_LOCAL_ABORTED})
     | WRITE_COMPLETED_WITH_ERROR \<Rightarrow>
         Some (0, mod_rq_state (call (Call_chk_io_error WRITE) r) {RQ_LOCAL_PENDING} {RQ_LOCAL_COMPLETED})
     | READ_COMPLETED_WITH_ERROR \<Rightarrow>
         Some (0, mod_rq_state (call (Call_chk_io_error READ) (call Call_set_out_of_sync r)) {RQ_LOCAL_PENDING} {RQ_LOCAL_COMPLETED})
     | READ_AHEAD_COMPLETED_WITH_ERROR \<Rightarrow> Some (0, mod_rq_state r {RQ_LOCAL_PENDING} {RQ_LOCAL_COMPLETED})
     | DISCARD_COMPLETED_NOTSUPP \<Rightarrow> Some (0, mod_rq_state r {RQ_LOCAL_PENDING} {RQ_LOCAL_COMPLETED})
     | DISCARD_COMPLETED_WITH_ERROR \<Rightarrow> Some (0, mod_rq_state r {RQ_LOCAL_PENDING} {RQ_LOCAL_COMPLETED})
     | QUEUE_FOR_NET_READ \<Rightarrow>
         let r = upd_dev (\<lambda>d. d\<lparr>UNPLUG_REMOTE := True\<rparr>) (r\<lparr>in_tree := True\<rparr>)
         in Some (0, queue_work w_send_read_req (mod_rq_state r {} {RQ_NET_QUEUED}))
     | QUEUE_FOR_NET_WRITE \<Rightarrow>
         let r = upd_dev (\<lambda>d. d\<lparr>UNPLUG_REMOTE := True\<rparr>) (r\<lparr>in_tree := True\<rparr>);
             r = queue_work w_send_dblock (mod_rq_state r {} {RQ_NET_QUEUED, RQ_EXP_BARR_ACK})
         in Some (0, if current_tle_writes (device r) \<ge> max_epoch_size (device r) then upd_dev start_new_tl_epoch_req r else r)
     | QUEUE_FOR_SEND_OOS \<Rightarrow> Some (0, queue_work w_send_out_of_sync (mod_rq_state r {} {RQ_NET_QUEUED}))
     | READ_RETRY_REMOTE_CANCELED \<Rightarrow> Some (0, mod_rq_state r {RQ_NET_QUEUED} {})
     | SEND_CANCELED \<Rightarrow> Some (0, mod_rq_state r {RQ_NET_QUEUED} {})
     | SEND_FAILED \<Rightarrow> Some (0, mod_rq_state r {RQ_NET_QUEUED} {})
     | HANDED_OVER_TO_NETWORK \<Rightarrow>
         if \<not> master_bio r then None
         else
           let r = (if rw r = WRITE \<and> s \<inter> {RQ_EXP_RECEIVE_ACK, RQ_EXP_WRITE_ACK} = {} \<and> RQ_NET_PENDING \<in> s
                    then mod_rq_state r {RQ_NET_PENDING} {RQ_NET_OK} else r)
           in Some (0, mod_rq_state r {RQ_NET_QUEUED} {RQ_NET_SENT})
     | OOS_HANDED_TO_NETWORK \<Rightarrow> Some (0, mod_rq_state r {RQ_NET_QUEUED} {RQ_NET_DONE})
     | CONNECTION_LOST_WHILE_PENDING \<Rightarrow>
         Some (0, mod_rq_state r {RQ_NET_OK, RQ_NET_PENDING, RQ_COMPLETION_SUSP} {RQ_NET_DONE})
     | CONFLICT_RESOLVED \<Rightarrow> Some (0, mod_rq_state r {RQ_NET_PENDING} {RQ_NET_DONE, RQ_NET_OK})
     | WRITE_ACKED_BY_PEER_AND_SIS \<Rightarrow>
         Some (0, mod_rq_state (r\<lparr>rq_state := insert RQ_NET_SIS s\<rparr>) {RQ_NET_PENDING} {RQ_NET_OK})
     | WRITE_ACKED_BY_PEER \<Rightarrow> Some (0, mod_rq_state r {RQ_NET_PENDING} {RQ_NET_OK})
     | RECV_ACKED_BY_PEER \<Rightarrow> Some (0, mod_rq_state r {RQ_NET_PENDING} {RQ_NET_OK})
     | POSTPONE_WRITE \<Rightarrow> Some (0, r\<lparr>rq_state := insert RQ_POSTPONED s\<rparr>)
     | NEG_ACKED \<Rightarrow> Some (0, mod_rq_state r {RQ_NET_OK, RQ_NET_PENDING} {})
     | FAIL_FROZEN_DISK_IO \<Rightarrow>
         Some (0, if RQ_LOCAL_COMPLETED \<notin> s then r else mod_rq_state r {RQ_COMPLETION_SUSP} {})
     | RESTART_FROZEN_DISK_IO \<Rightarrow>
         if RQ_LOCAL_COMPLETED \<notin> s then Some (0, r)
         else
           let r = mod_rq_state r {RQ_COMPLETION_SUSP, RQ_LOCAL_COMPLETED} {RQ_LOCAL_PENDING} in
           if \<not> master_bio r then None
           else Some (if rw r = WRITE then MR_WRITE else MR_READ, queue_work w_restart_disk_io r)
     | RESEND \<Rightarrow>
         if RQ_WRITE \<notin> s \<and> w_cb r = None then Some (0, mod_rq_state r {RQ_COMPLETION_SUSP} {})
         else if RQ_NET_OK \<notin> s
         then
           let r = mod_rq_state r {RQ_COMPLETION_SUSP} {RQ_NET_QUEUED, RQ_NET_PENDING} in
           Some (case w_cb r of
                   None \<Rightarrow> (0, r)
                 | Some cb \<Rightarrow> (if RQ_WRITE \<in> rq_state r then MR_WRITE else MR_READ, call (Call_queue_work cb) r))
         else Some (0, barrier_acked r)
     | BARRIER_ACKED \<Rightarrow> Some (0, barrier_acked r)
     | DATA_RECEIVED \<Rightarrow> Some (0, mod_rq_state r {RQ_NET_PENDING} {RQ_NET_OK, RQ_NET_DONE})
     | QUEUE_AS_DRBD_BARRIER \<Rightarrow> Some (0, mod_rq_state (upd_dev start_new_tl_epoch_req r) {} {RQ_NET_OK, RQ_NET_DONE})
     | CREATED \<Rightarrow> Some (0, r)
     | NOTHING \<Rightarrow> Some (0, r))"

definition complete_master_bio :: "drbd_request \<Rightarrow> drbd_request" where
  "complete_master_bio r = (case m_bio r of None \<Rightarrow> r | Some e \<Rightarrow> call (Call_bio_endio e) r)"

definition req_mod :: "drbd_request \<Rightarrow> drbd_req_event \<Rightarrow> drbd_request option" where
  "req_mod r what = map_option (\<lambda>(rv, r). complete_master_bio r) (req_mod_locked r what)"

section \<open>Submission\<close>

definition drbd_process_write_request :: "bool \<Rightarrow> bool \<Rightarrow> bool \<Rightarrow> bool \<Rightarrow> drbd_request \<Rightarrow> (bool \<times> drbd_request) option" where
  "drbd_process_write_request remote send_oos nonblock changed r =
    (if i_size r = 0
     then if remote then map_option (Pair remote) (req_mod r QUEUE_AS_DRBD_BARRIER) else Some (remote, r)
     else if \<not> remote \<and> \<not> send_oos then Some (False, r)
     else if wire_protocol (device r) = DRBD_PROT_S \<and> nonblock then Some (False, r)
     else if remote
     then do { r \<leftarrow> req_mod r TO_BE_SENT; r \<leftarrow> req_mod r QUEUE_FOR_NET_WRITE; Some (remote, r) }
     else
       let r = call Call_set_out_of_sync r
       in if changed then map_option (Pair remote) (req_mod r QUEUE_FOR_SEND_OOS) else Some (remote, r))"

text \<open>
  What the code looks up elsewhere on submission: whether the blocks may be read locally (\<open>drbd_may_do_local_read\<close>), whether the
  disk of the peer is up to date, the policy and the decision of read balancing, and for writes whether they are mirrored
  (\<open>drbd_should_do_remote\<close>), only reported (\<open>drbd_should_send_out_of_sync\<close>), and the answers of the helpers they call.
\<close>

record submit_env =
  may_do_local_read :: bool
  pdsk_up_to_date :: bool
  prefer_local :: bool
  balance_remote :: bool
  should_do_remote :: bool
  should_send_oos :: bool
  noblock :: bool
  oos_changed :: bool

definition do_remote_read :: "submit_env \<Rightarrow> drbd_request \<Rightarrow> bool \<times> drbd_request" where
  "do_remote_read e r =
    (let r = (if has_private_bio r \<and> \<not> may_do_local_read e then r\<lparr>has_private_bio := False\<rparr> else r) in
     if \<not> pdsk_up_to_date e then (False, r)
     else if \<not> has_private_bio r then (True, r)
     else if prefer_local e then (False, r)
     else if balance_remote e then (True, r\<lparr>has_private_bio := False\<rparr>)
     else (False, r))"

text \<open>\<open>Inl\<close>: the write waits for the submitter thread to update the activity log.\<close>

definition drbd_request_prepare :: "bool \<Rightarrow> bool \<Rightarrow> bool \<Rightarrow> req_device \<Rightarrow> bio_rw \<Rightarrow> nat \<Rightarrow> drbd_request + drbd_request" where
  "drbd_request_prepare ldev al_suspended fastpath d bio sz =
    (let r = (drbd_req_new d bio sz)\<lparr>has_private_bio := ldev\<rparr> in
     if rw r = WRITE \<and> has_private_bio r \<and> i_size r \<noteq> 0 \<and> \<not> al_suspended
     then if \<not> fastpath then Inl r else Inr (r\<lparr>rq_state := insert RQ_IN_ACT_LOG (rq_state r)\<rparr>)
     else Inr r)"

text \<open>A queued write, in \<open>submit_fast_path\<close> or after \<open>prepare_al_transaction_nonblock\<close>.\<close>

definition submit_queued :: "bool \<Rightarrow> drbd_request \<Rightarrow> drbd_request" where
  "submit_queued al_suspended r =
    (if rw r = WRITE \<and> has_private_bio r \<and> i_size r \<noteq> 0 \<and> \<not> al_suspended
     then r\<lparr>rq_state := insert RQ_IN_ACT_LOG (rq_state r)\<rparr> else r)"

text \<open>
  \<open>drbd_send_and_submit\<close> up to the submission of the local bio, after conflicting writes have completed and
  the check for congestion.
\<close>

definition add_to_transfer_log :: "drbd_request \<Rightarrow> drbd_request" where
  "add_to_transfer_log r0 =
    (let r = r0\<lparr>epoch := current_tle_nr (device r0)\<rparr> in
     if i_size r = 0 then r
     else (if rw r = WRITE then upd_dev (\<lambda>d. d\<lparr>current_tle_writes := current_tle_writes d + 1\<rparr>) r else r)
            \<lparr>tl_requests := On_transfer_log\<rparr>)"

definition drbd_send_and_submit :: "submit_env \<Rightarrow> drbd_request \<Rightarrow> drbd_request option" where
  "drbd_send_and_submit e r =
    (if suspended (device r)
     then Some (r\<lparr>rq_state := insert RQ_POSTPONED (rq_state r), has_private_bio := False\<rparr>)
     else
       let (remote_read, r) = (if rw r \<noteq> WRITE then do_remote_read e r else (False, r)) in
       if rw r \<noteq> WRITE \<and> \<not> remote_read \<and> \<not> has_private_bio r then Some r
       else do {
         let r = add_to_transfer_log r;
         r \<leftarrow> (if rw r = WRITE then map_option snd (drbd_process_write_request (should_do_remote e) (should_send_oos e) (noblock e) (oos_changed e) r)
               else if \<not> has_private_bio r then do { r \<leftarrow> req_mod r TO_BE_SENT; req_mod r QUEUE_FOR_NET_READ }
               else Some r);
         if has_private_bio r then req_mod r TO_BE_SUBMITTED else Some r
       })"

text \<open>The end of \<open>drbd_send_and_submit\<close>, after the local bio was submitted.\<close>

definition submit_done :: "drbd_request \<Rightarrow> drbd_request" where
  "submit_done r =
    (let (k, r) = drbd_req_put_completion_ref (r\<lparr>m_bio := None\<rparr>) 1 in
     complete_master_bio (if k \<noteq> 0 then kref_sub r 1 else r))"

definition endio_event :: "drbd_request \<Rightarrow> bool \<Rightarrow> int \<Rightarrow> drbd_req_event" where
  "endio_event r discard error =
    (if error \<noteq> 0
     then if discard then (if error = -95 then DISCARD_COMPLETED_NOTSUPP else DISCARD_COMPLETED_WITH_ERROR)
          else if rw r = WRITE then WRITE_COMPLETED_WITH_ERROR
          else if rw r = READ then READ_COMPLETED_WITH_ERROR else READ_AHEAD_COMPLETED_WITH_ERROR
     else COMPLETED_OK)"

text \<open>Some drivers report a failure only by the flag \<open>BIO_UPTODATE\<close>.\<close>

definition endio_error :: "bool \<Rightarrow> int \<Rightarrow> int" where
  "endio_error uptodate error = (if error = 0 \<and> \<not> uptodate then - EIO else error)"

text \<open>\<open>None\<close>: the panic on a delayed successful completion of an aborted request.\<close>

definition drbd_request_endio :: "drbd_request \<Rightarrow> bool \<Rightarrow> bool \<Rightarrow> bool \<Rightarrow> int \<Rightarrow> drbd_request option" where
  "drbd_request_endio r nonblock discard uptodate reported =
    (let error = endio_error uptodate reported in
     if RQ_LOCAL_ABORTED \<in> rq_state r \<and> error = 0 then None
     else
       let r = (if error = 0 \<and> rw r = WRITE \<and> wire_protocol (device r) = DRBD_PROT_S \<and> nonblock
                then call Call_set_out_of_sync (call Call_noblock_complete_io r) else r)
       in req_mod (r\<lparr>has_private_bio := False, private_bio := error\<rparr>) (endio_event r discard error))"

definition do_retry :: "drbd_request \<Rightarrow> drbd_request" where
  "do_retry r = kref_sub (r\<lparr>tl_requests := On_worker, m_bio := None\<rparr>) 1"

end
