(* ===== verification/Request_Inv.thy ===== *)
theory Request_Inv
  imports Request
begin

text \<open>
  The books of a request: how many references its flags stand for, and that every event that the disk, the sender, the peer or
  the walks over the transfer log can send keeps the counts equal to that.
\<close>

section \<open>What the counts should be\<close>

definition refs :: "rq_flag set \<Rightarrow> int" where
  "refs s = of_bool (RQ_LOCAL_PENDING \<in> s \<and> RQ_LOCAL_ABORTED \<notin> s) + of_bool (RQ_NET_PENDING \<in> s)
     + of_bool (RQ_NET_QUEUED \<in> s) + of_bool (RQ_COMPLETION_SUSP \<in> s)"

definition krefs :: "rq_flag set \<Rightarrow> int" where
  "krefs s = of_bool (RQ_EXP_BARR_ACK \<in> s \<and> RQ_NET_DONE \<notin> s) + of_bool (RQ_LOCAL_PENDING \<in> s \<and> RQ_LOCAL_ABORTED \<in> s)"

definition net_wf :: "rq_flag set \<Rightarrow> bool" where
  "net_wf s \<longleftrightarrow> RQ_WRITE \<in> s \<longrightarrow> RQ_EXP_BARR_ACK \<in> s \<or> RQ_NET_DONE \<in> s \<or> s \<inter> RQ_NET_MASK \<subseteq> {RQ_NET_QUEUED}"

definition endios :: "drbd_request \<Rightarrow> nat" where
  "endios r = length (filter (\<lambda>c. case c of Call_bio_endio _ \<Rightarrow> True | _ \<Rightarrow> False) (calls (device r)))"

definition req_counts :: "bool \<Rightarrow> drbd_request \<Rightarrow> bool" where
  "req_counts held r \<longleftrightarrow>
     completion_ref r = refs (rq_state r) + of_bool held
   \<and> kref r = krefs (rq_state r) + of_bool (completion_ref r \<noteq> 0 \<or> tl_requests r = On_retry)
   \<and> (master_bio r \<longleftrightarrow> completion_ref r \<noteq> 0 \<or> RQ_POSTPONED \<in> rq_state r)
   \<and> (in_tree r \<longrightarrow> completion_ref r \<noteq> 0)
   \<and> (tl_requests r \<in> {On_retry, On_worker} \<longrightarrow> completion_ref r = 0 \<and> RQ_POSTPONED \<in> rq_state r)
   \<and> (RQ_WRITE \<in> rq_state r \<longleftrightarrow> rw r = WRITE) \<and> net_wf (rq_state r)
   \<and> ap_pending_cnt (device r) = of_bool (RQ_NET_PENDING \<in> rq_state r)"

text \<open>What the destruction of a request writes down.\<close>

definition destroy_calls :: "rq_flag set \<Rightarrow> bool \<Rightarrow> req_call list" where
  "destroy_calls s ldev =
    (let touch = (RQ_WRITE \<in> s \<and> s \<inter> ({RQ_POSTPONED} \<union> RQ_LOCAL_MASK \<union> RQ_NET_MASK) \<noteq> {RQ_POSTPONED}) in
     (if touch \<and> (RQ_NET_OK \<notin> s \<or> RQ_LOCAL_OK \<notin> s) then [Call_set_out_of_sync] else [])
     @ (if touch \<and> RQ_NET_OK \<in> s \<and> RQ_LOCAL_OK \<in> s \<and> RQ_NET_SIS \<in> s then [Call_set_in_sync] else [])
     @ (if RQ_WRITE \<in> s \<and> RQ_IN_ACT_LOG \<in> s \<and> ldev then [Call_al_complete_io] else [])
     @ [Call_free])"

text \<open>A request with references left is neither freed nor has anything gone wrong; at zero it is freed, unless it is a read whose network part is not done.\<close>

definition req_end :: "drbd_request \<Rightarrow> bool" where
  "req_end r \<longleftrightarrow>
     (if kref r \<noteq> 0 then Call_free \<notin> set (calls (device r)) \<and> Logic_BUG \<notin> set (calls (device r))
      else if RQ_WRITE \<in> rq_state r \<or> RQ_NET_DONE \<in> rq_state r \<or> rq_state r \<inter> RQ_NET_MASK = {}
      then Call_free \<in> set (calls (device r)) \<and> Logic_BUG \<notin> set (calls (device r)) \<and> tl_requests r = Off_list
         \<and> set (destroy_calls (rq_state r) (ldev_failed_ok (device r))) \<subseteq> set (calls (device r))
      else Call_free \<notin> set (calls (device r)))"

text \<open>The result that is about to be passed to the master bio.\<close>

definition result_ok :: "drbd_request \<Rightarrow> bool" where
  "result_ok r \<longleftrightarrow>
     (\<forall>e. m_bio r = Some e \<longrightarrow> completion_ref r = 0 \<and> (e = 0 \<longleftrightarrow> RQ_LOCAL_OK \<in> rq_state r \<or> RQ_NET_OK \<in> rq_state r))"

definition req_inner :: "bool \<Rightarrow> drbd_request \<Rightarrow> bool" where
  "req_inner held r \<longleftrightarrow> req_counts held r \<and> req_end r \<and> result_ok r
     \<and> endios r + of_bool (m_bio r \<noteq> None) = of_bool (\<not> master_bio r)"

definition req_inv :: "bool \<Rightarrow> drbd_request \<Rightarrow> bool" where
  "req_inv held r \<longleftrightarrow> req_counts held r \<and> req_end r \<and> endios r = of_bool (\<not> master_bio r)"

lemma refs_nonneg: "0 \<le> refs s" "0 \<le> krefs s"
  by (simp_all add: refs_def krefs_def)

lemma refs_0: "refs s = 0 \<longleftrightarrow> \<not> (RQ_LOCAL_PENDING \<in> s \<and> RQ_LOCAL_ABORTED \<notin> s) \<and> RQ_NET_PENDING \<notin> s \<and> RQ_NET_QUEUED \<notin> s \<and> RQ_COMPLETION_SUSP \<notin> s"
  by (auto simp: refs_def of_bool_def)

lemma krefs_0: "krefs s = 0 \<longleftrightarrow> \<not> (RQ_EXP_BARR_ACK \<in> s \<and> RQ_NET_DONE \<notin> s) \<and> \<not> (RQ_LOCAL_PENDING \<in> s \<and> RQ_LOCAL_ABORTED \<in> s)"
  by (auto simp: krefs_def of_bool_def)

section \<open>The references a change of flags takes and gives\<close>

definition susp_add :: "drbd_request \<Rightarrow> rq_flag set \<Rightarrow> rq_flag set \<Rightarrow> rq_flag set" where
  "susp_add r clear add = (if suspended (device r) \<and> RQ_COMPLETION_SUSP \<notin> rq_state r \<union> clear then insert RQ_COMPLETION_SUSP add else add)"

definition c_get :: "rq_flag set \<Rightarrow> rq_flag set \<Rightarrow> int" where
  "c_get s add = of_bool (RQ_LOCAL_PENDING \<notin> s \<and> RQ_LOCAL_PENDING \<in> add) + of_bool (RQ_NET_PENDING \<notin> s \<and> RQ_NET_PENDING \<in> add)
     + of_bool (RQ_NET_QUEUED \<notin> s \<and> RQ_NET_QUEUED \<in> add) + of_bool (RQ_COMPLETION_SUSP \<notin> s \<and> RQ_COMPLETION_SUSP \<in> add)"

definition k_get :: "rq_flag set \<Rightarrow> rq_flag set \<Rightarrow> int" where
  "k_get s add = of_bool (RQ_EXP_BARR_ACK \<notin> s \<and> RQ_EXP_BARR_ACK \<in> add) + of_bool (RQ_LOCAL_ABORTED \<notin> s \<and> RQ_LOCAL_ABORTED \<in> add)"

definition c_put :: "rq_flag set \<Rightarrow> rq_flag set \<Rightarrow> rq_flag set \<Rightarrow> int" where
  "c_put s clear add = of_bool (RQ_COMPLETION_SUSP \<in> s \<and> RQ_COMPLETION_SUSP \<in> clear)
     + of_bool (RQ_LOCAL_ABORTED \<notin> s \<and> RQ_LOCAL_ABORTED \<in> add)
     + of_bool (RQ_LOCAL_PENDING \<in> s \<and> RQ_LOCAL_PENDING \<in> clear \<and> RQ_LOCAL_ABORTED \<notin> s - clear \<union> add)
     + of_bool (RQ_NET_PENDING \<in> s \<and> RQ_NET_PENDING \<in> clear) + of_bool (RQ_NET_QUEUED \<in> s \<and> RQ_NET_QUEUED \<in> clear)"

definition k_put :: "rq_flag set \<Rightarrow> rq_flag set \<Rightarrow> rq_flag set \<Rightarrow> int" where
  "k_put s clear add = of_bool (RQ_LOCAL_PENDING \<in> s \<and> RQ_LOCAL_PENDING \<in> clear \<and> RQ_LOCAL_ABORTED \<in> s - clear \<union> add)
     + of_bool (RQ_EXP_BARR_ACK \<in> s \<and> RQ_NET_DONE \<notin> s \<and> RQ_NET_DONE \<in> add)"

definition pending_delta :: "rq_flag set \<Rightarrow> rq_flag set \<Rightarrow> rq_flag set \<Rightarrow> int" where
  "pending_delta s clear add = of_bool (RQ_NET_PENDING \<notin> s \<and> RQ_NET_PENDING \<in> add) - of_bool (RQ_NET_PENDING \<in> s \<and> RQ_NET_PENDING \<in> clear)"

definition in_flight_delta :: "rq_flag set \<Rightarrow> rq_flag set \<Rightarrow> rq_flag set \<Rightarrow> int" where
  "in_flight_delta s clear add = of_bool (RQ_NET_SENT \<notin> s \<and> RQ_NET_SENT \<in> add)
     - of_bool (RQ_EXP_BARR_ACK \<in> s \<and> RQ_NET_DONE \<notin> s \<and> RQ_NET_DONE \<in> add \<and> RQ_NET_SENT \<in> s - clear \<union> add)"

definition apply_flags :: "drbd_request \<Rightarrow> rq_flag set \<Rightarrow> rq_flag set \<Rightarrow> drbd_request" where
  "apply_flags r clear add =
    (let s = rq_state r; d = device r in
     r\<lparr>rq_state := s - clear \<union> add, completion_ref := completion_ref r + c_get s add, kref := kref r + k_get s add,
       device := d\<lparr>ap_pending_cnt := ap_pending_cnt d + pending_delta s clear add,
                   ap_in_flight := ap_in_flight d + int (i_size r div 512) * in_flight_delta s clear add\<rparr>\<rparr>)"

definition put_refs :: "drbd_request \<Rightarrow> int \<Rightarrow> int \<Rightarrow> drbd_request" where
  "put_refs r c k =
    (let r = (if (k \<noteq> 0 \<or> c \<noteq> 0) \<and> kref r < k + of_bool (c \<noteq> 0) then call Logic_BUG r else r);
         (j, r) = (if c \<noteq> 0 then drbd_req_put_completion_ref r c else (0, r))
     in if k + j \<noteq> 0 then kref_sub r (k + j) else r)"

lemma get_ref_eq: "get_ref c r = r\<lparr>completion_ref := completion_ref r + of_bool c\<rparr>"
  and get_kref_eq: "get_kref c r = r\<lparr>kref := kref r + of_bool c\<rparr>"
  and add_pending_eq: "add_pending c n r = r\<lparr>device := (device r)\<lparr>ap_pending_cnt := ap_pending_cnt (device r) + n * of_bool c\<rparr>\<rparr>"
  and add_in_flight_eq: "add_in_flight c n r = r\<lparr>device := (device r)\<lparr>ap_in_flight := ap_in_flight (device r) + n * of_bool c\<rparr>\<rparr>"
  by (cases c; simp add: get_ref_def get_kref_def add_pending_def add_in_flight_def upd_dev_def)+

lemma apply_flags_steps:
  fixes r s clear add
  defines "n \<equiv> s - clear \<union> add" and "sectors \<equiv> int (i_size r div 512)"
  assumes "s = rq_state r"
  shows "add_in_flight ((RQ_EXP_BARR_ACK \<in> s \<and> RQ_NET_DONE \<notin> s \<and> RQ_NET_DONE \<in> add) \<and> RQ_NET_SENT \<in> n) (- sectors)
    (add_pending (RQ_NET_PENDING \<in> s \<and> RQ_NET_PENDING \<in> clear) (- 1)
    (get_kref (RQ_LOCAL_ABORTED \<notin> s \<and> RQ_LOCAL_ABORTED \<in> add)
    (get_ref (RQ_COMPLETION_SUSP \<notin> s \<and> RQ_COMPLETION_SUSP \<in> add)
    (add_in_flight (RQ_NET_SENT \<notin> s \<and> RQ_NET_SENT \<in> add) sectors
    (get_kref (RQ_EXP_BARR_ACK \<notin> s \<and> RQ_EXP_BARR_ACK \<in> add)
    (get_ref (RQ_NET_QUEUED \<notin> s \<and> RQ_NET_QUEUED \<in> add)
    (get_ref (RQ_NET_PENDING \<notin> s \<and> RQ_NET_PENDING \<in> add) (add_pending (RQ_NET_PENDING \<notin> s \<and> RQ_NET_PENDING \<in> add) 1
    (get_ref (RQ_LOCAL_PENDING \<notin> s \<and> RQ_LOCAL_PENDING \<in> add) (r\<lparr>rq_state := n\<rparr>)))))))))) = apply_flags r clear add"
  unfolding get_ref_eq get_kref_eq add_pending_eq add_in_flight_eq n_def sectors_def assms(3)
  by (simp add: apply_flags_def c_get_def k_get_def pending_delta_def in_flight_delta_def Let_def algebra_simps)

lemma mod_rq_state_eq:
  "mod_rq_state r clear add0 =
    (if rq_state r - clear \<union> susp_add r clear add0 = rq_state r then r
     else put_refs (apply_flags r clear (susp_add r clear add0)) (c_put (rq_state r) clear (susp_add r clear add0))
            (k_put (rq_state r) clear (susp_add r clear add0)))"
proof -
  define add where "add = susp_add r clear add0"
  have r: "(if c \<and> d then r\<lparr>rq_state := rq_state r\<rparr> else x) = (if c \<and> d then r else x)" for c d x by simp
  show ?thesis
    unfolding mod_rq_state_def susp_add_def [symmetric] add_def [symmetric] Let_def apply_flags_steps [OF refl]
      c_put_def [symmetric] k_put_def [symmetric] put_refs_def
    by (rule if_cong) auto
qed

text \<open>Changes of flags that keep the books: what the callers of \<open>mod_rq_state\<close> have to see to.\<close>

definition change_ok :: "rq_flag set \<Rightarrow> rq_flag set \<Rightarrow> rq_flag set \<Rightarrow> bool" where
  "change_ok s clear add \<longleftrightarrow> clear \<inter> add = {}
     \<and> clear \<inter> {RQ_LOCAL_ABORTED, RQ_EXP_BARR_ACK, RQ_NET_DONE, RQ_WRITE, RQ_POSTPONED} = {} \<and> add \<inter> {RQ_WRITE, RQ_POSTPONED} = {}
     \<and> (RQ_LOCAL_ABORTED \<in> add \<longrightarrow> RQ_LOCAL_PENDING \<in> s - clear)
     \<and> (RQ_LOCAL_PENDING \<in> add \<longrightarrow> RQ_LOCAL_ABORTED \<notin> s \<union> add)
     \<and> (RQ_EXP_BARR_ACK \<in> add \<longrightarrow> RQ_NET_DONE \<notin> s \<union> add)
     \<and> net_wf (s - clear \<union> add)"

lemma change_okD:
  assumes "change_ok s clear add"
  shows "\<not> (f \<in> clear \<and> f \<in> add)" "RQ_LOCAL_ABORTED \<notin> clear" "RQ_EXP_BARR_ACK \<notin> clear" "RQ_NET_DONE \<notin> clear"
    "RQ_WRITE \<notin> clear" "RQ_POSTPONED \<notin> clear" "RQ_WRITE \<notin> add" "RQ_POSTPONED \<notin> add"
    "RQ_LOCAL_ABORTED \<in> add \<longrightarrow> RQ_LOCAL_PENDING \<in> s" "RQ_LOCAL_ABORTED \<in> add \<longrightarrow> RQ_LOCAL_PENDING \<notin> clear"
    "RQ_LOCAL_PENDING \<in> add \<longrightarrow> RQ_LOCAL_ABORTED \<notin> s" "RQ_LOCAL_PENDING \<in> add \<longrightarrow> RQ_LOCAL_ABORTED \<notin> add"
    "RQ_EXP_BARR_ACK \<in> add \<longrightarrow> RQ_NET_DONE \<notin> s" "RQ_EXP_BARR_ACK \<in> add \<longrightarrow> RQ_NET_DONE \<notin> add"
    "net_wf (s - clear \<union> add)"
  using assms unfolding change_ok_def by blast+

lemma flag_delta:
  "\<not> (f \<in> clear \<and> f \<in> add) \<Longrightarrow>
   of_bool (f \<in> s - clear \<union> add) = of_bool (f \<in> s) + of_bool (f \<notin> s \<and> f \<in> add) - (of_bool (f \<in> s \<and> f \<in> clear) :: int)"
  by auto

lemma local_delta:
  assumes "\<not> la_c" "la_a \<longrightarrow> lp" "la_a \<longrightarrow> \<not> lp_c" "lp_a \<longrightarrow> \<not> la" "lp_a \<longrightarrow> \<not> la_a" "\<not> (lp_c \<and> lp_a)"
  shows "of_bool ((lp \<and> \<not> lp_c \<or> lp_a) \<and> \<not> (la \<and> \<not> la_c \<or> la_a)) = of_bool (lp \<and> \<not> la) + of_bool (\<not> lp \<and> lp_a)
      - of_bool (\<not> la \<and> la_a) - (of_bool (lp \<and> lp_c \<and> \<not> (la \<and> \<not> la_c \<or> la_a)) :: int)"
    "of_bool ((lp \<and> \<not> lp_c \<or> lp_a) \<and> (la \<and> \<not> la_c \<or> la_a)) = of_bool (lp \<and> la) + of_bool (\<not> la \<and> la_a)
      - (of_bool (lp \<and> lp_c \<and> (la \<and> \<not> la_c \<or> la_a)) :: int)"
  using assms by (cases lp; cases la; cases lp_a; cases la_a; cases lp_c; simp)+

lemma barrier_delta:
  assumes "\<not> eb_c" "\<not> nd_c" "eb_a \<longrightarrow> \<not> nd" "eb_a \<longrightarrow> \<not> nd_a"
  shows "of_bool ((eb \<and> \<not> eb_c \<or> eb_a) \<and> \<not> (nd \<and> \<not> nd_c \<or> nd_a)) = of_bool (eb \<and> \<not> nd) + of_bool (\<not> eb \<and> eb_a)
      - (of_bool (eb \<and> \<not> nd \<and> nd_a) :: int)"
  using assms by (cases eb; cases nd; cases eb_a; cases nd_a; simp)

lemma refs_delta:
  assumes "change_ok s clear add"
  shows "refs (s - clear \<union> add) = refs s + c_get s add - c_put s clear add"
proof -
  note d = flag_delta [OF change_okD(1) [OF assms], of _ s, unfolded Un_iff Diff_iff]
  show ?thesis
    unfolding refs_def c_get_def c_put_def Un_iff Diff_iff
    using local_delta(1) [OF change_okD(2,9,10,11,12) [OF assms] change_okD(1) [OF assms, of RQ_LOCAL_PENDING]]
      d [of RQ_NET_PENDING] d [of RQ_NET_QUEUED] d [of RQ_COMPLETION_SUSP] by linarith
qed

lemma krefs_delta:
  assumes "change_ok s clear add"
  shows "krefs (s - clear \<union> add) = krefs s + k_get s add - k_put s clear add"
  unfolding krefs_def k_get_def k_put_def Un_iff Diff_iff
  using local_delta(2) [OF change_okD(2,9,10,11,12) [OF assms] change_okD(1) [OF assms, of RQ_LOCAL_PENDING]]
    barrier_delta [OF change_okD(3,4,13,14) [OF assms], of "RQ_EXP_BARR_ACK \<in> s"] by linarith

lemma counts_nonneg: "0 \<le> c_get s add" "0 \<le> k_get s add" "0 \<le> c_put s clear add" "0 \<le> k_put s clear add"
  by (simp_all add: c_get_def k_get_def c_put_def k_put_def)

lemma no_change:
  assumes "change_ok s clear add" "s - clear \<union> add = s"
  shows "c_get s add = 0" "k_get s add = 0" "c_put s clear add = 0" "k_put s clear add = 0"
proof -
  have "add \<subseteq> s" "clear \<inter> s = {}" using assms(2) change_okD(1) [OF assms(1)] by blast+
  then have "f \<in> add \<Longrightarrow> f \<in> s" "f \<in> clear \<Longrightarrow> f \<notin> s" for f by auto
  then show "c_get s add = 0" "k_get s add = 0" "c_put s clear add = 0" "k_put s clear add = 0"
    unfolding c_get_def k_get_def c_put_def k_put_def of_bool_def by auto
qed

text \<open>Calls are added at the end and leave everything else alone.\<close>

lemma call_fields [simp]:
  "rq_state (call x r) = rq_state r" "completion_ref (call x r) = completion_ref r" "kref (call x r) = kref r"
  "master_bio (call x r) = master_bio r" "rw (call x r) = rw r" "in_tree (call x r) = in_tree r" "tl_requests (call x r) = tl_requests r"
  "m_bio (call x r) = m_bio r" "w_cb (call x r) = w_cb r" "private_bio (call x r) = private_bio r" "epoch (call x r) = epoch r"
  "i_size (call x r) = i_size r" "has_private_bio (call x r) = has_private_bio r"
  "calls (device (call x r)) = calls (device r) @ [x]" "ap_pending_cnt (device (call x r)) = ap_pending_cnt (device r)"
  "suspended (device (call x r)) = suspended (device r)" "ldev_failed_ok (device (call x r)) = ldev_failed_ok (device r)"
  "wire_protocol (device (call x r)) = wire_protocol (device r)" "current_tle_nr (device (call x r)) = current_tle_nr (device r)"
  "ap_in_flight (device (call x r)) = ap_in_flight (device r)"
  by (simp_all add: call_def upd_dev_def)

lemma start_new_tl_epoch_req_fields [simp]:
  "calls (start_new_tl_epoch_req d) = calls d" "ap_pending_cnt (start_new_tl_epoch_req d) = ap_pending_cnt d"
  "suspended (start_new_tl_epoch_req d) = suspended d" "ldev_failed_ok (start_new_tl_epoch_req d) = ldev_failed_ok d"
  "wire_protocol (start_new_tl_epoch_req d) = wire_protocol d" "ap_in_flight (start_new_tl_epoch_req d) = ap_in_flight d"
  by (simp_all add: start_new_tl_epoch_req_def)

definition calls_append :: "req_call list \<Rightarrow> drbd_request \<Rightarrow> drbd_request" where
  "calls_append xs = upd_dev (\<lambda>d. d\<lparr>calls := calls d @ xs\<rparr>)"

lemma call_alt: "call x r = calls_append [x] r"
  and call_if_alt: "call_if c x r = calls_append (if c then [x] else []) r"
  and calls_append_append: "calls_append ys (calls_append xs r) = calls_append (xs @ ys) r"
  by (simp_all add: call_if_def call_def calls_append_def upd_dev_def)

lemma calls_append_fields [simp]:
  "rq_state (calls_append x r) = rq_state r" "completion_ref (calls_append x r) = completion_ref r" "kref (calls_append x r) = kref r"
  "master_bio (calls_append x r) = master_bio r" "rw (calls_append x r) = rw r" "in_tree (calls_append x r) = in_tree r"
  "tl_requests (calls_append x r) = tl_requests r" "m_bio (calls_append x r) = m_bio r"
  "calls (device (calls_append x r)) = calls (device r) @ x" "ap_pending_cnt (device (calls_append x r)) = ap_pending_cnt (device r)"
  "ldev_failed_ok (device (calls_append x r)) = ldev_failed_ok (device r)"
  by (simp_all add: calls_append_def upd_dev_def)

lemma destroy_eq:
  assumes "\<not> (master_bio r \<and> RQ_POSTPONED \<notin> rq_state r)" "completion_ref r = 0" "RQ_LOCAL_PENDING \<notin> rq_state r"
  shows "drbd_req_destroy r =
    (if rq_state r \<inter> RQ_NET_MASK \<noteq> {} \<and> RQ_NET_DONE \<notin> rq_state r then call Logic_BUG r
     else calls_append (destroy_calls (rq_state r) (ldev_failed_ok (device r))) (r\<lparr>tl_requests := Off_list\<rparr>))"
proof -
  have c: "(master_bio r \<and> RQ_POSTPONED \<notin> rq_state r \<or> completion_ref r \<noteq> 0 \<or> RQ_LOCAL_PENDING \<in> rq_state r \<or> X) = X" for X
    using assms by blast
  define B where "B = (rq_state r \<inter> RQ_NET_MASK \<noteq> {} \<and> RQ_NET_DONE \<notin> rq_state r)"
  define A where "A = (rq_state r \<inter> ({RQ_POSTPONED} \<union> RQ_LOCAL_MASK \<union> RQ_NET_MASK) \<noteq> {RQ_POSTPONED})"
  show ?thesis
    unfolding drbd_req_destroy_def Let_def destroy_calls_def A_def [symmetric] B_def [symmetric] call_alt call_if_alt c
    by (cases B) (simp_all add: calls_append_append split del: if_split)
qed

section \<open>Every event keeps the books\<close>

text \<open>What \<open>put_refs\<close> relies on, after the flags have been changed but before references are dropped.\<close>

definition before_put :: "bool \<Rightarrow> drbd_request \<Rightarrow> int \<Rightarrow> int \<Rightarrow> bool" where
  "before_put held r c k \<longleftrightarrow>
     0 \<le> c \<and> 0 \<le> k \<and> (completion_ref r = 0 \<longrightarrow> c = 0) \<and> 0 < kref r
   \<and> completion_ref r - c = refs (rq_state r) + of_bool held
   \<and> kref r - k = krefs (rq_state r) + of_bool (completion_ref r \<noteq> 0 \<or> tl_requests r = On_retry)
   \<and> (master_bio r \<longleftrightarrow> completion_ref r \<noteq> 0 \<or> RQ_POSTPONED \<in> rq_state r)
   \<and> (in_tree r \<longrightarrow> completion_ref r \<noteq> 0)
   \<and> (tl_requests r \<in> {On_retry, On_worker} \<longrightarrow> completion_ref r = 0 \<and> RQ_POSTPONED \<in> rq_state r)
   \<and> (RQ_WRITE \<in> rq_state r \<longleftrightarrow> rw r = WRITE) \<and> net_wf (rq_state r)
   \<and> ap_pending_cnt (device r) = of_bool (RQ_NET_PENDING \<in> rq_state r)
   \<and> Call_free \<notin> set (calls (device r)) \<and> Logic_BUG \<notin> set (calls (device r))
   \<and> endios r = of_bool (\<not> master_bio r) \<and> m_bio r = None"

lemma endios_append: "endios (calls_append xs r) = endios r + length (filter (\<lambda>c. case c of Call_bio_endio _ \<Rightarrow> True | _ \<Rightarrow> False) xs)"
  by (simp add: endios_def)

lemma destroy_calls_props:
  "Call_free \<in> set (destroy_calls s l)" "Logic_BUG \<notin> set (destroy_calls s l)"
  "filter (\<lambda>c. case c of Call_bio_endio _ \<Rightarrow> True | _ \<Rightarrow> False) (destroy_calls s l) = []"
  by (simp_all add: destroy_calls_def Let_def)

lemma req_counts_calls [simp]: "req_counts held (calls_append xs r) = req_counts held r"
  by (simp only: req_counts_def calls_append_fields)

lemma req_counts_off: "req_counts held r \<Longrightarrow> tl_requests r \<noteq> On_retry \<Longrightarrow> req_counts held (r\<lparr>tl_requests := Off_list\<rparr>)"
  by (auto simp: req_counts_def)

text \<open>At zero references the request is consistent, and destroyed.\<close>

lemma kref_sub_inner:
  assumes "req_counts held (r\<lparr>kref := kref r - n\<rparr>)" "0 < n \<or> 0 < kref r" "0 \<le> kref r - n"
    "Call_free \<notin> set (calls (device r))" "Logic_BUG \<notin> set (calls (device r))"
    "endios r + of_bool (m_bio r \<noteq> None) = of_bool (\<not> master_bio r)" "result_ok r"
  shows "req_inner held (if n \<noteq> 0 then kref_sub r n else r)"
proof (cases "n \<noteq> 0 \<and> kref r = n")
  case False
  then have eq: "(if n \<noteq> 0 then kref_sub r n else r) = r\<lparr>kref := kref r - n\<rparr>" by (auto simp: kref_sub_def Let_def)
  have "kref r - n \<noteq> 0" using False assms(2) by auto
  then show ?thesis unfolding eq req_inner_def using assms by (simp add: req_end_def endios_def result_ok_def)
next
  case True
  define q where "q = r\<lparr>kref := kref r - n\<rparr>"
  have q: "kref q = 0" "req_counts held q" "calls (device q) = calls (device r)" "endios q = endios r" "m_bio q = m_bio r" "master_bio q = master_bio r"
    using True assms(1) by (simp_all add: q_def endios_def)
  have eq: "(if n \<noteq> 0 then kref_sub r n else r) = drbd_req_destroy q" using True by (simp add: kref_sub_def q_def Let_def)
  have z: "krefs (rq_state q) = 0" "completion_ref q = 0" "tl_requests q \<noteq> On_retry"
    using q(1,2) refs_nonneg(2) [of "rq_state q"] unfolding req_counts_def by (auto simp: of_bool_def split: if_splits)
  have r0: "refs (rq_state q) = 0" "\<not> held"
    using z(2) q(2) refs_nonneg(1) [of "rq_state q"] unfolding req_counts_def by (auto simp: of_bool_def split: if_splits)
  have lp: "RQ_LOCAL_PENDING \<notin> rq_state q" using r0(1) z(1) by (auto simp: refs_0 krefs_0)
  have mb: "\<not> (master_bio q \<and> RQ_POSTPONED \<notin> rq_state q)" using z(2) q(2) by (auto simp: req_counts_def)
  have wr: "rq_state q \<inter> RQ_NET_MASK = {} \<or> RQ_NET_DONE \<in> rq_state q" if "RQ_WRITE \<in> rq_state q"
    using that q(2) r0(1) z(1) by (auto simp: req_counts_def net_wf_def refs_0 krefs_0)
  note d = destroy_eq [OF mb z(2) lp]
  have ro: "result_ok q" using assms(7) by (simp add: result_ok_def q_def)
  show ?thesis
  proof (cases "rq_state q \<inter> RQ_NET_MASK \<noteq> {} \<and> RQ_NET_DONE \<notin> rq_state q")
    case True
    then have "RQ_WRITE \<notin> rq_state q" using wr by blast
    then show ?thesis unfolding eq d req_inner_def using True q assms(4-6) ro
      by (simp add: req_end_def call_alt endios_append result_ok_def)
  next
    case False
    have "endios (q\<lparr>tl_requests := Off_list\<rparr>) = endios q" by (simp add: endios_def)
    then show ?thesis unfolding eq d req_inner_def if_not_P [OF False] using q req_counts_off [OF q(2) z(3)] assms(4-6) False ro
      by (auto simp: req_end_def endios_append destroy_calls_props result_ok_def)
  qed
qed

text \<open>When the last completion reference goes, the master bio is completed or the request is queued for retry.\<close>

lemma complete_spec:
  assumes "refs (rq_state r) = 0" "master_bio r" "completion_ref r = 0"
    "tl_requests r \<notin> {On_retry, On_worker}" "m_bio r = None"
  defines "s \<equiv> rq_state r" and "ok \<equiv> RQ_LOCAL_OK \<in> rq_state r \<or> RQ_NET_OK \<in> rq_state r"
  defines "post \<equiv> RQ_POSTPONED \<in> s \<or> \<not> ok \<and> rw r = READ \<and> tl_requests r \<noteq> Off_list"
  shows "\<exists>d. drbd_req_put_completion_ref (r\<lparr>completion_ref := c\<rparr>) c =
      (if post then 0 else 1,
       if post then r\<lparr>in_tree := False, device := d\<lparr>calls := calls d @ [Call_restart_request]\<rparr>, tl_requests := On_retry, rq_state := insert RQ_POSTPONED s\<rparr>
       else r\<lparr>in_tree := False, device := d, m_bio := Some (if ok then 0 else if private_bio r \<noteq> 0 then private_bio r else - EIO), master_bio := False\<rparr>)
    \<and> calls d = calls (device r) \<and> ap_pending_cnt d = ap_pending_cnt (device r) \<and> ldev_failed_ok d = ldev_failed_ok (device r)"
proof -
  define d where "d = (if rw r = WRITE \<and> epoch r = current_tle_nr (device r) then start_new_tl_epoch_req (device r) else device r)"
  have fl: "(RQ_LOCAL_PENDING \<in> s \<and> RQ_LOCAL_ABORTED \<notin> s \<or> RQ_NET_QUEUED \<in> s \<or> RQ_NET_PENDING \<in> s \<or> RQ_COMPLETION_SUSP \<in> s) = False"
    using assms(1) by (simp add: refs_0 s_def)
  define q where "q = r\<lparr>in_tree := False, device := d\<rparr>"
  have q: "(if rw (r\<lparr>in_tree := False\<rparr>) = WRITE \<and> epoch (r\<lparr>in_tree := False\<rparr>) = current_tle_nr (device (r\<lparr>in_tree := False\<rparr>))
      then upd_dev start_new_tl_epoch_req (r\<lparr>in_tree := False\<rparr>) else r\<lparr>in_tree := False\<rparr>) = q"
    by (simp add: q_def d_def upd_dev_def)
  have qf: "rq_state q = s" "rw q = rw r" "tl_requests q = tl_requests r" "private_bio q = private_bio r" by (simp_all add: q_def s_def)
  define P where "P = (\<not> ok \<and> rw r = READ \<and> tl_requests r \<noteq> Off_list)"
  have pp: "post = (RQ_POSTPONED \<in> s \<or> P)" by (simp add: post_def P_def)
  have ins: "q\<lparr>rq_state := insert RQ_POSTPONED s\<rparr> = q" if "RQ_POSTPONED \<in> s" using that by (simp add: insert_absorb q_def s_def)
  have okf: "(RQ_LOCAL_OK \<in> s \<or> RQ_NET_OK \<in> s) = ok" by (simp add: ok_def s_def)
  define X where "X = (if P then q\<lparr>rq_state := insert RQ_POSTPONED s\<rparr> else q)"
  have Xf: "(RQ_POSTPONED \<notin> rq_state X) = (\<not> (RQ_POSTPONED \<in> s \<or> P))" "private_bio X = private_bio r" by (simp_all add: X_def qf)
  have m: "(\<not> master_bio r) = False" using assms(2) by simp
  have comp: "drbd_req_complete r = (if post then q\<lparr>rq_state := insert RQ_POSTPONED s\<rparr>
      else q\<lparr>m_bio := Some (if ok then 0 else if private_bio r \<noteq> 0 then private_bio r else - EIO), master_bio := False\<rparr>)"
    unfolding drbd_req_complete_def Let_def s_def [symmetric] fl if_False m q okf
    unfolding qf P_def [symmetric] pp X_def [symmetric] Xf
    by (cases P; cases "RQ_POSTPONED \<in> s") (simp_all only: X_def ins simp_thms if_True if_False)
  have r: "r\<lparr>completion_ref := 0\<rparr> = r" using assms(3) by simp
  have "drbd_req_put_completion_ref (r\<lparr>completion_ref := c\<rparr>) c =
      (if RQ_POSTPONED \<in> rq_state (drbd_req_complete r) then (0, drbd_restart_request (drbd_req_complete r)) else (1, drbd_req_complete r))"
    by (simp add: drbd_req_put_completion_ref_def Let_def r assms(3))
  also have "\<dots> = (if post then 0 else 1,
       if post then r\<lparr>in_tree := False, device := d\<lparr>calls := calls d @ [Call_restart_request]\<rparr>, tl_requests := On_retry, rq_state := insert RQ_POSTPONED s\<rparr>
       else r\<lparr>in_tree := False, device := d, m_bio := Some (if ok then 0 else if private_bio r \<noteq> 0 then private_bio r else - EIO), master_bio := False\<rparr>)"
  proof (cases post)
    case True
    then show ?thesis unfolding comp by (simp add: q_def drbd_restart_request_def call_def upd_dev_def)
  next
    case False
    then have "RQ_POSTPONED \<notin> s" using pp by simp
    then have "RQ_POSTPONED \<notin> rq_state r" by (simp add: s_def)
    then show ?thesis unfolding comp using False by (simp add: q_def split del: if_split)
  qed
  finally have "drbd_req_put_completion_ref (r\<lparr>completion_ref := c\<rparr>) c = \<dots>" .
  moreover have "calls d = calls (device r)" "ap_pending_cnt d = ap_pending_cnt (device r)" "ldev_failed_ok d = ldev_failed_ok (device r)"
    by (simp_all add: d_def)
  ultimately show ?thesis by blast
qed

lemma put_refs_inner:
  assumes "before_put held r c k"
  shows "req_inner held (put_refs r c k)"
proof -
  have b: "0 \<le> c" "0 \<le> k" "completion_ref r = 0 \<longrightarrow> c = 0" "0 < kref r" "completion_ref r - c = refs (rq_state r) + of_bool held"
    "kref r - k = krefs (rq_state r) + of_bool (completion_ref r \<noteq> 0 \<or> tl_requests r = On_retry)"
    "master_bio r \<longleftrightarrow> completion_ref r \<noteq> 0 \<or> RQ_POSTPONED \<in> rq_state r"
    "tl_requests r \<in> {On_retry, On_worker} \<longrightarrow> completion_ref r = 0 \<and> RQ_POSTPONED \<in> rq_state r"
    "Call_free \<notin> set (calls (device r))" "Logic_BUG \<notin> set (calls (device r))"
    "endios r = of_bool (\<not> master_bio r)" "m_bio r = None"
    using assms by (simp_all add: before_put_def)
  have i: "in_tree r \<longrightarrow> completion_ref r \<noteq> 0" "RQ_WRITE \<in> rq_state r \<longleftrightarrow> rw r = WRITE" "net_wf (rq_state r)"
    "ap_pending_cnt (device r) = of_bool (RQ_NET_PENDING \<in> rq_state r)"
    using assms by (simp_all add: before_put_def)
  note n = refs_nonneg [of "rq_state r"]
  have k0: "0 \<le> kref r - k" using b(6) n(2) by simp
  have nobug: "\<not> ((k \<noteq> 0 \<or> c \<noteq> 0) \<and> kref r < k + of_bool (c \<noteq> 0))"
  proof (cases "c = 0")
    case True
    then show ?thesis using k0 by simp
  next
    case False
    then have "kref r - k = krefs (rq_state r) + 1" using b(3,6) by simp
    then show ?thesis using n(2) False by simp
  qed
  note nb = if_not_P [OF nobug, of "call Logic_BUG r" r]
  show ?thesis
  proof (cases "c = 0 \<or> completion_ref r - c \<noteq> 0")
    case True
    define q where "q = r\<lparr>completion_ref := completion_ref r - c\<rparr>"
    have eq: "put_refs r c k = (if k \<noteq> 0 then kref_sub q k else q)"
    proof (cases "c = 0")
      case True
      then have "q = r" by (simp add: q_def)
      then show ?thesis unfolding put_refs_def Let_def nb using True by simp
    next
      case False
      then have "drbd_req_put_completion_ref r c = (0, q)" using True by (simp add: drbd_req_put_completion_ref_def q_def)
      then show ?thesis unfolding put_refs_def Let_def nb using False by simp
    qed
    have z: "completion_ref r - c = 0 \<longleftrightarrow> completion_ref r = 0" using True b(3) by auto
    have "req_counts held (q\<lparr>kref := kref q - k\<rparr>)"
      using b i z by (simp add: req_counts_def q_def)
    then show ?thesis unfolding eq using b(2,4,9,10,11,12) k0
      by (intro kref_sub_inner) (simp_all add: q_def endios_def result_ok_def)
  next
    case False
    define q where "q = r\<lparr>completion_ref := 0\<rparr>"
    have z: "c \<noteq> 0" "completion_ref r = c" "refs (rq_state r) = 0" "\<not> held" "completion_ref r \<noteq> 0"
      using False b(1,3,5) n(1) by (auto simp: of_bool_def split: if_splits)
    have q: "refs (rq_state q) = 0" "master_bio q" "completion_ref q = 0" "tl_requests q \<notin> {On_retry, On_worker}" "m_bio q = None"
      using z b(7,8,12) by (auto simp: q_def)
    have rq: "r = q\<lparr>completion_ref := c\<rparr>" using z(2) by (simp add: q_def)
    define post where "post = (RQ_POSTPONED \<in> rq_state q \<or> \<not> (RQ_LOCAL_OK \<in> rq_state q \<or> RQ_NET_OK \<in> rq_state q) \<and> rw q = READ \<and> tl_requests q \<noteq> Off_list)"
    define err where "err = (if RQ_LOCAL_OK \<in> rq_state q \<or> RQ_NET_OK \<in> rq_state q then 0 else if private_bio q \<noteq> 0 then private_bio q else - EIO)"
    obtain d where d: "drbd_req_put_completion_ref r c = (if post then 0 else 1,
      if post then q\<lparr>in_tree := False, device := d\<lparr>calls := calls d @ [Call_restart_request]\<rparr>, tl_requests := On_retry, rq_state := insert RQ_POSTPONED (rq_state q)\<rparr>
      else q\<lparr>in_tree := False, device := d, m_bio := Some err, master_bio := False\<rparr>)"
      "calls d = calls (device q)" "ap_pending_cnt d = ap_pending_cnt (device q)"
      using complete_spec [OF q, of c] unfolding rq [symmetric] post_def [symmetric] err_def [symmetric] by blast
    have dq: "calls (device q) = calls (device r)" "ap_pending_cnt (device q) = ap_pending_cnt (device r)" by (simp_all add: q_def)
    show ?thesis
    proof (cases post)
      case True
      define p where "p = q\<lparr>in_tree := False, device := d\<lparr>calls := calls d @ [Call_restart_request]\<rparr>, tl_requests := On_retry, rq_state := insert RQ_POSTPONED (rq_state q)\<rparr>"
      have eq: "put_refs r c k = (if k \<noteq> 0 then kref_sub p k else p)"
        unfolding put_refs_def Let_def nb d(1) p_def [symmetric] using z(1) True by simp
      have st: "refs (insert RQ_POSTPONED (rq_state r)) = refs (rq_state r)" "krefs (insert RQ_POSTPONED (rq_state r)) = krefs (rq_state r)"
        "net_wf (insert RQ_POSTPONED (rq_state r)) = net_wf (rq_state r)"
        by (simp_all add: refs_def krefs_def net_wf_def mask_defs)
      have "req_counts held (p\<lparr>kref := kref p - k\<rparr>)"
        using b(6) i z d(3) q(2) dq(2) by (simp add: req_counts_def p_def q_def st)
      then show ?thesis unfolding eq using b(2,4,9,10,11,12) k0 d(2) dq(1)
        by (intro kref_sub_inner) (simp_all add: p_def q_def endios_def result_ok_def)
    next
      case False
      define p where "p = q\<lparr>in_tree := False, device := d, m_bio := Some err, master_bio := False\<rparr>"
      have eq: "put_refs r c k = (if k + 1 \<noteq> 0 then kref_sub p (k + 1) else p)"
        unfolding put_refs_def Let_def nb d(1) p_def [symmetric] using z(1) False by simp
      have np: "RQ_POSTPONED \<notin> rq_state r" using False by (simp add: post_def q_def)
      have tl: "tl_requests r \<noteq> On_retry" "tl_requests r \<noteq> On_worker" using b(8) z(5) by auto
      have "req_counts held (p\<lparr>kref := kref p - (k + 1)\<rparr>)"
        using b(6) i z d(3) dq(2) np tl by (simp add: req_counts_def p_def q_def)
      moreover have "0 \<le> kref p - (k + 1)" using b(6) n(2) z(5) by (simp add: p_def q_def)
      moreover have "endios p + of_bool (m_bio p \<noteq> None) = of_bool (\<not> master_bio p)"
        using b(11) q(2,5) d(2) dq(1) by (simp add: p_def q_def endios_def)
      moreover have "result_ok p" by (simp add: result_ok_def p_def q_def err_def EIO_def)
      ultimately show ?thesis unfolding eq using b(2,9,10) d(2) dq(1)
        by (intro kref_sub_inner) (simp_all add: p_def q_def)
    qed
  qed
qed

text \<open>A change of flags of a live request; a completed one may not get new references.\<close>

lemma mod_inner:
  assumes "req_inner held r" "kref r \<noteq> 0" "m_bio r = None" "change_ok (rq_state r) clear (susp_add r clear add)"
    "completion_ref r = 0 \<longrightarrow> c_get (rq_state r) (susp_add r clear add) = 0"
  shows "req_inner held (mod_rq_state r clear add)"
proof (cases "rq_state r - clear \<union> susp_add r clear add = rq_state r")
  case True
  then show ?thesis using assms(1) by (simp add: mod_rq_state_eq)
next
  case False
  define a where "a = susp_add r clear add"
  let ?s = "rq_state r"
  have i: "completion_ref r = refs ?s + of_bool held" "kref r = krefs ?s + of_bool (completion_ref r \<noteq> 0 \<or> tl_requests r = On_retry)"
    "master_bio r \<longleftrightarrow> completion_ref r \<noteq> 0 \<or> RQ_POSTPONED \<in> ?s" "in_tree r \<longrightarrow> completion_ref r \<noteq> 0"
    "tl_requests r \<in> {On_retry, On_worker} \<longrightarrow> completion_ref r = 0 \<and> RQ_POSTPONED \<in> ?s" "RQ_WRITE \<in> ?s \<longleftrightarrow> rw r = WRITE"
    "ap_pending_cnt (device r) = of_bool (RQ_NET_PENDING \<in> ?s)" "Call_free \<notin> set (calls (device r))" "Logic_BUG \<notin> set (calls (device r))"
    "endios r = of_bool (\<not> master_bio r)" "m_bio r = None"
    using assms(1,2,3) by (auto simp: req_inner_def req_counts_def req_end_def)
  note ok = assms(4) [folded a_def]
  note d = refs_delta [OF ok] krefs_delta [OF ok]
  have n: "0 \<le> c_get ?s a" "0 \<le> k_get ?s a" "0 \<le> c_put ?s clear a" "0 \<le> k_put ?s clear a" by (rule counts_nonneg)+
  have z: "completion_ref r + c_get ?s a = 0 \<longleftrightarrow> completion_ref r = 0"
    using assms(5) n(1) i(1) refs_nonneg(1) [of ?s] unfolding a_def [symmetric] by auto
  have c0: "completion_ref r + c_get ?s a = 0 \<longrightarrow> c_put ?s clear a = 0"
  proof
    assume 0: "completion_ref r + c_get ?s a = 0"
    then have "refs (?s - clear \<union> a) = - of_bool held - c_put ?s clear a" using d(1) i(1) by linarith
    then show "c_put ?s clear a = 0" using n(3) refs_nonneg(1) [of "?s - clear \<union> a"] by (cases held) auto
  qed
  have "0 \<le> kref r" unfolding i(2) using refs_nonneg(2) [of ?s] by (simp split: if_splits)
  then have kp: "0 < kref r" using assms(2) by linarith
  have pd: "of_bool (RQ_NET_PENDING \<in> ?s) + pending_delta ?s clear a = of_bool (RQ_NET_PENDING \<in> ?s - clear \<union> a)"
    using flag_delta [OF change_okD(1) [OF ok], of RQ_NET_PENDING ?s] by (simp add: pending_delta_def)
  have fl: "(RQ_POSTPONED \<in> ?s - clear \<union> a) = (RQ_POSTPONED \<in> ?s)" "(RQ_WRITE \<in> ?s - clear \<union> a) = (RQ_WRITE \<in> ?s)"
    using change_okD(5-8) [OF ok] by auto
  have "before_put held (apply_flags r clear a) (c_put ?s clear a) (k_put ?s clear a)"
    unfolding before_put_def apply_flags_def Let_def
  proof (intro conjI, goal_cases)
  qed (use n(3,4) c0 kp n(2) d i z pd fl change_okD(15) [OF ok] in \<open>simp_all add: endios_def\<close>)
  then show ?thesis using False put_refs_inner by (simp add: mod_rq_state_eq a_def)
qed

lemma susp_add_subset: "f \<in> susp_add r clear add \<longleftrightarrow> f \<in> add \<or> f = RQ_COMPLETION_SUSP \<and> suspended (device r) \<and> RQ_COMPLETION_SUSP \<notin> rq_state r \<union> clear"
  by (auto simp: susp_add_def)

lemma change_ok_susp:
  assumes "change_ok (rq_state r) clear add"
  shows "change_ok (rq_state r) clear (susp_add r clear add)"
proof (cases "suspended (device r) \<and> RQ_COMPLETION_SUSP \<notin> rq_state r \<union> clear")
  case True
  then have "susp_add r clear add = insert RQ_COMPLETION_SUSP add" unfolding susp_add_def by simp
  moreover have "net_wf (insert RQ_COMPLETION_SUSP s) = net_wf s" for s by (simp add: net_wf_def mask_defs)
  ultimately show ?thesis using assms True unfolding change_ok_def by auto
next
  case False
  then have "susp_add r clear add = add" unfolding susp_add_def by (rule if_not_P)
  then show ?thesis using assms by simp
qed

lemma mod_event:
  assumes "req_inner held r" "kref r \<noteq> 0" "m_bio r = None" "change_ok (rq_state r) clear add"
    "completion_ref r = 0 \<longrightarrow> c_get (rq_state r) add = 0 \<and> (suspended (device r) \<longrightarrow> RQ_COMPLETION_SUSP \<in> clear)"
  shows "req_inner held (mod_rq_state r clear add)"
proof (rule mod_inner [OF assms(1-3) change_ok_susp [OF assms(4)]], rule impI)
  assume "completion_ref r = 0"
  then have "c_get (rq_state r) add = 0" "susp_add r clear add = add" using assms(5) by (auto simp: susp_add_def)
  then show "c_get (rq_state r) (susp_add r clear add) = 0" by simp
qed

lemma c_get_0:
  "{RQ_LOCAL_PENDING, RQ_NET_PENDING, RQ_NET_QUEUED, RQ_COMPLETION_SUSP} \<inter> add = {} \<Longrightarrow> c_get s add = 0"
  by (simp add: c_get_def)

lemma kref_sub_state: "rq_state (kref_sub r n) = rq_state r"
  by (simp add: kref_sub_def drbd_req_destroy_def Let_def call_if_def)

lemma put_completion_state:
  "rq_state (snd (drbd_req_put_completion_ref r c)) \<in> {rq_state r, insert RQ_POSTPONED (rq_state r)}"
  by (simp add: drbd_req_put_completion_ref_def drbd_req_complete_def drbd_restart_request_def Let_def upd_dev_def)

lemma put_refs_state: "rq_state (put_refs r c k) \<in> {rq_state r, insert RQ_POSTPONED (rq_state r)}"
proof -
  define q where "q = (if (k \<noteq> 0 \<or> c \<noteq> 0) \<and> kref r < k + of_bool (c \<noteq> 0) then call Logic_BUG r else r)"
  have q: "rq_state q = rq_state r" by (simp add: q_def)
  obtain j p where p: "(if c \<noteq> 0 then drbd_req_put_completion_ref q c else (0, q)) = (j, p)" by fastforce
  then have "rq_state p \<in> {rq_state q, insert RQ_POSTPONED (rq_state q)}"
    using put_completion_state [of q c] by (auto split: if_splits)
  moreover have "put_refs r c k = (if k + j \<noteq> 0 then kref_sub p (k + j) else p)"
    unfolding put_refs_def Let_def q_def [symmetric] p by simp
  ultimately show ?thesis by (simp add: q kref_sub_state)
qed

lemma mod_rq_state_flags:
  "rq_state (mod_rq_state r clear add) \<in>
    {rq_state r - clear \<union> susp_add r clear add, insert RQ_POSTPONED (rq_state r - clear \<union> susp_add r clear add)}"
  using put_refs_state [of "apply_flags r clear (susp_add r clear add)"]
  by (simp add: mod_rq_state_eq apply_flags_def Let_def)

lemma mod_flag:
  assumes "f \<noteq> RQ_POSTPONED" "f \<noteq> RQ_COMPLETION_SUSP"
  shows "f \<in> rq_state (mod_rq_state r clear add) \<longleftrightarrow> f \<in> rq_state r \<and> f \<notin> clear \<or> f \<in> add"
proof -
  have "f \<in> rq_state r - clear \<union> susp_add r clear add \<longleftrightarrow> f \<in> rq_state r \<and> f \<notin> clear \<or> f \<in> add"
    using assms(2) unfolding Un_iff Diff_iff susp_add_subset by blast
  then show ?thesis using mod_rq_state_flags [of r clear add] assms(1) by fastforce
qed

lemma pending_live:
  assumes "req_inner held r" "refs (rq_state r) \<noteq> 0"
  shows "completion_ref r \<noteq> 0" "kref r \<noteq> 0" "master_bio r" "m_bio r = None"
proof -
  have c: "completion_ref r = refs (rq_state r) + of_bool held"
    "kref r = krefs (rq_state r) + of_bool (completion_ref r \<noteq> 0 \<or> tl_requests r = On_retry)"
    "master_bio r \<longleftrightarrow> completion_ref r \<noteq> 0 \<or> RQ_POSTPONED \<in> rq_state r"
    "endios r + of_bool (m_bio r \<noteq> None) = of_bool (\<not> master_bio r)"
    using assms(1) by (auto simp: req_inner_def req_counts_def)
  show 1: "completion_ref r \<noteq> 0" using c(1) assms(2) refs_nonneg(1) [of "rq_state r"] by (simp add: of_bool_def)
  show "kref r \<noteq> 0" using c(2) 1 refs_nonneg(2) [of "rq_state r"] by (simp add: of_bool_def)
  show 2: "master_bio r" using c(3) 1 by simp
  show "m_bio r = None" using c(4) 2 by simp
qed

lemma local_live: "req_inner held r \<Longrightarrow> RQ_LOCAL_PENDING \<in> rq_state r \<Longrightarrow> kref r \<noteq> 0"
  using refs_nonneg(2) [of "rq_state r"] refs_nonneg(1) [of "rq_state r"]
  by (cases "RQ_LOCAL_ABORTED \<in> rq_state r")
    (auto simp: req_inner_def req_counts_def krefs_def refs_def of_bool_def split: if_splits)

section \<open>When an event may happen\<close>

text \<open>
  The conditions under which the callers send an event: the disk answers requests submitted to it, the sender
  those in its queue, the peer those that are pending; the transfer log is walked. A suspended device does not send an event to a
  completed request that would hold its completion back again.
\<close>

definition expected :: "drbd_request \<Rightarrow> drbd_req_event \<Rightarrow> bool" where
  "expected r what =
    (let s = rq_state r; logged = (tl_requests r = On_transfer_log \<and> kref r \<noteq> 0); live = (completion_ref r \<noteq> 0);
         local = (RQ_LOCAL_PENDING \<in> s \<and> (live \<or> \<not> suspended (device r))) in
     case what of
       COMPLETED_OK \<Rightarrow> local \<and> RQ_LOCAL_ABORTED \<notin> s
     | ABORT_DISK_IO \<Rightarrow> local
     | WRITE_COMPLETED_WITH_ERROR \<Rightarrow> local
     | READ_COMPLETED_WITH_ERROR \<Rightarrow> local
     | READ_AHEAD_COMPLETED_WITH_ERROR \<Rightarrow> local
     | DISCARD_COMPLETED_NOTSUPP \<Rightarrow> local
     | DISCARD_COMPLETED_WITH_ERROR \<Rightarrow> local
     | READ_RETRY_REMOTE_CANCELED \<Rightarrow> RQ_NET_QUEUED \<in> s
     | SEND_CANCELED \<Rightarrow> RQ_NET_QUEUED \<in> s
     | SEND_FAILED \<Rightarrow> RQ_NET_QUEUED \<in> s
     | HANDED_OVER_TO_NETWORK \<Rightarrow> RQ_NET_QUEUED \<in> s \<and> (RQ_WRITE \<in> s \<longrightarrow> RQ_EXP_BARR_ACK \<in> s)
     | OOS_HANDED_TO_NETWORK \<Rightarrow> RQ_NET_QUEUED \<in> s
     | CONNECTION_LOST_WHILE_PENDING \<Rightarrow> logged
     | CONFLICT_RESOLVED \<Rightarrow> RQ_NET_PENDING \<in> s
     | WRITE_ACKED_BY_PEER_AND_SIS \<Rightarrow> RQ_NET_PENDING \<in> s
     | WRITE_ACKED_BY_PEER \<Rightarrow> RQ_NET_PENDING \<in> s
     | RECV_ACKED_BY_PEER \<Rightarrow> RQ_NET_PENDING \<in> s
     | POSTPONE_WRITE \<Rightarrow> RQ_NET_PENDING \<in> s
     | NEG_ACKED \<Rightarrow> in_tree r
     | DATA_RECEIVED \<Rightarrow> RQ_NET_PENDING \<in> s
     | FAIL_FROZEN_DISK_IO \<Rightarrow> logged
     | RESTART_FROZEN_DISK_IO \<Rightarrow> logged \<and> (RQ_LOCAL_COMPLETED \<in> s \<longrightarrow> live \<and> RQ_LOCAL_ABORTED \<notin> s)
     | RESEND \<Rightarrow> logged \<and> (RQ_WRITE \<in> s \<or> w_cb r \<noteq> None \<longrightarrow> RQ_NET_OK \<notin> s \<longrightarrow> live \<and> (RQ_WRITE \<in> s \<longrightarrow> RQ_EXP_BARR_ACK \<in> s))
     | BARRIER_ACKED \<Rightarrow> logged
     | _ \<Rightarrow> False)"

text \<open>The books do not depend on the other fields, nor on other calls.\<close>

lemma books_upd:
  assumes "rq_state q = rq_state r" "completion_ref q = completion_ref r" "kref q = kref r" "master_bio q = master_bio r"
    "in_tree q = in_tree r" "tl_requests q = tl_requests r" "rw q = rw r"
    "ap_pending_cnt (device q) = ap_pending_cnt (device r)" "calls (device q) = calls (device r) @ xs"
    "ldev_failed_ok (device q) = ldev_failed_ok (device r)"
    "set xs \<inter> {Call_free, Logic_BUG} = {}" "\<forall>e. Call_bio_endio e \<notin> set xs"
  shows "req_counts held q = req_counts held r" "req_end r \<Longrightarrow> req_end q" "endios q = endios r"
proof -
  have "filter (\<lambda>c. case c of Call_bio_endio _ \<Rightarrow> True | _ \<Rightarrow> False) xs = []"
    using assms(12) by (auto simp: filter_empty_conv split: req_call.splits)
  then show "endios q = endios r" by (simp add: endios_def assms(9))
  have "Call_free \<notin> set xs" "Logic_BUG \<notin> set xs" using assms(11) by auto
  then show "req_end r \<Longrightarrow> req_end q" unfolding req_end_def assms(1,3,6,9,10) by auto
  show "req_counts held q = req_counts held r" unfolding req_counts_def assms ..
qed

lemma inner_upd:
  assumes "req_inner held r" "m_bio q = m_bio r"
    "rq_state q = rq_state r" "completion_ref q = completion_ref r" "kref q = kref r" "master_bio q = master_bio r"
    "in_tree q = in_tree r" "tl_requests q = tl_requests r" "rw q = rw r"
    "ap_pending_cnt (device q) = ap_pending_cnt (device r)" "calls (device q) = calls (device r) @ xs"
    "ldev_failed_ok (device q) = ldev_failed_ok (device r)"
    "set xs \<inter> {Call_free, Logic_BUG} = {}" "\<forall>e. Call_bio_endio e \<notin> set xs"
  shows "req_inner held q"
proof -
  note b = books_upd [OF assms(3-14)]
  have "result_ok q = result_ok r" unfolding result_ok_def assms ..
  then show ?thesis using assms(1) b(1,2) unfolding req_inner_def b(3) assms(2,6) by blast
qed

lemma inv_upd:
  assumes "req_inv held r"
    "rq_state q = rq_state r" "completion_ref q = completion_ref r" "kref q = kref r" "master_bio q = master_bio r"
    "in_tree q = in_tree r" "tl_requests q = tl_requests r" "rw q = rw r"
    "ap_pending_cnt (device q) = ap_pending_cnt (device r)" "calls (device q) = calls (device r) @ xs"
    "ldev_failed_ok (device q) = ldev_failed_ok (device r)"
    "set xs \<inter> {Call_free, Logic_BUG} = {}" "\<forall>e. Call_bio_endio e \<notin> set xs"
  shows "req_inv held q"
  using assms(1) books_upd(1,2) [OF assms(2-13)] unfolding req_inv_def books_upd(3) [OF assms(2-13)] assms(5) by blast

lemma mod_local:
  assumes "req_inner held r" "m_bio r = None" "RQ_LOCAL_PENDING \<in> rq_state r" "completion_ref r \<noteq> 0 \<or> \<not> suspended (device r)"
    "add \<subseteq> {RQ_LOCAL_COMPLETED, RQ_LOCAL_OK}"
  shows "req_inner held (mod_rq_state r {RQ_LOCAL_PENDING} add)"
proof (rule mod_event [OF assms(1) local_live [OF assms(1,3)] assms(2)])
  show "change_ok (rq_state r) {RQ_LOCAL_PENDING} add"
  proof -
    have "net_wf (rq_state r - {RQ_LOCAL_PENDING} \<union> add)"
      using assms(1,5) unfolding req_inner_def req_counts_def net_wf_def mask_defs by blast
    then show ?thesis using assms(5) unfolding change_ok_def by blast
  qed
  have "c_get (rq_state r) add = 0" using assms(5) by (intro c_get_0) auto
  then show "completion_ref r = 0 \<longrightarrow> c_get (rq_state r) add = 0 \<and> (suspended (device r) \<longrightarrow> RQ_COMPLETION_SUSP \<in> {RQ_LOCAL_PENDING})"
    using assms(4) by simp
qed

lemma mod_live:
  assumes "req_inner held r" "m_bio r = None" "completion_ref r \<noteq> 0" "change_ok (rq_state r) clear add"
  shows "req_inner held (mod_rq_state r clear add)"
proof -
  have "kref r \<noteq> 0" using assms(1,3) refs_nonneg(2) [of "rq_state r"] by (auto simp: req_inner_def req_counts_def)
  then show ?thesis using mod_event assms by blast
qed

lemma inner_net_wf: "req_inner held r \<Longrightarrow> net_wf (rq_state r)"
  by (simp add: req_inner_def req_counts_def)

text \<open>An answer from the network: something is pending or queued, so the request is alive.\<close>

lemma mod_net:
  assumes "req_inner held r" "RQ_NET_PENDING \<in> rq_state r \<or> RQ_NET_QUEUED \<in> rq_state r"
    "clear \<subseteq> {RQ_NET_PENDING, RQ_NET_QUEUED}" "add \<subseteq> {RQ_NET_OK, RQ_NET_DONE, RQ_NET_SENT}"
    "RQ_WRITE \<in> rq_state r \<longrightarrow> RQ_NET_DONE \<in> add \<or> add = {} \<or> RQ_NET_PENDING \<in> rq_state r \<or> RQ_EXP_BARR_ACK \<in> rq_state r"
  shows "req_inner held (mod_rq_state r clear add)"
proof -
  have "refs (rq_state r) \<noteq> 0" using assms(2) by (auto simp: refs_0)
  note live = pending_live [OF assms(1) this]
  have "net_wf (rq_state r - clear \<union> add)"
    using assms(2-5) inner_net_wf [OF assms(1)] unfolding net_wf_def mask_defs by blast
  then have "change_ok (rq_state r) clear add" using assms(3,4) unfolding change_ok_def by blast
  then show ?thesis using mod_live assms(1) live by blast
qed

lemma mod_log:
  assumes "req_inner held r" "m_bio r = None" "kref r \<noteq> 0" "RQ_COMPLETION_SUSP \<in> clear"
    "clear \<subseteq> {RQ_COMPLETION_SUSP, RQ_NET_OK, RQ_NET_PENDING}" "add \<subseteq> {RQ_NET_DONE}"
  shows "req_inner held (mod_rq_state r clear add)"
proof (rule mod_event [OF assms(1,3,2)])
  have "net_wf (rq_state r - clear \<union> add)"
    using assms(5,6) inner_net_wf [OF assms(1)] unfolding net_wf_def mask_defs by blast
  then show "change_ok (rq_state r) clear add" using assms(5,6) unfolding change_ok_def by blast
  have "c_get (rq_state r) add = 0" using assms(6) by (intro c_get_0) auto
  then show "completion_ref r = 0 \<longrightarrow> c_get (rq_state r) add = 0 \<and> (suspended (device r) \<longrightarrow> RQ_COMPLETION_SUSP \<in> clear)"
    using assms(4) by simp
qed

lemma barrier_acked_inner:
  assumes "req_inner held r" "m_bio r = None" "kref r \<noteq> 0"
  shows "req_inner held (barrier_acked r)"
  using assms mod_log [OF assms, of "{RQ_COMPLETION_SUSP}"] unfolding barrier_acked_def by simp

lemma restart_inner:
  assumes "req_inner held r" "m_bio r = None" "RQ_LOCAL_ABORTED \<notin> rq_state r" "completion_ref r \<noteq> 0"
  defines "q \<equiv> mod_rq_state r {RQ_COMPLETION_SUSP, RQ_LOCAL_COMPLETED} {RQ_LOCAL_PENDING}"
  shows "req_inner held (queue_work w_restart_disk_io q)" "master_bio q"
proof -
  have "net_wf (rq_state r - {RQ_COMPLETION_SUSP, RQ_LOCAL_COMPLETED} \<union> {RQ_LOCAL_PENDING})"
    using inner_net_wf [OF assms(1)] unfolding net_wf_def mask_defs by blast
  then have "change_ok (rq_state r) {RQ_COMPLETION_SUSP, RQ_LOCAL_COMPLETED} {RQ_LOCAL_PENDING}"
    using assms(3) unfolding change_ok_def by blast
  from mod_live [OF assms(1,2,4) this] have i: "req_inner held q" unfolding q_def .
  have "RQ_LOCAL_PENDING \<in> rq_state q" "RQ_LOCAL_ABORTED \<notin> rq_state q"
    using assms(3) unfolding q_def by (simp_all add: mod_flag)
  then have "refs (rq_state q) \<noteq> 0" by (simp add: refs_0)
  from pending_live(3) [OF i this] show "master_bio q" .
  show "req_inner held (queue_work w_restart_disk_io q)"
    by (rule inner_upd [OF i, where xs = "[Call_queue_work w_restart_disk_io]"]) (simp_all add: queue_work_def)
qed

lemma resend_inner:
  assumes "req_inner held r" "m_bio r = None" "completion_ref r \<noteq> 0" "RQ_WRITE \<in> rq_state r \<longrightarrow> RQ_EXP_BARR_ACK \<in> rq_state r"
  defines "q \<equiv> mod_rq_state r {RQ_COMPLETION_SUSP} {RQ_NET_QUEUED, RQ_NET_PENDING}"
  shows "req_inner held q" "req_inner held (call (Call_queue_work cb) q)"
proof -
  have "net_wf (rq_state r - {RQ_COMPLETION_SUSP} \<union> {RQ_NET_QUEUED, RQ_NET_PENDING})"
    using assms(4) unfolding net_wf_def mask_defs by blast
  then have "change_ok (rq_state r) {RQ_COMPLETION_SUSP} {RQ_NET_QUEUED, RQ_NET_PENDING}"
    unfolding change_ok_def by blast
  from mod_live [OF assms(1,2,3) this] show i: "req_inner held q" unfolding q_def .
  show "req_inner held (call (Call_queue_work cb) q)"
    by (rule inner_upd [OF i, where xs = "[Call_queue_work cb]"]) simp_all
qed

lemma handed_over_inner:
  assumes "req_inner held r" "RQ_NET_QUEUED \<in> rq_state r" "RQ_WRITE \<in> rq_state r \<longrightarrow> RQ_EXP_BARR_ACK \<in> rq_state r"
  shows "req_inner held (mod_rq_state r {RQ_NET_QUEUED} {RQ_NET_SENT})"
    "req_inner held (mod_rq_state (mod_rq_state r {RQ_NET_PENDING} {RQ_NET_OK}) {RQ_NET_QUEUED} {RQ_NET_SENT})"
proof -
  show "req_inner held (mod_rq_state r {RQ_NET_QUEUED} {RQ_NET_SENT})" using assms by (intro mod_net) auto
  let ?q = "mod_rq_state r {RQ_NET_PENDING} {RQ_NET_OK}"
  have i: "req_inner held ?q" using assms by (intro mod_net) auto
  have "RQ_NET_QUEUED \<in> rq_state ?q" "RQ_WRITE \<in> rq_state ?q \<longrightarrow> RQ_EXP_BARR_ACK \<in> rq_state ?q"
    using assms(2,3) by (simp_all add: mod_flag)
  then show "req_inner held (mod_rq_state ?q {RQ_NET_QUEUED} {RQ_NET_SENT})" by (intro mod_net [OF i]) auto
qed

lemma flag_inner:
  assumes "req_inner held r" "completion_ref r \<noteq> 0" "m_bio r = None" "f = RQ_POSTPONED \<or> f = RQ_NET_SIS \<and> RQ_NET_PENDING \<in> rq_state r"
  shows "req_inner held (r\<lparr>rq_state := insert f (rq_state r)\<rparr>)"
proof -
  have st: "refs (insert f (rq_state r)) = refs (rq_state r)" "krefs (insert f (rq_state r)) = krefs (rq_state r)"
    using assms(4) by (auto simp: refs_def krefs_def)
  have wf: "net_wf (insert f (rq_state r))" using inner_net_wf [OF assms(1)] assms(4) unfolding net_wf_def mask_defs by blast
  have c: "req_counts held (r\<lparr>rq_state := insert f (rq_state r)\<rparr>)"
    using assms wf st by (auto simp: req_inner_def req_counts_def)
  have "kref r \<noteq> 0" using assms(1,2) refs_nonneg(2) [of "rq_state r"] by (auto simp: req_inner_def req_counts_def)
  then show ?thesis using assms(1,3) c by (simp add: req_inner_def req_end_def endios_def result_ok_def)
qed

text \<open>The local disk: completions, errors, and the disk being given up.\<close>

definition disk_events :: "drbd_req_event set" where
  "disk_events = {COMPLETED_OK, ABORT_DISK_IO, WRITE_COMPLETED_WITH_ERROR, READ_COMPLETED_WITH_ERROR, READ_AHEAD_COMPLETED_WITH_ERROR, DISCARD_COMPLETED_NOTSUPP, DISCARD_COMPLETED_WITH_ERROR}"

lemma disk_event_inner:
  assumes "req_inner held r" "m_bio r = None" "expected r what" "what \<in> disk_events"
  shows "\<exists>rv q. req_mod_locked r what = Some (rv, q) \<and> req_inner held q"
proof -
  have r: "r\<lparr>m_bio := None\<rparr> = r" using assms(2) by simp
  note i = assms(1)
  note m = assms(2)
  have cnt: "req_inner held (mod_rq_state q {RQ_LOCAL_PENDING} add)"
    if "RQ_LOCAL_PENDING \<in> rq_state r \<and> (completion_ref r \<noteq> 0 \<or> \<not> suspended (device r))" "req_inner held q"
      "add \<subseteq> {RQ_LOCAL_COMPLETED, RQ_LOCAL_OK}" "rq_state q = rq_state r" "m_bio q = None" "completion_ref q = completion_ref r"
      "suspended (device q) = suspended (device r)" for q add
    using mod_local [OF that(2,5)] that by simp
  show ?thesis
  proof (cases what)
    case COMPLETED_OK
    let ?n = "i_size r div 512"
    let ?q = "upd_dev (\<lambda>d. if RQ_WRITE \<in> rq_state r then d\<lparr>writ_cnt := writ_cnt d + ?n\<rparr> else d\<lparr>read_cnt := read_cnt d + ?n\<rparr>) r"
    have "req_inner held ?q" by (rule inner_upd [OF i, where xs = "[]"]) (simp_all add: upd_dev_def)
    then have "req_inner held (mod_rq_state ?q {RQ_LOCAL_PENDING} {RQ_LOCAL_COMPLETED, RQ_LOCAL_OK})"
      using COMPLETED_OK assms(3) m by (intro cnt) (simp_all add: expected_def Let_def upd_dev_def)
    then show ?thesis using COMPLETED_OK by (simp add: r Let_def)
  next
    case ABORT_DISK_IO
    then have e: "RQ_LOCAL_PENDING \<in> rq_state r" "completion_ref r \<noteq> 0 \<or> \<not> suspended (device r)"
      using assms(3) by (auto simp: expected_def Let_def)
    have "net_wf (rq_state r - {} \<union> {RQ_LOCAL_ABORTED})" using inner_net_wf [OF i] unfolding net_wf_def mask_defs by blast
    then have "change_ok (rq_state r) {} {RQ_LOCAL_ABORTED}" using e(1) unfolding change_ok_def by blast
    from mod_event [OF i local_live [OF i e(1)] m this] have "req_inner held (mod_rq_state r {} {RQ_LOCAL_ABORTED})"
      using e(2) by (simp add: c_get_def)
    then show ?thesis using ABORT_DISK_IO by (simp add: r Let_def)
  next
    case WRITE_COMPLETED_WITH_ERROR
    have "req_inner held (call (Call_chk_io_error WRITE) r)" by (rule inner_upd [OF i, where xs = "[Call_chk_io_error WRITE]"]) simp_all
    then have "req_inner held (mod_rq_state (call (Call_chk_io_error WRITE) r) {RQ_LOCAL_PENDING} {RQ_LOCAL_COMPLETED})"
      using WRITE_COMPLETED_WITH_ERROR assms(3) m by (intro cnt) (simp_all add: expected_def Let_def)
    then show ?thesis using WRITE_COMPLETED_WITH_ERROR by (simp add: r Let_def)
  next
    case READ_COMPLETED_WITH_ERROR
    let ?q = "call (Call_chk_io_error READ) (call Call_set_out_of_sync r)"
    have "req_inner held ?q" by (rule inner_upd [OF i, where xs = "[Call_set_out_of_sync, Call_chk_io_error READ]"]) simp_all
    then have "req_inner held (mod_rq_state ?q {RQ_LOCAL_PENDING} {RQ_LOCAL_COMPLETED})"
      using READ_COMPLETED_WITH_ERROR assms(3) m by (intro cnt) (simp_all add: expected_def Let_def)
    then show ?thesis using READ_COMPLETED_WITH_ERROR by (simp add: r Let_def)
  next
    case READ_AHEAD_COMPLETED_WITH_ERROR
    then show ?thesis using assms(3) cnt [OF _ i, of "{RQ_LOCAL_COMPLETED}"] m by (simp add: r Let_def expected_def)
  next
    case DISCARD_COMPLETED_NOTSUPP
    then show ?thesis using assms(3) cnt [OF _ i, of "{RQ_LOCAL_COMPLETED}"] m by (simp add: r Let_def expected_def)
  next
    case DISCARD_COMPLETED_WITH_ERROR
    then show ?thesis using assms(3) cnt [OF _ i, of "{RQ_LOCAL_COMPLETED}"] m by (simp add: r Let_def expected_def)
  qed (use assms(4) in \<open>simp_all add: disk_events_def\<close>)
qed

text \<open>The walks over the transfer log.\<close>

definition log_events :: "drbd_req_event set" where
  "log_events = {CONNECTION_LOST_WHILE_PENDING, FAIL_FROZEN_DISK_IO, RESTART_FROZEN_DISK_IO, RESEND, BARRIER_ACKED}"

lemma log_event_inner:
  assumes "req_inner held r" "m_bio r = None" "expected r what" "what \<in> log_events"
  shows "\<exists>rv q. req_mod_locked r what = Some (rv, q) \<and> req_inner held q"
proof -
  have r: "r\<lparr>m_bio := None\<rparr> = r" using assms(2) by simp
  note i = assms(1)
  note m = assms(2)
  show ?thesis
  proof (cases what)
    case CONNECTION_LOST_WHILE_PENDING
    then show ?thesis using assms(3) mod_log [OF i m, of "{RQ_NET_OK, RQ_NET_PENDING, RQ_COMPLETION_SUSP}" "{RQ_NET_DONE}"]
      by (simp add: r Let_def expected_def)
  next
    case FAIL_FROZEN_DISK_IO
    then show ?thesis using assms(3) i mod_log [OF i m, of "{RQ_COMPLETION_SUSP}" "{}"] by (simp add: r Let_def expected_def)
  next
    case RESTART_FROZEN_DISK_IO
    then show ?thesis using assms(3) i restart_inner [OF i m] by (simp add: r Let_def expected_def)
  next
    case RESEND
    then have e: "kref r \<noteq> 0" "(RQ_WRITE \<in> rq_state r \<or> w_cb r \<noteq> None) \<longrightarrow> RQ_NET_OK \<notin> rq_state r \<longrightarrow>
        completion_ref r \<noteq> 0 \<and> (RQ_WRITE \<in> rq_state r \<longrightarrow> RQ_EXP_BARR_ACK \<in> rq_state r)"
      using assms(3) by (auto simp: expected_def Let_def)
    consider (r) "RQ_WRITE \<notin> rq_state r \<and> w_cb r = None" | (s) "\<not> (RQ_WRITE \<notin> rq_state r \<and> w_cb r = None)" "RQ_NET_OK \<notin> rq_state r"
      | (b) "\<not> (RQ_WRITE \<notin> rq_state r \<and> w_cb r = None)" "RQ_NET_OK \<in> rq_state r" by blast
    then show ?thesis
    proof cases
      case r
      then show ?thesis using RESEND mod_log [OF i m e(1), of "{RQ_COMPLETION_SUSP}" "{}"] \<open>r\<lparr>m_bio := None\<rparr> = r\<close> by (simp add: Let_def)
    next
      case s
      have "completion_ref r \<noteq> 0" "RQ_WRITE \<in> rq_state r \<longrightarrow> RQ_EXP_BARR_ACK \<in> rq_state r" using e(2) s by auto
      from resend_inner [OF i m this] s RESEND r show ?thesis
        by (cases "w_cb (mod_rq_state r {RQ_COMPLETION_SUSP} {RQ_NET_QUEUED, RQ_NET_PENDING})") (auto simp: Let_def)
    next
      case b
      then show ?thesis using RESEND barrier_acked_inner [OF i m e(1)] r by (auto simp: Let_def)
    qed
  next
    case BARRIER_ACKED
    then show ?thesis using assms(3) barrier_acked_inner [OF i m] by (simp add: r Let_def expected_def)
  qed (use assms(4) in \<open>simp_all add: log_events_def\<close>)
qed

text \<open>The sender and the answers of the peer.\<close>

definition net_events :: "drbd_req_event set" where
  "net_events = {READ_RETRY_REMOTE_CANCELED, SEND_CANCELED, SEND_FAILED, HANDED_OVER_TO_NETWORK, OOS_HANDED_TO_NETWORK, CONFLICT_RESOLVED, WRITE_ACKED_BY_PEER_AND_SIS, WRITE_ACKED_BY_PEER, RECV_ACKED_BY_PEER, POSTPONE_WRITE, NEG_ACKED, DATA_RECEIVED}"

lemma net_event_inner:
  assumes "req_inner held r" "m_bio r = None" "expected r what" "what \<in> net_events"
  shows "\<exists>rv q. req_mod_locked r what = Some (rv, q) \<and> req_inner held q"
proof -
  have r: "r\<lparr>m_bio := None\<rparr> = r" using assms(2) by simp
  note i = assms(1)
  note m = assms(2)
  have live: "completion_ref r \<noteq> 0" if "RQ_NET_PENDING \<in> rq_state r \<or> RQ_NET_QUEUED \<in> rq_state r"
    using pending_live(1) [OF i] that by (auto simp: refs_0)
  show ?thesis
  proof (cases what)
    case READ_RETRY_REMOTE_CANCELED
    then show ?thesis using assms(3) mod_net [OF i, of "{RQ_NET_QUEUED}" "{}"] by (simp add: r Let_def expected_def)
  next
    case SEND_CANCELED
    then show ?thesis using assms(3) mod_net [OF i, of "{RQ_NET_QUEUED}" "{}"] by (simp add: r Let_def expected_def)
  next
    case SEND_FAILED
    then show ?thesis using assms(3) mod_net [OF i, of "{RQ_NET_QUEUED}" "{}"] by (simp add: r Let_def expected_def)
  next
    case HANDED_OVER_TO_NETWORK
    then have e: "RQ_NET_QUEUED \<in> rq_state r" "RQ_WRITE \<in> rq_state r \<longrightarrow> RQ_EXP_BARR_ACK \<in> rq_state r"
      using assms(3) by (simp_all add: expected_def Let_def)
    have "refs (rq_state r) \<noteq> 0" using e(1) by (simp add: refs_0)
    from pending_live(3) [OF i this] handed_over_inner [OF i e] HANDED_OVER_TO_NETWORK
    show ?thesis by (simp add: r Let_def)
  next
    case OOS_HANDED_TO_NETWORK
    then show ?thesis using assms(3) mod_net [OF i, of "{RQ_NET_QUEUED}" "{RQ_NET_DONE}"] by (simp add: r Let_def expected_def)
  next
    case CONFLICT_RESOLVED
    then show ?thesis using assms(3) mod_net [OF i, of "{RQ_NET_PENDING}" "{RQ_NET_DONE, RQ_NET_OK}"] by (simp add: r Let_def expected_def)
  next
    case WRITE_ACKED_BY_PEER_AND_SIS
    then have p: "RQ_NET_PENDING \<in> rq_state r" using assms(3) by (simp add: expected_def Let_def)
    have "req_inner held (r\<lparr>rq_state := insert RQ_NET_SIS (rq_state r)\<rparr>)" using live p by (intro flag_inner [OF i _ m]) auto
    from mod_net [OF this, of "{RQ_NET_PENDING}" "{RQ_NET_OK}"] p WRITE_ACKED_BY_PEER_AND_SIS show ?thesis by (simp add: r Let_def)
  next
    case WRITE_ACKED_BY_PEER
    then show ?thesis using assms(3) mod_net [OF i, of "{RQ_NET_PENDING}" "{RQ_NET_OK}"] by (simp add: r Let_def expected_def)
  next
    case RECV_ACKED_BY_PEER
    then show ?thesis using assms(3) mod_net [OF i, of "{RQ_NET_PENDING}" "{RQ_NET_OK}"] by (simp add: r Let_def expected_def)
  next
    case POSTPONE_WRITE
    then show ?thesis using assms(3) flag_inner [OF i _ m, of RQ_POSTPONED] live by (simp add: r Let_def expected_def)
  next
    case NEG_ACKED
    then have "in_tree r" using assms(3) by (simp add: expected_def Let_def)
    then have l: "completion_ref r \<noteq> 0" using i by (simp add: req_inner_def req_counts_def)
    have "net_wf (rq_state r - {RQ_NET_OK, RQ_NET_PENDING} \<union> {})" using inner_net_wf [OF i] unfolding net_wf_def mask_defs by blast
    then have "change_ok (rq_state r) {RQ_NET_OK, RQ_NET_PENDING} {}" unfolding change_ok_def by blast
    from mod_live [OF i m l this] NEG_ACKED show ?thesis by (simp add: r Let_def)
  next
    case DATA_RECEIVED
    then show ?thesis using assms(3) mod_net [OF i, of "{RQ_NET_PENDING}" "{RQ_NET_OK, RQ_NET_DONE}"] by (simp add: r Let_def expected_def)
  qed (use assms(4) in \<open>simp_all add: net_events_def\<close>)
qed

lemma event_inner:
  assumes "req_inner held r" "m_bio r = None" "expected r what"
  shows "\<exists>rv q. req_mod_locked r what = Some (rv, q) \<and> req_inner held q"
proof -
  have "what \<in> disk_events \<union> log_events \<union> net_events"
    using assms(3) by (cases what) (simp_all add: expected_def Let_def disk_events_def log_events_def net_events_def)
  then show ?thesis using disk_event_inner log_event_inner net_event_inner assms by blast
qed

end
