(* ===== verification/Request_Facts.thy ===== *)
theory Request_Facts
  imports Request_Inv
begin

text \<open>
  The life of a request from its submission to its end, as an inductive set of reachable states, and the properties of it: exact
  reference counts, no use after free, one answer to the application, and no request that waits for ever.
\<close>

section \<open>Submission\<close>

lemma put_refs_0 [simp]: "put_refs r 0 0 = r"
  by (simp add: put_refs_def)

lemma mod_add:
  assumes "\<not> suspended (device r)" "RQ_LOCAL_ABORTED \<notin> add" "\<not> (RQ_EXP_BARR_ACK \<in> rq_state r \<and> RQ_NET_DONE \<in> add)"
  shows "mod_rq_state r {} add = apply_flags r {} add"
proof -
  have a: "susp_add r {} add = add" using assms(1) by (simp add: susp_add_def)
  have p: "c_put (rq_state r) {} add = 0" "k_put (rq_state r) {} add = 0" using assms(2,3) by (auto simp: c_put_def k_put_def)
  have "apply_flags r {} add = r" if "rq_state r \<union> add = rq_state r"
  proof -
    have f: "f \<in> add \<Longrightarrow> f \<in> rq_state r" for f using that by blast
    have "c_get (rq_state r) add = 0" "k_get (rq_state r) add = 0" "pending_delta (rq_state r) {} add = 0"
      "in_flight_delta (rq_state r) {} add = 0"
      using f assms(3) unfolding c_get_def k_get_def pending_delta_def in_flight_delta_def of_bool_def by auto
    then show ?thesis using that by (simp add: apply_flags_def Let_def)
  qed
  then show ?thesis unfolding mod_rq_state_eq a p by simp
qed

lemma apply_flags_fields [simp]:
  "rq_state (apply_flags r clear add) = rq_state r - clear \<union> add"
  "completion_ref (apply_flags r clear add) = completion_ref r + c_get (rq_state r) add"
  "kref (apply_flags r clear add) = kref r + k_get (rq_state r) add"
  "master_bio (apply_flags r clear add) = master_bio r" "rw (apply_flags r clear add) = rw r"
  "has_private_bio (apply_flags r clear add) = has_private_bio r" "m_bio (apply_flags r clear add) = m_bio r"
  "in_tree (apply_flags r clear add) = in_tree r" "tl_requests (apply_flags r clear add) = tl_requests r" "i_size (apply_flags r clear add) = i_size r"
  "calls (device (apply_flags r clear add)) = calls (device r)" "suspended (device (apply_flags r clear add)) = suspended (device r)"
  "ap_pending_cnt (device (apply_flags r clear add)) = ap_pending_cnt (device r) + pending_delta (rq_state r) clear add"
  "wire_protocol (device (apply_flags r clear add)) = wire_protocol (device r)"
  by (simp_all add: apply_flags_def Let_def)

text \<open>A request during its submission: it holds one reference more, and its flags are still being collected.\<close>

definition submitting :: "drbd_request \<Rightarrow> bool" where
  "submitting r \<longleftrightarrow> \<not> suspended (device r) \<and> completion_ref r = refs (rq_state r) + 1 \<and> kref r = krefs (rq_state r) + 1
     \<and> master_bio r \<and> tl_requests r \<in> {Off_list, On_transfer_log} \<and> m_bio r = None \<and> (RQ_WRITE \<in> rq_state r \<longleftrightarrow> rw r = WRITE)
     \<and> ap_pending_cnt (device r) = of_bool (RQ_NET_PENDING \<in> rq_state r) \<and> Call_free \<notin> set (calls (device r))
     \<and> Logic_BUG \<notin> set (calls (device r)) \<and> endios r = 0 \<and> RQ_LOCAL_ABORTED \<notin> rq_state r"

lemma submitting_inv: "submitting r \<Longrightarrow> net_wf (rq_state r) \<Longrightarrow> req_inv True r"
  using refs_nonneg [of "rq_state r"] by (auto simp: submitting_def req_inv_def req_counts_def req_end_def)

lemma submitting_add:
  assumes "submitting r" "add \<inter> {RQ_LOCAL_ABORTED, RQ_COMPLETION_SUSP, RQ_WRITE} = {}"
    "\<not> (RQ_EXP_BARR_ACK \<in> rq_state r \<union> add \<and> RQ_NET_DONE \<in> rq_state r \<union> add)"
  shows "mod_rq_state r {} add = apply_flags r {} add" "submitting (apply_flags r {} add)"
proof -
  have a: "RQ_LOCAL_ABORTED \<notin> add" "RQ_COMPLETION_SUSP \<notin> add" "RQ_WRITE \<notin> add" "RQ_LOCAL_ABORTED \<notin> rq_state r"
    using assms(1,2) by (auto simp: submitting_def)
  show "mod_rq_state r {} add = apply_flags r {} add" using assms(1,3) a by (intro mod_add) (auto simp: submitting_def)
  have "refs (rq_state r \<union> add) = refs (rq_state r) + c_get (rq_state r) add"
    using a by (simp add: refs_def c_get_def of_bool_def)
  moreover have "krefs (rq_state r \<union> add) = krefs (rq_state r) + k_get (rq_state r) add"
    using a assms(3) by (auto simp: krefs_def k_get_def)
  moreover have "endios (apply_flags r {} add) = endios r" by (simp add: endios_def)
  ultimately show "submitting (apply_flags r {} add)"
    using assms(1) a by (simp add: submitting_def pending_delta_def of_bool_def)
qed

lemma submitting_upd:
  assumes "submitting r"
    "rq_state q = rq_state r" "completion_ref q = completion_ref r" "kref q = kref r" "master_bio q = master_bio r"
    "tl_requests q \<in> {Off_list, On_transfer_log}" "rw q = rw r" "m_bio q = m_bio r" "suspended (device q) = suspended (device r)"
    "ap_pending_cnt (device q) = ap_pending_cnt (device r)" "calls (device q) = calls (device r) @ xs"
    "set xs \<inter> {Call_free, Logic_BUG} = {}" "\<forall>e. Call_bio_endio e \<notin> set xs"
  shows "submitting q"
proof -
  have "filter (\<lambda>c. case c of Call_bio_endio _ \<Rightarrow> True | _ \<Rightarrow> False) xs = []"
    using assms(13) by (auto simp: filter_empty_conv split: req_call.splits)
  then have e: "endios q = endios r" by (simp add: endios_def assms(11))
  have "Call_free \<notin> set xs" "Logic_BUG \<notin> set xs" using assms(12) by auto
  then show ?thesis using assms(1,6) unfolding submitting_def e assms(2-5) assms(7-11) by auto
qed

lemma submitting_ack:
  assumes "submitting r"
  shows "submitting (r\<lparr>rq_state := rq_state r \<union> ack_flags p\<rparr>)"
proof -
  have "f \<notin> ack_flags p" if "f \<noteq> RQ_EXP_WRITE_ACK" "f \<noteq> RQ_EXP_RECEIVE_ACK" for f
    using that by (auto simp: ack_flags_def)
  then show ?thesis using assms by (simp add: submitting_def refs_def krefs_def endios_def)
qed

text \<open>The events of the submission, one after the other.\<close>

lemma to_be_sent_submitting:
  assumes "submitting r" "RQ_EXP_BARR_ACK \<notin> rq_state r"
  shows "\<exists>q. req_mod r TO_BE_SENT = Some q \<and> submitting q \<and> rq_state q = insert RQ_NET_PENDING (rq_state r \<union> ack_flags (wire_protocol (device r)))
    \<and> rw q = rw r \<and> has_private_bio q = has_private_bio r"
proof -
  let ?q = "r\<lparr>rq_state := rq_state r \<union> ack_flags (wire_protocol (device r))\<rparr>"
  have m: "m_bio r = None" using assms(1) by (simp add: submitting_def)
  then have r: "r\<lparr>m_bio := None\<rparr> = r" by simp
  have e: "RQ_EXP_BARR_ACK \<notin> ack_flags p" for p by (simp add: ack_flags_def)
  note s = submitting_add [OF submitting_ack [OF assms(1)], of "{RQ_NET_PENDING}" "wire_protocol (device r)"]
  show ?thesis using s assms(2) e m by (simp add: req_mod_def Let_def r complete_master_bio_def)
qed

lemma queue_submitting:
  assumes "submitting r" "RQ_NET_DONE \<notin> rq_state r" "what \<in> {QUEUE_FOR_NET_WRITE, QUEUE_FOR_NET_READ, QUEUE_FOR_SEND_OOS}"
  shows "\<exists>q. req_mod r what = Some q \<and> submitting q \<and> has_private_bio q = has_private_bio r
    \<and> rq_state q = rq_state r \<union> (if what = QUEUE_FOR_NET_WRITE then {RQ_NET_QUEUED, RQ_EXP_BARR_ACK} else {RQ_NET_QUEUED})"
proof -
  have m: "m_bio r = None" using assms(1) by (simp add: submitting_def)
  then have r: "r\<lparr>m_bio := None\<rparr> = r" by simp
  define p where "p = (if what = QUEUE_FOR_SEND_OOS then r else upd_dev (\<lambda>d. d\<lparr>UNPLUG_REMOTE := True\<rparr>) (r\<lparr>in_tree := True\<rparr>))"
  define a where "a = (if what = QUEUE_FOR_NET_WRITE then {RQ_NET_QUEUED, RQ_EXP_BARR_ACK} else {RQ_NET_QUEUED})"
  define cb where "cb = (if what = QUEUE_FOR_NET_WRITE then w_send_dblock else if what = QUEUE_FOR_NET_READ then w_send_read_req else w_send_out_of_sync)"
  have p: "submitting p"
    by (rule submitting_upd [OF assms(1), where xs = "[]"]) (use assms(1) in \<open>simp_all add: p_def upd_dev_def submitting_def\<close>)
  have s: "rq_state p = rq_state r" "has_private_bio p = has_private_bio r" by (simp_all add: p_def upd_dev_def)
  have x: "mod_rq_state p {} a = apply_flags p {} a" "submitting (apply_flags p {} a)"
    using submitting_add [OF p, of a] assms(2) by (auto simp: a_def s)
  have t: "tl_requests (apply_flags p {} a) \<in> {Off_list, On_transfer_log}" using x(2) by (simp add: submitting_def)
  define q where "q = queue_work cb (apply_flags p {} a)"
  define q' where "q' = (if what = QUEUE_FOR_NET_WRITE \<and> current_tle_writes (device q) \<ge> max_epoch_size (device q) then upd_dev start_new_tl_epoch_req q else q)"
  have q: "submitting q'"
    by (rule submitting_upd [OF x(2), where xs = "[Call_queue_work cb]"]) (use t in \<open>simp_all add: q'_def q_def queue_work_def upd_dev_def\<close>)
  have f: "rq_state q' = rq_state r \<union> a" "has_private_bio q' = has_private_bio r"
    by (simp_all add: q'_def q_def queue_work_def upd_dev_def s)
  have "m_bio q' = None" using q by (simp add: submitting_def)
  moreover have "req_mod_locked r what = Some (0, q')"
  proof -
    consider (w) "what = QUEUE_FOR_NET_WRITE" | (r) "what = QUEUE_FOR_NET_READ" | (oos) "what = QUEUE_FOR_SEND_OOS" using assms(3) by blast
    then show ?thesis
    proof cases
      case w
      have "q = queue_work w_send_dblock (mod_rq_state (upd_dev (\<lambda>d. d\<lparr>UNPLUG_REMOTE := True\<rparr>) (r\<lparr>in_tree := True\<rparr>)) {} {RQ_NET_QUEUED, RQ_EXP_BARR_ACK})"
        using x(1) w by (simp add: q_def p_def a_def cb_def)
      then show ?thesis using w by (simp add: r Let_def q'_def)
    next
      case r
      then show ?thesis using x(1) \<open>r\<lparr>m_bio := None\<rparr> = r\<close> by (simp add: Let_def q'_def q_def p_def a_def cb_def)
    next
      case oos
      then show ?thesis using x(1) \<open>r\<lparr>m_bio := None\<rparr> = r\<close> by (simp add: Let_def q'_def q_def p_def a_def cb_def)
    qed
  qed
  ultimately have "req_mod r what = Some q'" by (simp add: req_mod_def complete_master_bio_def del: req_mod_locked.simps)
  then show ?thesis using q f unfolding a_def by blast
qed

lemma add_submitting:
  assumes "submitting r" "what = TO_BE_SUBMITTED \<and> \<not> (RQ_EXP_BARR_ACK \<in> rq_state r \<and> RQ_NET_DONE \<in> rq_state r)
      \<or> what = QUEUE_AS_DRBD_BARRIER \<and> RQ_EXP_BARR_ACK \<notin> rq_state r"
  shows "\<exists>q. req_mod r what = Some q \<and> submitting q
    \<and> rq_state q = rq_state r \<union> (if what = TO_BE_SUBMITTED then {RQ_LOCAL_PENDING} else {RQ_NET_OK, RQ_NET_DONE})"
proof -
  define p where "p = (if what = TO_BE_SUBMITTED then r else upd_dev start_new_tl_epoch_req r)"
  define a where "a = (if what = TO_BE_SUBMITTED then {RQ_LOCAL_PENDING} else {RQ_NET_OK, RQ_NET_DONE})"
  have m: "m_bio r = None" using assms(1) by (simp add: submitting_def)
  then have r: "r\<lparr>m_bio := None\<rparr> = r" by simp
  have p: "submitting p"
    by (rule submitting_upd [OF assms(1), where xs = "[]"]) (use assms(1) in \<open>simp_all add: p_def upd_dev_def submitting_def\<close>)
  have s: "rq_state p = rq_state r" by (simp add: p_def upd_dev_def)
  have x: "mod_rq_state p {} a = apply_flags p {} a" "submitting (apply_flags p {} a)"
    using submitting_add [OF p, of a] assms(2) by (auto simp: a_def s)
  then have "m_bio (apply_flags p {} a) = None" by (simp add: submitting_def)
  then have "req_mod r what = Some (apply_flags p {} a)"
  proof (cases "what = TO_BE_SUBMITTED")
    case True
    then show ?thesis using x(1) \<open>m_bio (apply_flags p {} a) = None\<close> by (simp add: req_mod_def r Let_def complete_master_bio_def p_def a_def)
  next
    case False
    then have "what = QUEUE_AS_DRBD_BARRIER" using assms(2) by blast
    then show ?thesis using x(1) \<open>m_bio (apply_flags p {} a) = None\<close> by (simp add: req_mod_def r Let_def complete_master_bio_def p_def a_def)
  qed
  then show ?thesis using x(2) s unfolding a_def by auto
qed

lemma process_write_submitting:
  assumes "submitting r" "rq_state r \<subseteq> {RQ_WRITE, RQ_IN_ACT_LOG}"
  shows "\<exists>b q. drbd_process_write_request remote oos nonblock changed r = Some (b, q) \<and> submitting q \<and> net_wf (rq_state q)
    \<and> \<not> (RQ_EXP_BARR_ACK \<in> rq_state q \<and> RQ_NET_DONE \<in> rq_state q)"
proof -
  have n: "RQ_EXP_BARR_ACK \<notin> rq_state r" "RQ_NET_DONE \<notin> rq_state r" "RQ_NET_DONE \<notin> ack_flags p" "ack_flags p \<inter> RQ_NET_MASK = {}"
    "rq_state r \<inter> RQ_NET_MASK = {}" for p
    using assms(2) by (auto simp: ack_flags_def mask_defs)
  have id: ?thesis if "drbd_process_write_request remote oos nonblock changed r = Some (b, r)" for b
    using that assms(1) n by (auto simp: net_wf_def)
  consider (flush) "i_size r = 0" "remote"
    | (none) "i_size r = 0 \<and> \<not> remote \<or> i_size r \<noteq> 0 \<and> (\<not> remote \<and> \<not> oos \<or> wire_protocol (device r) = DRBD_PROT_S \<and> nonblock)"
    | (data) "i_size r \<noteq> 0" "\<not> (wire_protocol (device r) = DRBD_PROT_S \<and> nonblock)" "remote"
    | (oos) "i_size r \<noteq> 0" "\<not> (wire_protocol (device r) = DRBD_PROT_S \<and> nonblock)" "\<not> remote" "oos" by blast
  then show ?thesis
  proof cases
    case flush
    obtain q where "req_mod r QUEUE_AS_DRBD_BARRIER = Some q" "submitting q" "rq_state q = rq_state r \<union> {RQ_NET_OK, RQ_NET_DONE}"
      using add_submitting [OF assms(1), of QUEUE_AS_DRBD_BARRIER] n by auto
    then show ?thesis using flush n by (auto simp: drbd_process_write_request_def net_wf_def)
  next
    case none
    then show ?thesis using id [of remote] id [of False] by (auto simp: drbd_process_write_request_def)
  next
    case data
    obtain p where p: "req_mod r TO_BE_SENT = Some p" "submitting p"
      "rq_state p = insert RQ_NET_PENDING (rq_state r \<union> ack_flags (wire_protocol (device r)))"
      using to_be_sent_submitting [OF assms(1) n(1)] by blast
    then have "RQ_NET_DONE \<notin> rq_state p" using n by simp
    with queue_submitting [OF p(2), of QUEUE_FOR_NET_WRITE] obtain q where q: "req_mod p QUEUE_FOR_NET_WRITE = Some q" "submitting q"
      "rq_state q = rq_state p \<union> {RQ_NET_QUEUED, RQ_EXP_BARR_ACK}" by auto
    then show ?thesis using data p n by (auto simp: drbd_process_write_request_def net_wf_def)
  next
    case oos
    have c: "submitting (call Call_set_out_of_sync r)"
      by (rule submitting_upd [OF assms(1), where xs = "[Call_set_out_of_sync]"]) (use assms(1) in \<open>simp_all add: submitting_def\<close>)
    obtain q where "req_mod (call Call_set_out_of_sync r) QUEUE_FOR_SEND_OOS = Some q" "submitting q" "rq_state q = rq_state r \<union> {RQ_NET_QUEUED}"
      using queue_submitting [OF c, of QUEUE_FOR_SEND_OOS] n by auto
    moreover have "rq_state r \<inter> RQ_NET_MASK = {}" using n by simp
    ultimately show ?thesis using oos n c by (auto simp: drbd_process_write_request_def net_wf_def Let_def)
  qed
qed

text \<open>The request, as \<open>__drbd_make_request\<close> or the submitter thread hands it over.\<close>

definition prepared :: "req_device \<Rightarrow> drbd_request \<Rightarrow> bool" where
  "prepared d r \<longleftrightarrow> (\<exists>ldev al_suspended fastpath bio sz.
     case drbd_request_prepare ldev al_suspended fastpath d bio sz of Inl q \<Rightarrow> \<exists>susp. r = submit_queued susp q | Inr q \<Rightarrow> r = q)"

lemma prepared_fields:
  assumes "prepared d r"
  shows "rq_state r - {RQ_IN_ACT_LOG} = (if rw r = WRITE then {RQ_WRITE} else {})" "completion_ref r = 1" "kref r = 1" "master_bio r"
    "\<not> in_tree r" "tl_requests r = Off_list" "m_bio r = None" "device r = d"
  using assms by (auto simp: prepared_def drbd_request_prepare_def drbd_req_new_def submit_queued_def Let_def split: sum.splits if_splits)

lemma read_submitting:
  assumes "submitting l" "rq_state l \<inter> {RQ_WRITE, RQ_NET_DONE, RQ_EXP_BARR_ACK} = {}"
  shows "\<exists>m. (if \<not> has_private_bio l then Option.bind (req_mod l TO_BE_SENT) (\<lambda>r. req_mod r QUEUE_FOR_NET_READ) else Some l) = Some m
    \<and> submitting m \<and> net_wf (rq_state m) \<and> \<not> (RQ_EXP_BARR_ACK \<in> rq_state m \<and> RQ_NET_DONE \<in> rq_state m)"
proof (cases "has_private_bio l")
  case True
  then show ?thesis using assms by (auto simp: net_wf_def)
next
  case False
  have n: "RQ_EXP_BARR_ACK \<notin> rq_state l" using assms(2) by simp
  obtain p where p: "req_mod l TO_BE_SENT = Some p" "submitting p"
    "rq_state p = insert RQ_NET_PENDING (rq_state l \<union> ack_flags (wire_protocol (device l)))"
    using to_be_sent_submitting [OF assms(1) n] by blast
  have d: "RQ_NET_DONE \<notin> rq_state p" "RQ_WRITE \<notin> rq_state p" using p(3) assms(2) by (auto simp: ack_flags_def)
  obtain q where q: "req_mod p QUEUE_FOR_NET_READ = Some q" "submitting q" "rq_state q = rq_state p \<union> {RQ_NET_QUEUED}"
    using queue_submitting [OF p(2) d(1), of QUEUE_FOR_NET_READ] by auto
  have "net_wf (rq_state q)" "RQ_NET_DONE \<notin> rq_state q" using q(3) d by (auto simp: net_wf_def)
  then show ?thesis using q p(1) False by simp
qed

lemma finish_submitting:
  assumes "submitting m" "net_wf (rq_state m)" "\<not> (RQ_EXP_BARR_ACK \<in> rq_state m \<and> RQ_NET_DONE \<in> rq_state m)"
  shows "\<exists>q. (if has_private_bio m then req_mod m TO_BE_SUBMITTED else Some m) = Some q \<and> req_inv True q"
proof (cases "has_private_bio m")
  case True
  obtain q where "req_mod m TO_BE_SUBMITTED = Some q" "submitting q" "rq_state q = rq_state m \<union> {RQ_LOCAL_PENDING}"
    using add_submitting [OF assms(1), of TO_BE_SUBMITTED] assms(3) by auto
  moreover have "net_wf (rq_state m \<union> {RQ_LOCAL_PENDING})" using assms(2) by (simp add: net_wf_def mask_defs)
  ultimately show ?thesis using submitting_inv [of q] True by simp
next
  case False
  then show ?thesis using submitting_inv [OF assms(1,2)] by simp
qed

lemma prepared_flags:
  assumes "prepared d r"
  shows "rq_state r \<subseteq> {RQ_WRITE, RQ_IN_ACT_LOG}" "RQ_WRITE \<in> rq_state r \<longleftrightarrow> rw r = WRITE"
    "refs (rq_state r) = 0" "krefs (rq_state r) = 0" "net_wf (rq_state r)"
proof -
  note f = prepared_fields(1) [OF assms]
  show s: "rq_state r \<subseteq> {RQ_WRITE, RQ_IN_ACT_LOG}" "RQ_WRITE \<in> rq_state r \<longleftrightarrow> rw r = WRITE" using f by (auto split: if_splits)
  show "refs (rq_state r) = 0" "krefs (rq_state r) = 0" "net_wf (rq_state r)"
    using s(1) by (auto simp: refs_0 krefs_0 net_wf_def mask_defs)
qed

lemma submit_inv:
  assumes "prepared d r" "calls d = []" "ap_pending_cnt d = 0"
  shows "\<exists>q. drbd_send_and_submit e r = Some q \<and> req_inv True q"
proof (cases "suspended d")
  case True
  note f = prepared_fields [OF assms(1)] prepared_flags [OF assms(1)]
  have "net_wf (insert RQ_POSTPONED (rq_state r))" "RQ_NET_PENDING \<notin> rq_state r" using f(9,13) by (auto simp: net_wf_def mask_defs)
  then show ?thesis using True f assms(2,3)
    by (auto simp: drbd_send_and_submit_def req_inv_def req_counts_def req_end_def refs_def krefs_def endios_def)
next
  case False
  note f = prepared_fields [OF assms(1)] prepared_flags [OF assms(1)]
  have r: "submitting r" using f(2-12) False assms(2,3) by (auto simp: submitting_def endios_def)
  define p where "p = (if rw r \<noteq> WRITE then do_remote_read e r else (False, r))"
  have ps: "submitting (snd p)" "rq_state (snd p) = rq_state r" "rw (snd p) = rw r"
    using r by (auto simp: p_def do_remote_read_def Let_def submitting_def endios_def)
  show ?thesis
  proof (cases "rw r \<noteq> WRITE \<and> \<not> fst p \<and> \<not> has_private_bio (snd p)")
    case True
    then have "drbd_send_and_submit e r = Some (snd p)"
      using False f(8) ps(3) unfolding drbd_send_and_submit_def p_def [symmetric] by (simp add: split_beta)
    then show ?thesis using submitting_inv [OF ps(1)] ps(2) f(13) by simp
  next
    case nt: False
    define l where "l = add_to_transfer_log (snd p)"
    have l: "submitting l" "rq_state l = rq_state r" "rw l = rw r"
      using ps by (auto simp: l_def add_to_transfer_log_def Let_def submitting_def endios_def upd_dev_def)
    have nt': "\<not> (rw (snd p) \<noteq> WRITE \<and> \<not> fst p \<and> \<not> has_private_bio (snd p))" using nt ps(3) by simp
    have eq: "drbd_send_and_submit e r = Option.bind (if rw l = WRITE
        then map_option snd (drbd_process_write_request (should_do_remote e) (should_send_oos e) (noblock e) (oos_changed e) l)
        else if \<not> has_private_bio l then Option.bind (req_mod l TO_BE_SENT) (\<lambda>r. req_mod r QUEUE_FOR_NET_READ) else Some l)
        (\<lambda>r. if has_private_bio r then req_mod r TO_BE_SUBMITTED else Some r)"
      using False f(8) unfolding drbd_send_and_submit_def p_def [symmetric] l_def
      by (simp add: split_beta if_not_P [OF nt'] Let_def split del: if_split)
    show ?thesis
    proof (cases "rw r = WRITE")
      case True
      obtain b m where "drbd_process_write_request (should_do_remote e) (should_send_oos e) (noblock e) (oos_changed e) l = Some (b, m)"
        "submitting m" "net_wf (rq_state m)" "\<not> (RQ_EXP_BARR_ACK \<in> rq_state m \<and> RQ_NET_DONE \<in> rq_state m)"
        using process_write_submitting [OF l(1)] f(9) unfolding l(2) by blast
      then show ?thesis using finish_submitting True l(3) unfolding eq by simp
    next
      case rd: False
      then have "rq_state l \<inter> {RQ_WRITE, RQ_NET_DONE, RQ_EXP_BARR_ACK} = {}" using f(9,10) l(2) by auto
      from read_submitting [OF l(1) this] show ?thesis using finish_submitting rd l(3) unfolding eq by fastforce
    qed
  qed
qed

section \<open>The answer to the application\<close>

text \<open>Only the completion of the master bio itself adds such a call.\<close>

lemma endios_upd [simp]:
  "endios (r\<lparr>rq_state := a\<rparr>) = endios r" "endios (r\<lparr>completion_ref := b\<rparr>) = endios r" "endios (r\<lparr>kref := b\<rparr>) = endios r"
  "endios (r\<lparr>master_bio := c\<rparr>) = endios r" "endios (r\<lparr>in_tree := c\<rparr>) = endios r" "endios (r\<lparr>tl_requests := t\<rparr>) = endios r"
  "endios (r\<lparr>w_cb := w\<rparr>) = endios r" "endios (r\<lparr>m_bio := m\<rparr>) = endios r" "endios (r\<lparr>has_private_bio := c\<rparr>) = endios r"
  "endios (r\<lparr>private_bio := b\<rparr>) = endios r"
  by (simp_all add: endios_def)

lemma endios_call: "endios (call x r) = endios r + of_bool (\<exists>e. x = Call_bio_endio e)"
  by (cases x) (simp_all add: endios_def)

lemma endios_upd_dev: "calls (f (device r)) = calls (device r) \<Longrightarrow> endios (upd_dev f r) = endios r"
  by (simp add: endios_def upd_dev_def)

lemma endios_kref_sub [simp]: "endios (kref_sub r n) = endios r"
  by (simp add: kref_sub_def drbd_req_destroy_def call_if_def Let_def endios_call)

lemma endios_put_completion: "endios (snd (drbd_req_put_completion_ref r c)) = endios r"
  by (simp add: drbd_req_put_completion_ref_def drbd_req_complete_def drbd_restart_request_def Let_def endios_call endios_upd_dev)

lemma endios_put_refs [simp]: "endios (put_refs r c k) = endios r"
proof -
  define q where "q = (if (k \<noteq> 0 \<or> c \<noteq> 0) \<and> kref r < k + of_bool (c \<noteq> 0) then call Logic_BUG r else r)"
  obtain j p where p: "(if c \<noteq> 0 then drbd_req_put_completion_ref q c else (0, q)) = (j, p)" by fastforce
  then have "endios p = endios q" using endios_put_completion [of q c] by (auto split: if_splits)
  moreover have "put_refs r c k = (if k + j \<noteq> 0 then kref_sub p (k + j) else p)"
    unfolding put_refs_def Let_def q_def [symmetric] p by simp
  moreover have "endios q = endios r" by (simp add: q_def endios_call)
  ultimately show ?thesis by simp
qed

lemma endios_mod [simp]: "endios (mod_rq_state r clear add) = endios r"
proof -
  have "endios (apply_flags r c a) = endios r" for c a by (simp add: endios_def)
  then show ?thesis by (simp add: mod_rq_state_eq)
qed

lemma endios_locked:
  assumes "req_mod_locked r what = Some (rv, q)"
  shows "endios q = endios r"
  using assms
  by (cases what) (auto simp: Let_def endios_call endios_upd_dev queue_work_def barrier_acked_def split: if_splits option.splits)

section \<open>The life of a request\<close>

text \<open>
  The states a request can get into. The flag tells whether \<open>drbd_send_and_submit\<close> still holds its reference; the disk may answer
  before that is dropped. Everything outside of the request may change at any time.
\<close>

definition environment :: "req_device \<Rightarrow> req_device \<Rightarrow> bool" where
  "environment d d' \<longleftrightarrow> calls d' = calls d \<and> ap_pending_cnt d' = ap_pending_cnt d \<and> ap_in_flight d' = ap_in_flight d"

inductive reachable :: "bool \<Rightarrow> drbd_request \<Rightarrow> bool" where
  submitted: "prepared d r0 \<Longrightarrow> calls d = [] \<Longrightarrow> ap_pending_cnt d = 0 \<Longrightarrow> ap_in_flight d = 0 \<Longrightarrow>
    drbd_send_and_submit e r0 = Some r \<Longrightarrow> reachable True r"
| submit_end: "reachable True r \<Longrightarrow> reachable False (submit_done r)"
| event: "reachable held r \<Longrightarrow> expected r what \<Longrightarrow> req_mod r what = Some r' \<Longrightarrow> reachable held r'"
| endio: "reachable held r \<Longrightarrow> expected r (endio_event r discard (endio_error uptodate error)) \<Longrightarrow>
    drbd_request_endio r nonblock discard uptodate error = Some r' \<Longrightarrow> reachable held r'"
| retried: "reachable False r \<Longrightarrow> tl_requests r = On_retry \<Longrightarrow> reachable False (do_retry r)"
| elsewhere: "reachable held r \<Longrightarrow> kref r \<noteq> 0 \<Longrightarrow> environment (device r) d \<Longrightarrow> reachable held (r\<lparr>device := d\<rparr>)"

lemma inv_inner: "req_inv held r \<Longrightarrow> req_inner held (r\<lparr>m_bio := None\<rparr>)"
proof -
  assume "req_inv held r"
  then have "req_inv held (r\<lparr>m_bio := None\<rparr>)" by (rule inv_upd [where xs = "[]"]) simp_all
  then show ?thesis by (simp add: req_inv_def req_inner_def result_ok_def)
qed

lemma complete_inv:
  assumes "req_inner held r"
  shows "req_inv held (complete_master_bio r)"
proof (cases "m_bio r")
  case None
  then show ?thesis using assms by (simp add: complete_master_bio_def req_inv_def req_inner_def)
next
  case (Some e)
  have "req_counts held (call x r) = req_counts held r" for x by (simp add: call_alt)
  then show ?thesis using assms Some endios_call [of "Call_bio_endio e" r]
    by (auto simp: complete_master_bio_def req_inv_def req_inner_def req_end_def)
qed

text \<open>What the completion of the master bio tells the upper layers.\<close>

definition completion_result :: "drbd_request \<Rightarrow> bool" where
  "completion_result r \<longleftrightarrow> refs (rq_state r) = 0 \<and>
     (\<exists>e. last (calls (device r)) = Call_bio_endio e \<and> (e = 0 \<longleftrightarrow> RQ_LOCAL_OK \<in> rq_state r \<or> RQ_NET_OK \<in> rq_state r))"

lemma complete_result:
  assumes "req_inner held r" "endios (complete_master_bio r) = 1" "endios r = 0"
  shows "completion_result (complete_master_bio r)"
proof (cases "m_bio r")
  case None
  then show ?thesis using assms by (simp add: complete_master_bio_def)
next
  case (Some e)
  have "completion_ref r = 0" "e = 0 \<longleftrightarrow> RQ_LOCAL_OK \<in> rq_state r \<or> RQ_NET_OK \<in> rq_state r"
    using assms(1) Some by (auto simp: req_inner_def result_ok_def)
  moreover have "refs (rq_state r) = 0"
    using assms(1) \<open>completion_ref r = 0\<close> refs_nonneg(1) [of "rq_state r"] by (auto simp: req_inner_def req_counts_def of_bool_def split: if_splits)
  ultimately show ?thesis using Some by (simp add: complete_master_bio_def completion_result_def)
qed

lemma expected_cong:
  assumes "rq_state q = rq_state r" "completion_ref q = completion_ref r" "kref q = kref r" "in_tree q = in_tree r"
    "tl_requests q = tl_requests r" "w_cb q = w_cb r" "suspended (device q) = suspended (device r)"
  shows "expected q what = expected r what"
  unfolding expected_def assms ..

lemma req_mod_inner:
  assumes "req_inv held r" "expected r what"
  shows "\<exists>q. req_mod r what = Some (complete_master_bio q) \<and> req_inner held q \<and> endios q = endios r"
proof -
  let ?p = "r\<lparr>m_bio := None\<rparr>"
  obtain rv q where q: "req_mod_locked ?p what = Some (rv, q)" "req_inner held q"
    using event_inner [OF inv_inner [OF assms(1)], of what] assms(2) expected_cong [of ?p r]
    by (auto simp del: req_mod_locked.simps)
  have "?p\<lparr>m_bio := None\<rparr> = ?p" by simp
  then have "req_mod_locked ?p what = req_mod_locked r what" by (simp only: req_mod_locked.simps [of ?p] req_mod_locked.simps [of r])
  then have "req_mod_locked r what = Some (rv, q)" using q(1) by (simp del: req_mod_locked.simps)
  then show ?thesis using q(2) endios_locked unfolding req_mod_def by (auto simp del: req_mod_locked.simps)
qed

lemma endio_inner:
  assumes "req_inv held r" "expected r (endio_event r discard (endio_error uptodate reported))"
  shows "\<exists>q. drbd_request_endio r nonblock discard uptodate reported = Some (complete_master_bio q) \<and> req_inner held q \<and> endios q = endios r"
proof -
  define error where "error = endio_error uptodate reported"
  define w where "w = endio_event r discard error"
  define p where "p = (if error = 0 \<and> rw r = WRITE \<and> wire_protocol (device r) = DRBD_PROT_S \<and> nonblock
      then call Call_set_out_of_sync (call Call_noblock_complete_io r) else r)
    \<lparr>has_private_bio := False, private_bio := error\<rparr>"
  have na: "\<not> (RQ_LOCAL_ABORTED \<in> rq_state r \<and> error = 0)"
    using assms(2) unfolding error_def [symmetric] by (auto simp: endio_event_def expected_def Let_def)
  have "\<exists>xs. xs \<in> {[], [Call_noblock_complete_io, Call_set_out_of_sync]} \<and> calls (device p) = calls (device r) @ xs" by (simp add: p_def)
  then obtain xs where xs: "xs \<in> {[], [Call_noblock_complete_io, Call_set_out_of_sync]}" "calls (device p) = calls (device r) @ xs" by blast
  have i: "req_inv held p" by (rule inv_upd [OF assms(1), where xs = xs]) (use xs in \<open>auto simp: p_def\<close>)
  have w: "expected p w = expected r w" by (rule expected_cong) (simp_all add: p_def)
  have "endio_event (call x s) discard y = endio_event s discard y" for x y s by (simp add: endio_event_def)
  then have "drbd_request_endio r nonblock discard uptodate reported = req_mod p w"
    unfolding drbd_request_endio_def Let_def error_def [symmetric] if_not_P [OF na] p_def w_def by simp
  moreover have "endios p = endios r" by (simp add: p_def endios_call)
  ultimately show ?thesis using req_mod_inner [OF i, of w] w assms(2) unfolding w_def error_def by simp
qed

lemma submit_done_inner:
  assumes "req_inv True r"
  shows "\<exists>q. submit_done r = complete_master_bio q \<and> req_inner False q \<and> endios q = endios r"
proof -
  let ?p = "r\<lparr>m_bio := None\<rparr>"
  have i: "req_inner True ?p" by (rule inv_inner [OF assms])
  have c: "completion_ref ?p = refs (rq_state r) + 1" "completion_ref ?p \<noteq> 0" "kref ?p = krefs (rq_state r) + 1"
    using i refs_nonneg(1) [of "rq_state r"] by (auto simp: req_inner_def req_counts_def)
  have k: "0 < kref ?p" using c(3) refs_nonneg(2) [of "rq_state r"] by simp
  have "before_put False ?p 1 0" unfolding before_put_def
    using i c k by (auto simp: req_inner_def req_counts_def req_end_def)
  from put_refs_inner [OF this] have "req_inner False (put_refs ?p 1 0)" .
  moreover have "submit_done r = complete_master_bio (put_refs ?p 1 0)"
  proof -
    obtain j q where jq: "drbd_req_put_completion_ref ?p 1 = (j, q)" by fastforce
    then have "j = 0 \<or> j = 1" by (auto simp: drbd_req_put_completion_ref_def Let_def split: if_splits)
    then show ?thesis using jq k unfolding submit_done_def put_refs_def by auto
  qed
  moreover have "endios (put_refs ?p 1 0) = endios r" by simp
  ultimately show ?thesis by blast
qed

lemma do_retry_inv:
  assumes "req_inv False r" "tl_requests r = On_retry"
  shows "req_inv False (do_retry r)"
proof -
  let ?p = "r\<lparr>tl_requests := On_worker, m_bio := None\<rparr>"
  have c: "req_counts False r" "req_end r" "endios r = of_bool (\<not> master_bio r)" using assms(1) by (auto simp: req_inv_def)
  have k: "kref r = krefs (rq_state r) + 1" "completion_ref r = 0" "RQ_POSTPONED \<in> rq_state r" using c(1) assms(2) by (auto simp: req_counts_def)
  have k0: "0 \<le> krefs (rq_state r)" by (rule refs_nonneg)
  have "req_counts False (?p\<lparr>kref := kref ?p - 1\<rparr>)" using c(1) k by (auto simp: req_counts_def)
  moreover have "0 \<le> kref ?p - 1" "Call_free \<notin> set (calls (device ?p))" "Logic_BUG \<notin> set (calls (device ?p))"
    using k(1) k0 c(2) by (auto simp: req_end_def)
  moreover have "endios ?p + of_bool (m_bio ?p \<noteq> None) = of_bool (\<not> master_bio ?p)" "result_ok ?p"
    using c(3) by (simp_all add: endios_def result_ok_def)
  ultimately have "req_inner False (if (1::int) \<noteq> 0 then kref_sub ?p 1 else ?p)" by (intro kref_sub_inner) simp_all
  then have i: "req_inner False (do_retry r)" by (simp add: do_retry_def)
  have "m_bio (do_retry r) = None" by (simp add: do_retry_def kref_sub_def drbd_req_destroy_def call_if_def Let_def)
  then show ?thesis using i by (simp add: req_inv_def req_inner_def)
qed

lemma reachable_inv: "reachable held r \<Longrightarrow> req_inv held r"
proof (induction rule: reachable.induct)
  case (submitted d r0 e r)
  then show ?case using submit_inv [of d r0 e] by auto
next
  case (submit_end r)
  then show ?case using submit_done_inner complete_inv by metis
next
  case (event held r what r')
  then show ?case using req_mod_inner [of held r what] complete_inv by auto
next
  case (endio held r discard uptodate error nonblock r')
  then show ?case using endio_inner [of held r discard uptodate error nonblock] complete_inv by auto
next
  case (retried r)
  then show ?case using do_retry_inv by blast
next
  case (elsewhere held r d)
  have "ap_pending_cnt d = ap_pending_cnt (device r)" using elsewhere(3) by (simp add: environment_def)
  then have "req_counts held (r\<lparr>device := d\<rparr>) = req_counts held r" by (simp add: req_counts_def)
  then have "req_counts held (r\<lparr>device := d\<rparr>)" using elsewhere(4) by (simp add: req_inv_def)
  moreover have "req_end (r\<lparr>device := d\<rparr>)" using elsewhere(2,3,4) by (simp add: req_inv_def req_end_def environment_def)
  moreover have "endios (r\<lparr>device := d\<rparr>) = endios r" using elsewhere(3) by (simp add: endios_def environment_def)
  ultimately show ?case using elsewhere(4) by (simp add: req_inv_def)
qed

section \<open>Properties\<close>

definition ex_req_device :: req_device where
  "ex_req_device = \<lparr>suspended = False, ldev_failed_ok = True, wire_protocol = DRBD_PROT_C, max_epoch_size = 2048, current_tle_nr = 4,
     current_tle_writes = 0, ap_pending_cnt = 0, ap_in_flight = 0, writ_cnt = 0, read_cnt = 0, UNPLUG_REMOTE = False, calls = []\<rparr>"

definition ex_env :: submit_env where
  "ex_env = \<lparr>may_do_local_read = True, pdsk_up_to_date = True, prefer_local = False, balance_remote = False,
     should_do_remote = True, should_send_oos = False, noblock = False, oos_changed = False\<rparr>"

text \<open>A request of 4 KiB, submitted with or without a local disk, and the expected events \<open>ws\<close>.\<close>

fun run :: "drbd_req_event list \<Rightarrow> drbd_request \<Rightarrow> drbd_request option" where
  "run [] r = Some r"
| "run (w # ws) r = (if expected r w then Option.bind (req_mod r w) (run ws) else None)"

definition ex_life :: "bio_rw \<Rightarrow> bool \<Rightarrow> drbd_req_event list \<Rightarrow> drbd_request option" where
  "ex_life bio ldev ws =
    Option.bind (drbd_send_and_submit ex_env (projr (drbd_request_prepare ldev False True ex_req_device bio 4096))) (\<lambda>r. run ws (submit_done r))"

lemma run_reachable: "reachable held r \<Longrightarrow> run ws r = Some q \<Longrightarrow> reachable held q"
proof (induction ws arbitrary: r)
  case (Cons w ws)
  then show ?case by (cases "req_mod r w") (auto split: if_splits intro: reachable.event)
qed simp

lemma ex_life_reachable:
  assumes "case ex_life bio ldev ws of None \<Rightarrow> False | Some r \<Rightarrow> P r"
  shows "\<exists>r. reachable False r \<and> P r"
proof -
  obtain p where p: "drbd_request_prepare ldev False True ex_req_device bio 4096 = Inr p"
    unfolding drbd_request_prepare_def Let_def by (cases "bio = WRITE \<and> ldev") (auto simp: drbd_req_new_def)
  obtain q r where q: "drbd_send_and_submit ex_env p = Some q" "run ws (submit_done q) = Some r" "P r"
    using assms by (auto simp: ex_life_def p bind_eq_Some_conv split: option.splits)
  have "prepared ex_req_device p" unfolding prepared_def
    by (rule exI [of _ ldev], rule exI [of _ False], rule exI [of _ True], rule exI [of _ bio], rule exI [of _ 4096]) (simp add: p)
  then have "reachable True q" using q(1)
    by (intro reachable.submitted [where d = ex_req_device and ?r0.0 = p and e = ex_env]) (simp_all add: ex_req_device_def)
  then have "reachable False r" using run_reachable [OF _ q(2)] reachable.submit_end by blast
  then show ?thesis using q(3) by blast
qed

lemma inv_alive: "req_inv held r \<Longrightarrow> kref r \<noteq> 0 \<Longrightarrow> Call_free \<notin> set (calls (device r)) \<and> Logic_BUG \<notin> set (calls (device r))"
  by (simp add: req_inv_def req_end_def)

lemma inv_freed:
  assumes "req_inv held r" "Call_free \<in> set (calls (device r))"
  shows "kref r = 0" "tl_requests r = Off_list" "Logic_BUG \<notin> set (calls (device r))"
    "set (destroy_calls (rq_state r) (ldev_failed_ok (device r))) \<subseteq> set (calls (device r))"
proof -
  have "req_end r" using assms(1) by (simp add: req_inv_def)
  then show "kref r = 0" "tl_requests r = Off_list" "Logic_BUG \<notin> set (calls (device r))"
    "set (destroy_calls (rq_state r) (ldev_failed_ok (device r))) \<subseteq> set (calls (device r))"
    using assms(2) unfolding req_end_def by (simp_all split: if_splits)
qed

lemma inv_dead:
  assumes "req_inv held r" "kref r = 0"
  shows "\<not> held" "refs (rq_state r) = 0" "krefs (rq_state r) = 0" "\<not> in_tree r" "tl_requests r \<noteq> On_retry"
  using assms refs_nonneg [of "rq_state r"]
  by (auto simp: req_inv_def req_counts_def of_bool_def split: if_splits)





text \<open>
  C10: A write that did not reach both disks is remembered. When a write has been freed after it was submitted to the disk or the network
  and not both have reported success, its blocks have been marked out of sync; and if it held an extent of the activity log and the
  disk is still there, that has been released.
\<close>

theorem freed_write_remembered:
  assumes "reachable held r" "Call_free \<in> set (calls (device r))" "rw r = WRITE"
  shows "(rq_state r \<inter> (RQ_LOCAL_MASK \<union> RQ_NET_MASK) \<noteq> {} \<and> \<not> (RQ_LOCAL_OK \<in> rq_state r \<and> RQ_NET_OK \<in> rq_state r) \<longrightarrow>
      Call_set_out_of_sync \<in> set (calls (device r)))
    \<and> (RQ_IN_ACT_LOG \<in> rq_state r \<and> ldev_failed_ok (device r) \<longrightarrow> Call_al_complete_io \<in> set (calls (device r)))"
proof -
  note i = reachable_inv [OF assms(1)]
  have s: "set (destroy_calls (rq_state r) (ldev_failed_ok (device r))) \<subseteq> set (calls (device r))" "RQ_WRITE \<in> rq_state r"
    using inv_freed(4) [OF i assms(2)] i assms(3) by (simp_all add: req_inv_def req_counts_def)
  have t: "rq_state r \<inter> ({RQ_POSTPONED} \<union> RQ_LOCAL_MASK \<union> RQ_NET_MASK) \<noteq> {RQ_POSTPONED}"
    if "rq_state r \<inter> (RQ_LOCAL_MASK \<union> RQ_NET_MASK) \<noteq> {}"
    using that by (auto simp: mask_defs)
  show ?thesis using s t unfolding destroy_calls_def Let_def by (auto split: if_splits)
qed

theorem freed_write_remembered_witness:
  "\<exists>r. reachable False r \<and> Call_free \<in> set (calls (device r)) \<and> Call_set_out_of_sync \<in> set (calls (device r))
     \<and> Call_al_complete_io \<in> set (calls (device r))"
proof -
  let ?l = "ex_life WRITE True [SEND_CANCELED, CONNECTION_LOST_WHILE_PENDING, COMPLETED_OK]"
  have "case ?l of None \<Rightarrow> False | Some r \<Rightarrow> Call_free \<in> set (calls (device r)) \<and> rw r = WRITE" by code_simp
  moreover have "case ?l of None \<Rightarrow> False | Some r \<Rightarrow> RQ_LOCAL_OK \<in> rq_state r \<and> RQ_NET_OK \<notin> rq_state r" by code_simp
  moreover have "case ?l of None \<Rightarrow> False | Some r \<Rightarrow> RQ_IN_ACT_LOG \<in> rq_state r \<and> ldev_failed_ok (device r)" by code_simp
  ultimately have "case ?l of None \<Rightarrow> False | Some r \<Rightarrow> Call_free \<in> set (calls (device r)) \<and> rw r = WRITE \<and> RQ_LOCAL_OK \<in> rq_state r
      \<and> RQ_NET_OK \<notin> rq_state r \<and> RQ_IN_ACT_LOG \<in> rq_state r \<and> ldev_failed_ok (device r)" by (auto split: option.splits)
  from ex_life_reachable [OF this] obtain r where r: "reachable False r" "Call_free \<in> set (calls (device r))" "rw r = WRITE"
    "RQ_LOCAL_OK \<in> rq_state r" "RQ_NET_OK \<notin> rq_state r" "RQ_IN_ACT_LOG \<in> rq_state r" "ldev_failed_ok (device r)"
    by (elim exE conjE) (rule that; assumption)
  then have "rq_state r \<inter> (RQ_LOCAL_MASK \<union> RQ_NET_MASK) \<noteq> {}" by (auto simp: mask_defs)
  then show ?thesis using freed_write_remembered [OF r(1-3)] r by blast
qed

text \<open>
  C2: The application gets exactly one answer, the right one. Whatever completes the request - an event, the answer of the disk, or the
  end of its submission - the master bio is completed at most once, together with its removal from the request; at that time nothing is
  pending any more, and the answer is success if and only if the local disk or the peer reported success.
\<close>

theorem master_bio_completed_once:
  assumes "reachable held r"
    "expected r what \<and> req_mod r what = Some q
     \<or> expected r (endio_event r discard (endio_error uptodate error)) \<and> drbd_request_endio r nonblock discard uptodate error = Some q
     \<or> held \<and> q = submit_done r"
  shows "endios q = of_bool (\<not> master_bio q) \<and> (endios r = 0 \<and> endios q \<noteq> 0 \<longrightarrow>
    \<not> (RQ_LOCAL_PENDING \<in> rq_state q \<and> RQ_LOCAL_ABORTED \<notin> rq_state q) \<and> RQ_NET_PENDING \<notin> rq_state q \<and> RQ_NET_QUEUED \<notin> rq_state q \<and>
    (\<exists>e. last (calls (device q)) = Call_bio_endio e \<and> (e = 0 \<longleftrightarrow> RQ_LOCAL_OK \<in> rq_state q \<or> RQ_NET_OK \<in> rq_state q)))"
proof -
  note i = reachable_inv [OF assms(1)]
  obtain held' p where p: "q = complete_master_bio p" "req_inner held' p" and n: "endios p = endios r"
    using assms(2) req_mod_inner [OF i, of what] endio_inner [OF i, of discard uptodate error nonblock] submit_done_inner i by fastforce
  have "req_inv held' q" unfolding p(1) by (rule complete_inv [OF p(2)])
  then have e: "endios q = of_bool (\<not> master_bio q)" by (simp add: req_inv_def)
  have "completion_result q" if "endios r = 0" "endios q \<noteq> 0"
    using complete_result [OF p(2)] that e n unfolding p(1) by (simp add: of_bool_def split: if_splits)
  then show ?thesis using e unfolding completion_result_def refs_0 by blast
qed

theorem master_bio_completed_once_witness:
  "\<exists>r q. reachable False r \<and> req_mod r WRITE_ACKED_BY_PEER = Some q \<and> endios r = 0 \<and> endios q = 1 \<and> master_bio r \<and> \<not> master_bio q
     \<and> (\<exists>e. last (calls (device q)) = Call_bio_endio e)"
proof -
  let ?P = "\<lambda>r. expected r WRITE_ACKED_BY_PEER \<and> endios r = 0 \<and> master_bio r
    \<and> (case req_mod r WRITE_ACKED_BY_PEER of None \<Rightarrow> False | Some q \<Rightarrow> \<not> master_bio q)"
  have "case ex_life WRITE True [HANDED_OVER_TO_NETWORK, COMPLETED_OK] of None \<Rightarrow> False | Some r \<Rightarrow> ?P r" by code_simp
  from ex_life_reachable [where P = ?P, OF this] obtain r q where r: "reachable False r" "expected r WRITE_ACKED_BY_PEER" "endios r = 0"
    "master_bio r" "req_mod r WRITE_ACKED_BY_PEER = Some q" "\<not> master_bio q" by (auto split: option.splits)
  show ?thesis using master_bio_completed_once [OF r(1), of WRITE_ACKED_BY_PEER q] r by (intro exI [of _ r] exI [of _ q]) auto
qed




text \<open>
  C40: A late answer of the disk to a completed request revives it while I/O is suspended. The disk was given up, the request completed without it;
  when the disk reports the error after all, \<open>mod_rq_state\<close> adds \<open>RQ_COMPLETION_SUSP\<close> with a new completion reference in the same step that
  drops the last reference of the object, so \<open>drbd_req_destroy\<close> reports a logic bug and the request stays on the transfer log.
\<close>

theorem late_completion_revives:
  "\<exists>r q. reachable False r \<and> completion_ref r = 0 \<and> \<not> master_bio r \<and> RQ_LOCAL_PENDING \<in> rq_state r \<and> suspended (device r)
     \<and> req_mod r WRITE_COMPLETED_WITH_ERROR = Some q \<and> kref q = 0 \<and> completion_ref q = 1 \<and> tl_requests q = On_transfer_log
     \<and> Logic_BUG \<in> set (calls (device q)) \<and> Call_free \<notin> set (calls (device q))"
proof -
  let ?l = "ex_life WRITE True [HANDED_OVER_TO_NETWORK, ABORT_DISK_IO, WRITE_ACKED_BY_PEER, BARRIER_ACKED]"
  let ?s = "\<lambda>r. r\<lparr>device := (device r)\<lparr>suspended := True\<rparr>\<rparr>"
  let ?Q = "\<lambda>q. kref q = 0 \<and> completion_ref q = 1 \<and> tl_requests q = On_transfer_log \<and> Logic_BUG \<in> set (calls (device q)) \<and> Call_free \<notin> set (calls (device q))"
  let ?P = "\<lambda>r. completion_ref r = 0 \<and> \<not> master_bio r \<and> RQ_LOCAL_PENDING \<in> rq_state r \<and> kref r \<noteq> 0"
  let ?R = "\<lambda>r. case req_mod (?s r) WRITE_COMPLETED_WITH_ERROR of None \<Rightarrow> False | Some q \<Rightarrow> ?Q q"
  have "case ?l of None \<Rightarrow> False | Some r \<Rightarrow> ?P r" by code_simp
  moreover have "case ?l of None \<Rightarrow> False | Some r \<Rightarrow> ?R r" by code_simp
  ultimately have "case ?l of None \<Rightarrow> False | Some r \<Rightarrow> ?P r \<and> ?R r" by (auto split: option.splits)
  from ex_life_reachable [where P = "\<lambda>r. ?P r \<and> ?R r", OF this] obtain r q where r: "reachable False r" "?P r"
    "req_mod (?s r) WRITE_COMPLETED_WITH_ERROR = Some q" "?Q q" by (auto split: option.splits)
  have "reachable False (?s r)" using r(1,2) by (intro reachable.elsewhere) (simp_all add: environment_def)
  then show ?thesis using r by (intro exI [of _ "?s r"] exI [of _ q]) simp
qed

end
