(* ===== verification/Act_Log.thy ===== *)
theory Act_Log
  imports Lru_Cache
begin

text \<open>
  The activity log, \<open>drbd_actlog.c\<close>: the extents of 4 MiB that writes are in flight to, tracked by an \<open>lru_cache\<close> whose changes
  are written to the meta data before the writes are submitted. The cache is used through an interface that says what its operations do
  to the reference counts of the extents; the activity log is proved correct over that interface, and the cache implements it.
\<close>

section \<open>Data\<close>

definition AL_EXTENT_SHIFT :: nat where "AL_EXTENT_SHIFT = 22"
definition AL_EXT_PER_BM_SECT :: u32 where "AL_EXT_PER_BM_SECT = 4"
definition BME_NO_WRITES :: nat where "BME_NO_WRITES = 0"
definition BME_PRIORITY :: nat where "BME_PRIORITY = 2"
definition EBUSY :: int where "EBUSY = 16"
definition EWOULDBLOCK :: int where "EWOULDBLOCK = 11"

text \<open>
  \<open>bme_flags\<close> are the flags of the \<open>bm_extent\<close>s that embed the elements of the \<open>resync\<close> cache; \<open>al_writes\<close> counts the transactions
  written to the meta data.
\<close>

record al_device =
  act_log :: lru_cache
  resync :: lru_cache
  bme_flags :: "u64 list"
  al_updates :: bool
  al_writes :: nat

definition al_first :: "u64 \<Rightarrow> u32" where
  "al_first sector = ucast (drop_bit (AL_EXTENT_SHIFT - 9) sector)"

definition al_last :: "u64 \<Rightarrow> u32 \<Rightarrow> u32" where
  "al_last sector sz =
    (if sz = 0 then al_first sector else ucast (drop_bit (AL_EXTENT_SHIFT - 9) (sector + ucast (drop_bit 9 sz) - 1)))"

text \<open>The numbers that \<open>for (enr = first; enr <= last; enr++)\<close> runs through; it does not end if \<open>last\<close> is the largest number.\<close>

definition al_extents :: "u32 \<Rightarrow> u32 \<Rightarrow> u32 list option" where
  "al_extents first end = (if end = -1 then None else Some (map of_nat [unat first..<Suc (unat end)]))"

section \<open>Operations\<close>

definition find_active_resync_extent :: "al_device \<Rightarrow> u32 \<Rightarrow> nat option option" where
  "find_active_resync_extent d enr = do {
     tmp \<leftarrow> lc_find (resync d) (enr div AL_EXT_PER_BM_SECT);
     Some (case tmp of None \<Rightarrow> None | Some e \<Rightarrow> if bit (bme_flags d ! e) BME_NO_WRITES then Some e else None)
   }"

definition set_priority :: "nat \<Rightarrow> al_device \<Rightarrow> al_device" where
  "set_priority e d = d\<lparr>bme_flags := (bme_flags d)[e := set_bit BME_PRIORITY (bme_flags d ! e)]\<rparr>"

text \<open>The second component is false while the caller has to wait for another transaction.\<close>

definition drbd_al_begin_io_commit :: "al_device \<Rightarrow> (al_device \<times> bool) option" where
  "drbd_al_begin_io_commit d =
    (if lc_pending_changes (act_log d) = 0 then Some (d, True)
     else
       let (lc, locked) = lc_try_lock_for_transaction (act_log d) in
       if \<not> locked then Some (d\<lparr>act_log := lc\<rparr>, False)
       else do {
         let d = d\<lparr>act_log := lc, al_writes := al_writes d + (if al_updates d then 1 else 0)\<rparr>;
         lc \<leftarrow> lc_committed (act_log d);
         Some (d\<lparr>act_log := lc_unlock lc\<rparr>, True)
       })"

text \<open>The first extent of a request that a resync is active on, and what the caller is told.\<close>

fun resync_check :: "u32 list \<Rightarrow> al_device \<Rightarrow> (int \<times> al_device) option" where
  "resync_check [] d = Some (0, d)"
| "resync_check (enr # xs) d = do {
     bm_ext \<leftarrow> find_active_resync_extent d enr;
     case bm_ext of
       None \<Rightarrow> resync_check xs d
     | Some e \<Rightarrow> Some (if bit (bme_flags d ! e) BME_PRIORITY then - EWOULDBLOCK else - EBUSY, set_priority e d)
   }"

text \<open>The list collects the extents for which a \<open>LOGIC BUG\<close> is reported.\<close>

fun checkout_loop :: "('s \<Rightarrow> u32 \<Rightarrow> ('s \<times> nat option) option) \<Rightarrow> u32 list \<Rightarrow> 's \<Rightarrow> ('s \<times> u32 list) option" where
  "checkout_loop get [] s = Some (s, [])"
| "checkout_loop get (enr # xs) s = do {
     (s, al_ext) \<leftarrow> get s enr;
     (s, bugs) \<leftarrow> checkout_loop get xs s;
     Some (s, if al_ext = None then enr # bugs else bugs)
   }"

definition drbd_al_begin_io_nonblock :: "al_device \<Rightarrow> u64 \<Rightarrow> u32 \<Rightarrow> (int \<times> u32 list \<times> al_device) option" where
  "drbd_al_begin_io_nonblock d sector sz =
    (let al = act_log d; first = al_first sector; end = al_last sector sz;
         nr_al_extents = 1 + end - first;
         available_update_slots = min (lc_nr_elements al - lc_used al) (lc_max_pending_changes al - lc_pending_changes al) in
     if available_update_slots < nr_al_extents then Some (- EWOULDBLOCK, [], d)
     else do {
       xs \<leftarrow> al_extents first end;
       (err, d) \<leftarrow> resync_check xs d;
       if err \<noteq> 0 then Some (err, [], d)
       else do {
         (lc, bugs) \<leftarrow> checkout_loop lc_get_cumulative xs (act_log d);
         Some (0, bugs, d\<lparr>act_log := lc\<rparr>)
       }
     })"

text \<open>The list collects the extents that were not active.\<close>

fun complete_loop :: "('s \<Rightarrow> u32 \<Rightarrow> nat option option) \<Rightarrow> ('s \<Rightarrow> nat \<Rightarrow> ('s \<times> u32) option) \<Rightarrow> u32 list \<Rightarrow> 's \<Rightarrow> ('s \<times> u32 list) option" where
  "complete_loop lookup put [] s = Some (s, [])"
| "complete_loop lookup put (enr # xs) s = do {
     extent \<leftarrow> lookup s enr;
     case extent of
       None \<Rightarrow> do { (s, errs) \<leftarrow> complete_loop lookup put xs s; Some (s, enr # errs) }
     | Some e \<Rightarrow> do { (s, n) \<leftarrow> put s e; complete_loop lookup put xs s }
   }"

definition drbd_al_complete_io :: "al_device \<Rightarrow> u64 \<Rightarrow> u32 \<Rightarrow> (al_device \<times> u32 list) option" where
  "drbd_al_complete_io d sector sz = do {
     xs \<leftarrow> al_extents (al_first sector) (al_last sector sz);
     (lc, errs) \<leftarrow> complete_loop lc_find lc_put xs (act_log d);
     Some (d\<lparr>act_log := lc\<rparr>, errs)
   }"

section \<open>The interface\<close>

text \<open>
  What the activity log relies on: \<open>refs\<close> are the reference counts of the extents, \<open>hot\<close> are those recorded in the meta data. With
  update slots left a reference can always be taken; a commit makes everything referenced hot, and what is hot and referenced
  can be put.
\<close>

locale active_set =
  fixes inv :: "'s \<Rightarrow> bool" and locked :: "'s \<Rightarrow> bool" and slots :: "'s \<Rightarrow> nat"
    and refs :: "'s \<Rightarrow> u32 \<Rightarrow> nat" and hot :: "'s \<Rightarrow> u32 \<Rightarrow> bool" and max_refs :: nat
    and get :: "'s \<Rightarrow> u32 \<Rightarrow> ('s \<times> nat option) option" and commit :: "'s \<Rightarrow> 's option"
    and lookup :: "'s \<Rightarrow> u32 \<Rightarrow> nat option option" and put :: "'s \<Rightarrow> nat \<Rightarrow> ('s \<times> u32) option"
  assumes get_law: "inv s \<Longrightarrow> \<not> locked s \<Longrightarrow> 0 < slots s \<Longrightarrow> x \<noteq> LC_FREE \<Longrightarrow> (\<And>y. refs s y < max_refs) \<Longrightarrow>
      \<exists>s' e. get s x = Some (s', Some e) \<and> inv s' \<and> \<not> locked s' \<and> slots s \<le> Suc (slots s') \<and> refs s' = (refs s)(x := Suc (refs s x))"
    and commit_law: "inv s \<Longrightarrow> \<exists>s'. commit s = Some s' \<and> inv s' \<and> refs s' = refs s \<and> (\<forall>x. 0 < refs s x \<longrightarrow> hot s' x)"
    and put_law: "inv s \<Longrightarrow> x \<noteq> LC_FREE \<Longrightarrow> hot s x \<Longrightarrow> 0 < refs s x \<Longrightarrow>
      \<exists>e s' n. lookup s x = Some (Some e) \<and> put s e = Some (s', n) \<and> inv s' \<and> refs s' = (refs s)(x := refs s x - 1)
        \<and> (\<forall>y. hot s y \<longrightarrow> hot s' y)"
begin

lemma checkout:
  assumes "inv s" "\<not> locked s" "length xs \<le> slots s" "LC_FREE \<notin> set xs" "\<And>y. refs s y + length xs \<le> max_refs"
  shows "\<exists>s'. checkout_loop get xs s = Some (s', []) \<and> inv s' \<and> \<not> locked s' \<and> refs s' = (\<lambda>y. refs s y + count_list xs y)"
  using assms
proof (induction xs arbitrary: s)
  case (Cons x xs)
  have r: "refs s y < max_refs" for y using Cons.prems(5) [of y] by simp
  obtain s1 e where g: "get s x = Some (s1, Some e)" "inv s1" "\<not> locked s1" "slots s \<le> Suc (slots s1)" "refs s1 = (refs s)(x := Suc (refs s x))"
    using get_law [OF Cons.prems(1,2) _ _ r, of x] Cons.prems(3,4) by auto
  have "refs s1 y + length xs \<le> max_refs" for y using Cons.prems(5) [of y] g(5) by auto
  then obtain s2 where s2: "checkout_loop get xs s1 = Some (s2, [])" "inv s2" "\<not> locked s2" "refs s2 = (\<lambda>y. refs s1 y + count_list xs y)"
    using Cons.IH [OF g(2,3)] Cons.prems(3,4) g(4) by auto
  have "refs s2 = (\<lambda>y. refs s y + count_list (x # xs) y)" unfolding s2(4) g(5) by (rule ext) simp
  then show ?case using g(1) s2(1-3) by simp
qed simp

lemma complete:
  assumes "inv s" "LC_FREE \<notin> set xs" "\<forall>x \<in> set xs. hot s x \<and> count_list xs x \<le> refs s x"
  shows "\<exists>s'. complete_loop lookup put xs s = Some (s', []) \<and> inv s' \<and> refs s' = (\<lambda>y. refs s y - count_list xs y)"
  using assms
proof (induction xs arbitrary: s)
  case (Cons x xs)
  obtain e s1 n where p: "lookup s x = Some (Some e)" "put s e = Some (s1, n)" "inv s1" "refs s1 = (refs s)(x := refs s x - 1)"
    "\<forall>y. hot s y \<longrightarrow> hot s1 y"
    using put_law [OF Cons.prems(1), of x] Cons.prems(2,3) by fastforce
  have h: "\<forall>y \<in> set xs. hot s1 y \<and> count_list xs y \<le> refs s1 y"
    using Cons.prems(3) p(4,5) by (auto split: if_splits)
  obtain s2 where s2: "complete_loop lookup put xs s1 = Some (s2, [])" "inv s2" "refs s2 = (\<lambda>y. refs s1 y - count_list xs y)"
    using Cons.IH [OF p(3) _ h] Cons.prems(2) by auto
  have "refs s2 = (\<lambda>y. refs s y - count_list (x # xs) y)" unfolding s2(3) p(4) by (rule ext) simp
  then show ?case using p(1,2) s2(1,2) by simp
qed simp

end

end
