(* ===== verification/Act_Log_Facts.thy ===== *)
theory Act_Log_Facts
  imports Act_Log
begin

text \<open>
  The cache of \<open>lru_cache.c\<close> implements the interface \<open>active_set\<close>, and with it the activity log covers the writes in flight. The counts of
  references by label are the sums over the elements that have, or are about to get, the label.
\<close>

section \<open>The cache implements the interface\<close>

definition lc_refs :: "lru_cache \<Rightarrow> u32 \<Rightarrow> nat" where
  "lc_refs lc x = sum_list (map (\<lambda>e. if lc_new_number e = x then unat (lc_refcnt e) else 0) (lc_elements lc))"

definition lc_hot :: "lru_cache \<Rightarrow> u32 \<Rightarrow> bool" where
  "lc_hot lc x \<longleftrightarrow> (\<exists>e < nr lc. lc_number (el lc e) = x \<and> labels lc e = x)"

definition lc_slots :: "lru_cache \<Rightarrow> nat" where
  "lc_slots lc = min (unat (lc_nr_elements lc) - unat (lc_used lc)) (unat (lc_max_pending_changes lc) - unat (lc_pending_changes lc))"

definition lc_is_locked :: "lru_cache \<Rightarrow> bool" where
  "lc_is_locked lc = test_flag b_LC_LOCKED lc"

text \<open>A cache is starving only while all its elements are in use.\<close>

definition al_inv :: "lru_cache \<Rightarrow> bool" where
  "al_inv lc \<longleftrightarrow> lc_inv lc \<and> (test_flag b_LC_STARVING lc \<longrightarrow> lc_free lc = [] \<and> lc_lru lc = [])"

lemma lc_refs_update:
  assumes "lc_elements lc' = (lc_elements lc)[e := z]" "e < nr lc"
  shows "lc_refs lc' x + (if labels lc e = x then unat (lc_refcnt (el lc e)) else 0)
    = lc_refs lc x + (if lc_new_number z = x then unat (lc_refcnt z) else 0)"
proof -
  let ?f = "\<lambda>e. if lc_new_number e = x then unat (lc_refcnt e) else 0"
  have e: "e < length (map ?f (lc_elements lc))" using assms(2) by simp
  have "?f (el lc e) \<le> sum_list (map ?f (lc_elements lc))" using e elem_le_sum_list [of e "map ?f (lc_elements lc)"] by simp
  then show ?thesis using sum_list_update [OF e, of "?f z"] e by (simp add: lc_refs_def assms(1) map_update)
qed

lemma refs_bound: "e < nr lc \<Longrightarrow> unat (lc_refcnt (el lc e)) \<le> lc_refs lc (labels lc e)"
  using elem_le_sum_list [of e "map (\<lambda>i. if lc_new_number i = labels lc e then unat (lc_refcnt i) else 0) (lc_elements lc)"]
  by (simp add: lc_refs_def)

lemma refs_pos:
  assumes "0 < lc_refs lc x"
  shows "\<exists>e < nr lc. labels lc e = x \<and> lc_refcnt (el lc e) \<noteq> 0"
proof (rule ccontr)
  assume "\<not> ?thesis"
  then have "map (\<lambda>e. if lc_new_number e = x then unat (lc_refcnt e) else 0) (lc_elements lc) = map (\<lambda>e. 0) (lc_elements lc)"
    by (intro map_cong) (auto simp: in_set_conv_nth)
  then have "lc_refs lc x = 0" unfolding lc_refs_def by (simp only: sum_list_0)
  then show False using assms by simp
qed

lemma unused_elements:
  assumes "lc_inv lc" "0 < lc_slots lc"
  shows "lc_unused_element_available lc" "lc_pending_changes lc < lc_max_pending_changes lc"
proof -
  have l: "lc_lists lc" "lc_counts lc" "nr lc = unat (lc_nr_elements lc)" using assms(1) by (auto simp: lc_inv_def lc_shape_def)
  have "length (lc_lru lc @ lc_free lc @ lc_in_use lc @ lc_to_be_changed lc) = card {..<nr lc}"
    using l(1) distinct_card [of "lc_lru lc @ lc_free lc @ lc_in_use lc @ lc_to_be_changed lc"] unfolding lc_lists_def
    by (simp add: Un_assoc)
  then show "lc_unused_element_available lc" using l(2,3) assms(2) by (auto simp: lc_counts_def lc_slots_def lc_unused_element_available_def)
  show "lc_pending_changes lc < lc_max_pending_changes lc" using assms(2) by (simp add: lc_slots_def word_less_nat_alt)
qed

lemma hit_fields:
  assumes "g AND LC_GET_MAY_USE_UNCOMMITTED \<noteq> 0" "e < nr lc"
  shows "lc_elements (fst (lc_get_hit lc e g)) = (lc_elements lc)[e := (el lc e)\<lparr>lc_refcnt := lc_refcnt (el lc e) + 1\<rparr>]"
    "snd (lc_get_hit lc e g) = Some e"
    "lc_nr_elements (fst (lc_get_hit lc e g)) = lc_nr_elements lc"
    "lc_max_pending_changes (fst (lc_get_hit lc e g)) = lc_max_pending_changes lc"
    "lc_pending_changes (fst (lc_get_hit lc e g)) = lc_pending_changes lc"
    "lc_used (fst (lc_get_hit lc e g)) = lc_used lc \<or> lc_used (fst (lc_get_hit lc e g)) = lc_used lc + 1"
    "f \<noteq> b_LC_PARANOIA \<Longrightarrow> test_flag f (fst (lc_get_hit lc e g)) = test_flag f lc"
  using assms by (auto simp: lc_get_hit_def Let_def inc_refcnt_def upd_element_def clear_flag_def test_flag_def list_move_def list_del_def bit_unset_bit_iff)

lemma unat_plus_1_le: "unat (w + 1 :: 'a::len word) \<le> Suc (unat w)"
  by (cases "w = -1") (simp_all add: unat_Suc_word)

lemma slots_step:
  assumes "lc_nr_elements lc' = lc_nr_elements lc" "lc_max_pending_changes lc' = lc_max_pending_changes lc"
    "lc_used lc' = lc_used lc \<or> lc_used lc' = lc_used lc + 1"
    "lc_pending_changes lc' = lc_pending_changes lc \<or> lc_pending_changes lc' = lc_pending_changes lc + 1"
  shows "lc_slots lc \<le> Suc (lc_slots lc')"
proof -
  have "unat (lc_used lc') \<le> Suc (unat (lc_used lc))" "unat (lc_pending_changes lc') \<le> Suc (unat (lc_pending_changes lc))"
    using assms(3,4) unat_plus_1_le by auto
  then show ?thesis unfolding lc_slots_def assms(1,2) by simp
qed

lemma lc_get_cumulative_hit:
  assumes "lc_inv lc" "x \<noteq> LC_FREE" "\<not> test_flag b_LC_STARVING lc" "e < nr lc" "labels lc e = x" "\<And>y. lc_refs lc y < 2 ^ 32 - 1"
  shows "\<exists>lc'. lc_get_cumulative lc x = Some (lc', Some e) \<and> lc_inv lc' \<and> lc_slots lc \<le> Suc (lc_slots lc')
    \<and> lc_refs lc' = (lc_refs lc)(x := Suc (lc_refs lc x)) \<and> (\<forall>f. f \<noteq> b_LC_PARANOIA \<longrightarrow> test_flag f lc' = test_flag f lc)"
proof -
  let ?g = "LC_GET_MAY_CHANGE OR LC_GET_MAY_USE_UNCOMMITTED"
  let ?p = "set_flag b_LC_PARANOIA lc"
  have g: "?g AND LC_GET_MAY_USE_UNCOMMITTED \<noteq> 0" by (simp add: LC_GET_MAY_CHANGE_def LC_GET_MAY_USE_UNCOMMITTED_def)
  have room: "lc_refcnt (el lc i) \<noteq> - 1" if "i < nr lc" for i
    using refs_bound [OF that] assms(6) [of "labels lc i"] by (auto simp: unat_word_max)
  then have rr: "refcnt_room lc" by (simp add: refcnt_room_def)
  have e: "e < nr ?p" using assms(4) by simp
  note h = hit_fields [OF g e]
  have "lc_find_gen lc x True = Some (Some e)" using lc_find_gen_iff [OF assms(1,2)] assms(4,5) by simp
  then have eq: "lc_get_cumulative lc x = Some (lc_get_hit ?p e ?g)"
    using assms(1,3) by (simp add: lc_get_cumulative_def lc_get_gen_def)
  define lc' where "lc' = fst (lc_get_hit ?p e ?g)"
  have r: "lc_get_cumulative lc x = Some (lc', Some e)" using eq h(2) unfolding lc'_def by (metis prod.collapse)
  have inv: "lc_inv lc'" using lc_get_gen_inv [OF assms(1) rr assms(2), of ?g] r by (auto simp: lc_get_cumulative_def)
  have sl: "lc_slots lc \<le> Suc (lc_slots lc')" using h(3-6) by (intro slots_step) (simp_all add: lc'_def)
  have fl: "\<forall>f. f \<noteq> b_LC_PARANOIA \<longrightarrow> test_flag f lc' = test_flag f lc" using h(7) by (simp add: lc'_def)
  have "lc_refs lc' y = ((lc_refs lc)(x := Suc (lc_refs lc x))) y" for y
    using lc_refs_update [of lc' lc e "(el lc e)\<lparr>lc_refcnt := lc_refcnt (el lc e) + 1\<rparr>" y] h(1) assms(4,5) unat_Suc_word [OF room [OF assms(4)]]
    by (auto simp: lc'_def split: if_splits)
  then show ?thesis using r inv sl fl by blast
qed

lemma lc_get_cumulative_miss:
  assumes "lc_inv lc" "x \<noteq> LC_FREE" "\<not> test_flag b_LC_STARVING lc" "\<not> test_flag b_LC_LOCKED lc" "0 < lc_slots lc" "\<forall>j < nr lc. labels lc j \<noteq> x"
  shows "\<exists>lc' e. lc_get_cumulative lc x = Some (lc', Some e) \<and> lc_inv lc' \<and> lc_slots lc \<le> Suc (lc_slots lc')
    \<and> lc_refs lc' = (lc_refs lc)(x := Suc (lc_refs lc x)) \<and> \<not> test_flag b_LC_STARVING lc' \<and> \<not> test_flag b_LC_LOCKED lc'"
proof -
  let ?g = "LC_GET_MAY_CHANGE OR LC_GET_MAY_USE_UNCOMMITTED"
  let ?lc = "set_flag b_LC_DIRTY ((set_flag b_LC_PARANOIA lc)\<lparr>lc_misses := lc_misses lc + 1\<rparr>)"
  have miss: "lc_misses (set_flag b_LC_PARANOIA lc) = lc_misses lc" by (simp add: set_flag_def)
  note u = unused_elements [OF assms(1,5)]
  have g: "?g AND LC_GET_MAY_CHANGE \<noteq> 0" by (simp add: LC_GET_MAY_CHANGE_def LC_GET_MAY_USE_UNCOMMITTED_def)
  have eq: "lc_get_cumulative lc x = lc_get_change ?lc x"
    unfolding lc_get_cumulative_def lc_get_gen_miss [OF assms(1,2,6,3)] using u g assms(4)
    by (simp add: lc_get_miss_def Let_def lc_unused_element_available_def miss linorder_not_le [THEN iffD2] split: if_splits)
  have p: "lc_ok ?lc" "\<forall>j < nr ?lc. labels ?lc j \<noteq> x" "lc_unused_element_available ?lc" "lc_pending_changes ?lc < lc_max_pending_changes ?lc"
    using assms(1,6) u by (auto simp: lc_inv_alt lc_unused_element_available_def split: if_splits)
  define m where "m e = (list_move e L_to_be_changed
       (hlist_add_head e (lc_hash_slot ?lc x) (hlist_del e (upd_element e (\<lambda>i. i\<lparr>lc_new_number := x, lc_refcnt := 1\<rparr>) ?lc))))
     \<lparr>lc_used := lc_used ?lc + 1, lc_pending_changes := lc_pending_changes ?lc + 1\<rparr>" for e
  obtain e k where e: "e \<in> set (list_of k ?lc)" "k = L_free \<and> e = hd (lc_free ?lc) \<and> lc_free ?lc \<noteq> [] \<or> k = L_lru \<and> e = last (lc_lru ?lc) \<and> lc_free ?lc = []"
    and c: "lc_get_change ?lc x = Some (lc_return (clear_flag b_LC_STARVING (m e)), Some e)" and ok: "lc_ok (m e)"
    unfolding m_def by (rule lc_get_change_ok [OF p(1) assms(2) p(2-4)])
  have "lc_lists ?lc" "lc_states ?lc" using p(1) by (simp_all only: lc_ok_def)
  then have "el_state k (el ?lc e)" "e < nr ?lc" using e(1) lc_lists_less by (auto simp only: lc_states_def)
  then have z: "lc_refcnt (el lc e) = 0" "e < nr lc" using e(2) by auto
  define lc' where "lc' = lc_return (clear_flag b_LC_STARVING (m e))"
  have els: "lc_elements lc' = (lc_elements lc)[e := (el lc e)\<lparr>lc_new_number := x, lc_refcnt := 1\<rparr>]"
    by (simp add: lc'_def m_def upd_element_def)
  have "lc_refs lc' y = ((lc_refs lc)(x := Suc (lc_refs lc x))) y" for y
    using lc_refs_update [OF els z(2), of y] z(1) by (auto split: if_splits)
  then have "lc_refs lc' = (lc_refs lc)(x := Suc (lc_refs lc x))" by (rule ext)
  moreover have "lc_inv lc'" using ok by (simp add: lc_inv_alt lc'_def)
  moreover have "\<not> test_flag b_LC_STARVING lc'" "\<not> test_flag b_LC_LOCKED lc'" using assms(4) by (simp_all add: lc'_def m_def test_flag_def set_flag_def bit_set_bit_iff clear_flag_def bit_unset_bit_iff)
  moreover have "lc_slots lc \<le> Suc (lc_slots lc')" by (rule slots_step) (simp_all add: lc'_def m_def)
  moreover have "lc_get_cumulative lc x = Some (lc', Some e)" using eq c by (simp only: lc'_def)
  ultimately show ?thesis by blast
qed

lemma al_get_law:
  assumes "al_inv lc" "\<not> lc_is_locked lc" "0 < lc_slots lc" "x \<noteq> LC_FREE" "\<And>y. lc_refs lc y < 2 ^ 32 - 1"
  shows "\<exists>lc' e. lc_get_cumulative lc x = Some (lc', Some e) \<and> al_inv lc' \<and> \<not> lc_is_locked lc' \<and> lc_slots lc \<le> Suc (lc_slots lc')
    \<and> lc_refs lc' = (lc_refs lc)(x := Suc (lc_refs lc x))"
proof -
  have inv: "lc_inv lc" using assms(1) by (simp add: al_inv_def)
  have ns: "\<not> test_flag b_LC_STARVING lc"
    using assms(1) unused_elements(1) [OF inv assms(3)] by (auto simp: al_inv_def lc_unused_element_available_def)
  show ?thesis
  proof (cases "\<exists>e < nr lc. labels lc e = x")
    case True
    then obtain e where e: "e < nr lc" "labels lc e = x" by blast
    from lc_get_cumulative_hit [OF inv assms(4) ns e assms(5)] show ?thesis
      using assms(2) ns unfolding al_inv_def lc_is_locked_def by auto
  next
    case False
    then have "\<forall>j < nr lc. labels lc j \<noteq> x" by blast
    from lc_get_cumulative_miss [OF inv assms(4) ns _ assms(3) this] show ?thesis
      using assms(2) unfolding al_inv_def lc_is_locked_def by blast
  qed
qed

lemma fold_commit_flags: "lc_flags (fold commit_element xs lc) = lc_flags lc"
  by (induction xs arbitrary: lc) simp_all

lemma al_commit_law:
  assumes "al_inv lc"
  shows "\<exists>lc'. lc_committed lc = Some lc' \<and> al_inv lc' \<and> lc_refs lc' = lc_refs lc \<and> (\<forall>x. 0 < lc_refs lc x \<longrightarrow> lc_hot lc' x)"
proof -
  have inv: "lc_inv lc" using assms by (simp add: al_inv_def)
  obtain lc' where c: "lc_committed lc = Some lc'" "lc_inv lc'" "lc_lru lc' = lc_lru lc" "lc_free lc' = lc_free lc" "nr lc' = nr lc"
    "\<forall>i < nr lc. labels lc' i = labels lc i \<and> lc_number (el lc' i) = labels lc i \<and> lc_refcnt (el lc' i) = lc_refcnt (el lc i)"
    using lc_committed_spec [OF inv] by blast
  have "test_flag b_LC_STARVING lc' = test_flag b_LC_STARVING lc"
    using c(1) inv by (auto simp: lc_committed_def Let_def test_flag_def fold_commit_flags clear_flag_def set_flag_def bit_unset_bit_iff bit_set_bit_iff)
  then have "al_inv lc'" using assms c(2-4) by (simp add: al_inv_def)
  moreover have "map (\<lambda>e. if lc_new_number e = x then unat (lc_refcnt e) else 0) (lc_elements lc')
      = map (\<lambda>e. if lc_new_number e = x then unat (lc_refcnt e) else 0) (lc_elements lc)" for x
    using c(5,6) by (intro nth_equalityI) simp_all
  then have "lc_refs lc' = lc_refs lc" by (intro ext) (simp add: lc_refs_def)
  moreover have "lc_hot lc' x" if "0 < lc_refs lc x" for x
    using refs_pos [OF that] c(5,6) by (auto simp: lc_hot_def)
  ultimately show ?thesis using c(1) by blast
qed

lemma al_put_law:
  assumes "al_inv lc" "x \<noteq> LC_FREE" "lc_hot lc x" "0 < lc_refs lc x"
  shows "\<exists>e lc' n. lc_find lc x = Some (Some e) \<and> lc_put lc e = Some (lc', n) \<and> al_inv lc' \<and> lc_refs lc' = (lc_refs lc)(x := lc_refs lc x - 1)
    \<and> (\<forall>y. lc_hot lc y \<longrightarrow> lc_hot lc' y)"
proof -
  have inv: "lc_inv lc" using assms(1) by (simp add: al_inv_def)
  obtain e where e: "e < nr lc" "lc_number (el lc e) = x" "labels lc e = x" using assms(3) by (auto simp: lc_hot_def)
  obtain i where i: "i < nr lc" "labels lc i = x" "lc_refcnt (el lc i) \<noteq> 0" using refs_pos [OF assms(4)] by blast
  have "i = e" using lc_label_unique [OF inv i(1) e(1)] i(2) e(3) assms(2) by simp
  then have nz: "lc_refcnt (el lc e) \<noteq> 0" using i(3) by simp
  obtain l where l: "e \<in> set (list_of l lc)" using lc_lists_cases [OF lc_invD(2) [OF inv] e(1)] by blast
  have "el_state l (el lc e)" using lc_invD(3) [OF inv] l by (simp add: lc_states_def)
  then have iu: "e \<in> set (lc_in_use lc)" using l nz e by (cases l) auto
  define f :: "lc_element \<Rightarrow> lc_element" where "f = (\<lambda>i. i\<lparr>lc_refcnt := lc_refcnt i - 1\<rparr>)"
  define p where "p = upd_element e f (set_flag b_LC_PARANOIA lc)"
  define lc' where "lc' = lc_return (if lc_refcnt (el p e) = 0
       then clear_flag b_LC_STARVING ((list_move e L_lru p)\<lparr>lc_used := lc_used p - 1\<rparr>) else p)"
  have put: "lc_put lc e = Some (lc', lc_refcnt (el lc e) - 1)"
    unfolding lc_put_eq [OF inv iu] lc'_def p_def f_def Let_def ..
  have inv': "lc_inv lc'" using lc_put_inv [OF inv iu] put by auto
  have els: "lc_elements lc' = (lc_elements lc)[e := f (el lc e)]" by (simp add: lc'_def p_def upd_element_def)
  have "test_flag b_LC_STARVING lc' \<longrightarrow> lc_free lc' = [] \<and> lc_lru lc' = []"
    using assms(1) by (auto simp: lc'_def p_def al_inv_def upd_element_def test_flag_def set_flag_def clear_flag_def bit_set_bit_iff bit_unset_bit_iff)
  then have ai: "al_inv lc'" using inv' by (simp add: al_inv_def)
  obtain k where k: "unat (lc_refcnt (el lc e)) = Suc k" using nz by (metis not0_implies_Suc unat_eq_0)
  have r: "lc_refs lc' y = ((lc_refs lc)(x := lc_refs lc x - 1)) y" for y
    using lc_refs_update [OF els e(1), of y] unat_pred_word [OF nz] e(3) k by (auto simp: f_def split: if_splits)
  have h: "lc_hot lc y \<longrightarrow> lc_hot lc' y" for y
  proof -
    have "lc_number (el lc' i) = lc_number (el lc i)" "labels lc' i = labels lc i" for i
      unfolding els by (simp_all add: nth_update_attr f_def nth_list_update)
    then show ?thesis using els by (auto simp: lc_hot_def)
  qed
  have "lc_find lc x = Some (Some e)" using lc_find_gen_iff [OF inv assms(2)] e by (simp add: lc_find_def)
  then show ?thesis using put ai r h by blast
qed

interpretation al: active_set al_inv lc_is_locked lc_slots lc_refs lc_hot "2 ^ 32 - 1" lc_get_cumulative lc_committed lc_find lc_put
  by unfold_locales (fact al_get_law al_commit_law al_put_law)+

section \<open>The activity log\<close>

lemma al_extents_facts:
  assumes "al_extents first end = Some xs"
  shows "length xs = Suc (unat end) - unat first" "distinct xs" "LC_FREE \<notin> set xs" "x \<in> set xs \<longleftrightarrow> first \<le> x \<and> x \<le> end"
proof -
  have e: "end \<noteq> -1" "xs = map of_nat [unat first..<Suc (unat end)]" using assms by (auto simp: al_extents_def split: if_splits)
  have "unat end < 2 ^ LENGTH(32)" by (rule unsigned_less)
  then have b: "n < 2 ^ 32" if "n < Suc (unat end)" for n using that by simp
  show "length xs = Suc (unat end) - unat first" by (simp add: e(2) del: upt_Suc)
  show m: "x \<in> set xs \<longleftrightarrow> first \<le> x \<and> x \<le> end" for x
  proof
    assume "x \<in> set xs"
    then obtain n where "unat first \<le> n" "n < Suc (unat end)" "x = of_nat n" by (auto simp: e(2) simp del: upt_Suc)
    then show "first \<le> x \<and> x \<le> end" using b [of n] by (simp add: word_le_nat_alt unat_of_nat)
  next
    assume "first \<le> x \<and> x \<le> end"
    then have "unat x \<in> set [unat first..<Suc (unat end)]" by (simp add: word_le_nat_alt del: upt_Suc)
    then show "x \<in> set xs" unfolding e(2) set_map by (rule rev_image_eqI) simp
  qed
  have "inj_on (of_nat :: nat \<Rightarrow> u32) (set [unat first..<Suc (unat end)])"
  proof (rule inj_onI)
    fix i j
    assume "i \<in> set [unat first..<Suc (unat end)]" "j \<in> set [unat first..<Suc (unat end)]" "of_nat i = (of_nat j :: u32)"
    then have l: "i < Suc (unat end)" "j < Suc (unat end)" and eq: "of_nat i = (of_nat j :: u32)" by (simp_all only: set_upt atLeastLessThan_iff)
    from b [OF l(1)] b [OF l(2)] have "unat (of_nat i :: u32) = i" "unat (of_nat j :: u32) = j" by (simp_all add: unat_of_nat del: upt_Suc)
    then show "i = j" using eq by metis
  qed
  then show "distinct xs" by (simp add: e(2) distinct_map del: upt_Suc)
  have "\<not> LC_FREE \<le> end" using e(1) by (simp add: LC_FREE_def word_order.extremum_unique)
  then show "LC_FREE \<notin> set xs" using m by blast
qed

lemma count_list_distinct: "distinct xs \<Longrightarrow> count_list xs y = of_bool (y \<in> set xs)"
  by (induction xs) (auto simp: count_list_0_iff)

lemma resync_check_result:
  assumes "lc_inv (resync d)"
  shows "\<exists>err d'. resync_check xs d = Some (err, d') \<and> act_log d' = act_log d \<and> (err = 0 \<longrightarrow> d' = d)"
proof (induction xs)
  case (Cons x xs)
  obtain r where "lc_find (resync d) (x div AL_EXT_PER_BM_SECT) = Some r" using lc_find_gen_Some [OF assms] by (auto simp: lc_find_def)
  then obtain b where b: "find_active_resync_extent d x = Some b" by (simp add: find_active_resync_extent_def)
  show ?case
  proof (cases b)
    case None
    then show ?thesis using b Cons by simp
  next
    case (Some e)
    then show ?thesis using b by (simp add: set_priority_def EBUSY_def EWOULDBLOCK_def)
  qed
qed simp

lemma enough_slots:
  assumes "al_inv lc" "first \<le> end" "end \<noteq> - 1"
    "\<not> min (lc_nr_elements lc - lc_used lc) (lc_max_pending_changes lc - lc_pending_changes lc) < 1 + end - first"
  shows "Suc (unat end) - unat first \<le> lc_slots lc"
proof -
  have u: "lc_used lc \<le> lc_nr_elements lc" "lc_pending_changes lc \<le> lc_max_pending_changes lc"
    using assms(1) lc_ok_used_le [of lc] by (auto simp: al_inv_def lc_inv_def lc_ok_def lc_counts_def lc_shape_def word_le_nat_alt)
  have s: "unat (lc_nr_elements lc - lc_used lc) = unat (lc_nr_elements lc) - unat (lc_used lc)"
    "unat (lc_max_pending_changes lc - lc_pending_changes lc) = unat (lc_max_pending_changes lc) - unat (lc_pending_changes lc)"
    using u by (simp_all add: unat_sub)
  have "first \<le> 1 + end" using assms(2,3) unat_Suc_word [of "end"] by (simp add: word_le_nat_alt add.commute)
  then have n: "unat (1 + end - first) = Suc (unat end) - unat first" using unat_Suc_word [OF assms(3)] by (simp add: unat_sub add.commute)
  have "1 + end - first \<le> lc_nr_elements lc - lc_used lc" "1 + end - first \<le> lc_max_pending_changes lc - lc_pending_changes lc"
    using assms(4) by (simp_all only: not_less min.bounded_iff)
  then show ?thesis unfolding lc_slots_def s [symmetric] n [symmetric] by (simp only: word_le_nat_alt min.bounded_iff simp_thms)
qed

lemma flag_refs [simp]:
  "lc_refs (set_flag f lc) = lc_refs lc" "lc_refs (clear_flag f lc) = lc_refs lc"
  "lc_hot (set_flag f lc) = lc_hot lc" "lc_hot (clear_flag f lc) = lc_hot lc"
  by (simp_all add: lc_refs_def lc_hot_def fun_eq_iff)

lemma flag_al_inv:
  assumes "f \<in> {b_LC_LOCKED, b_LC_DIRTY}"
  shows "al_inv (set_flag f lc) = al_inv lc" "al_inv (clear_flag f lc) = al_inv lc"
  using assms by (auto simp: al_inv_def lc_inv_alt)

lemma nothing_pending_hot:
  assumes "al_inv lc" "lc_pending_changes lc = 0" "0 < lc_refs lc x"
  shows "lc_hot lc x"
proof -
  have inv: "lc_lists lc" "lc_states lc" "lc_counts lc" using assms(1) by (auto simp: al_inv_def lc_inv_def)
  obtain e where e: "e < nr lc" "labels lc e = x" "lc_refcnt (el lc e) \<noteq> 0" using refs_pos [OF assms(3)] by blast
  obtain l where l: "e \<in> set (list_of l lc)" using lc_lists_cases [OF inv(1) e(1)] by blast
  have "lc_to_be_changed lc = []" using inv(3) assms(2) by (simp add: lc_counts_def)
  moreover have "el_state l (el lc e)" using inv(2) l by (simp add: lc_states_def)
  ultimately show ?thesis using l e by (cases l) (auto simp: lc_hot_def)
qed

lemma commit_result:
  assumes "al_inv (act_log d)" "\<not> lc_is_locked (act_log d)"
  shows "\<exists>d'. drbd_al_begin_io_commit d = Some (d', True) \<and> al_inv (act_log d') \<and> lc_refs (act_log d') = lc_refs (act_log d)
    \<and> (\<forall>x. 0 < lc_refs (act_log d) x \<longrightarrow> lc_hot (act_log d') x)"
proof (cases "lc_pending_changes (act_log d) = 0")
  case True
  then show ?thesis using assms nothing_pending_hot by (auto simp: drbd_al_begin_io_commit_def)
next
  case False
  have "al_inv (set_flag b_LC_LOCKED (act_log d))" using assms(1) flag_al_inv(1) [of b_LC_LOCKED] by simp
  from al.commit_law [OF this] obtain lc where lc: "lc_committed (set_flag b_LC_LOCKED (act_log d)) = Some lc" "al_inv lc"
    "lc_refs lc = lc_refs (act_log d)" "\<forall>x. 0 < lc_refs (act_log d) x \<longrightarrow> lc_hot lc x" by auto
  have "al_inv (lc_unlock lc)" using lc(2) flag_al_inv(2) by (simp add: lc_unlock_def)
  then show ?thesis using False assms(2) lc
    by (simp add: drbd_al_begin_io_commit_def lc_try_lock_for_transaction_def lc_is_locked_def lc_unlock_def)
qed


definition ex_al :: al_device where
  "ex_al = \<lparr>act_log = lc_fresh 4 8, resync = lc_fresh 1 1, bme_flags = [0], al_updates = True, al_writes = 0\<rparr>"


text \<open>While another thread has the log locked for its transaction, a cold extent cannot be checked out, and the request goes on without it.\<close>

lemma locked_log_is_ignored:
  "case drbd_al_begin_io_nonblock (ex_al\<lparr>act_log := set_flag b_LC_LOCKED (act_log ex_al)\<rparr>) 16376 8192 of
     None \<Rightarrow> False | Some (err, bugs, d) \<Rightarrow> err = 0 \<and> bugs = [1, 2] \<and> lc_refs (act_log d) 1 = 0 \<and> lc_refs (act_log d) 2 = 0"
  by code_simp

end
