(* ===== verification/Spec2Isabelle.thy ===== *)
theory Spec2Isabelle
  imports Lru_Cache State_Conn Uuid_Facts Interval Bm_Xfer_Facts Request_Facts Act_Log_Facts
begin

text \<open>
  DRBD 8.4.4 (asynchronous variant): the core of the kernel module, verified.

  \<^bold>\<open>The program.\<close> DRBD mirrors a block device to a peer over the network. The kernel module under
  \<open>src/drbd-8.4.4/drbd\<close> keeps, per device, a state (role, connection, disks), a bitmap of the blocks that are out of sync,
  data generation identifiers (UUIDs) that tell which node has the newer data, and the requests in flight; an activity log of hot
  extents sits on a tracker of a fixed number of active elements. A write of the application becomes a request that is
  submitted to the local disk and sent to the peer; the answers of both, the barriers of the peer and the loss of the
  connection drive it until it is completed and freed, and what did not reach both disks ends up in the bitmap. After a
  reconnect the nodes compare their UUIDs, decide who is the source, exchange their bitmaps in compressed form and
  resynchronise. Every change of the state goes through one engine that checks, sanitizes and commits it, after asking
  the peer where both have to agree.

  \<^bold>\<open>The theories,\<close> each with the code it models. An operation that hits \<open>BUG_ON\<close> or dereferences a null pointer has the value
  \<open>None\<close>; error returns are values of sums or of the enumerations of the source; machine integers are words where they wrap.

  \<^item> \<open>Prelude\<close>: integer types, \<open>bug_on\<close>, lemmas on lists and words, the collection \<open>mask_defs\<close>.
  \<^item> \<open>Lru_Cache\<close> (\<open>lru_cache.c\<close>, \<open>lru_cache.h\<close>): \<open>struct lru_cache\<close> as a record with its elements, lists, hash slots, flags and
    counters, one definition per operation. The invariant holds in every state reachable by any sequence of
    operations; lookups are exact, the least recently used element is recycled, a transaction publishes its labels at
    once, and all outcomes of \<open>lc_create\<close> under failing allocations are described.
  \<^item> \<open>State_Types\<close>, \<open>State_Engine\<close>, \<open>State_Facts\<close>, \<open>State_Conn\<close> (\<open>drbd_state.c\<close>, \<open>linux/drbd.h\<close>): the enumerations with the order of the
    source, the packed state word, validity, transitions, \<open>sanitize_state\<close>, \<open>__drbd_set_state\<close>, then requests that
    need the peer and changes of all volumes of a connection. Accepted soft changes are safe (no primary without good data,
    never two primaries unless allowed), sanitizing yields consistent states, connection states move along their ladder, the packed word
    and the record agree.
  \<^item> \<open>Uuid\<close>, \<open>Uuid_Facts\<close> (\<open>drbd_main.c\<close>, \<open>drbd_receiver.c\<close>): the UUID slots, \<open>drbd_uuid_compare\<close>, the policies after split brain,
    \<open>drbd_sync_handshake\<close>. The verdicts of the two nodes are opposite, and a handshake makes one the source and the other the target.
  \<^item> \<open>Interval\<close> (\<open>drbd_interval.c\<close>): the augmented tree of intervals. The functions \<open>rb_insert_color\<close>, \<open>rb_erase\<close> and \<open>rb_next\<close> of the
    kernel are parameters with their documented behaviour as hypotheses. Searches return exactly the overlapping intervals.
  \<^item> \<open>Vli\<close> (\<open>drbd_vli.h\<close>): the variable length code and the bit streams. The interface \<open>prefix_code\<close> states what a
    client of such a code may rely on, and is interpreted with the functions of the source.
  \<^item> \<open>Bitmap\<close>, \<open>Bitmap_Facts\<close> (\<open>drbd_bitmap.c\<close>): pages of words, setting and clearing ranges, searches, counters, resize and the marks
    for write-out. The operations refine union and difference on sets of blocks, the word-wise fast path included.
  \<^item> \<open>Bm_Xfer\<close>, \<open>Bm_Xfer_Facts\<close> (\<open>drbd_main.c\<close>, \<open>drbd_receiver.c\<close>): sending and receiving the bitmap, run length encoded or plain,
    built on the two components before. A transfer ends and the receiver has the union of both bitmaps; no packet can
    make the receiver crash or forget a block.
  \<^item> \<open>Request\<close>, \<open>Request_Inv\<close>, \<open>Request_Facts\<close> (\<open>drbd_req.c\<close>, \<open>drbd_req.h\<close>, \<open>drbd_request_endio\<close> of \<open>drbd_worker.c\<close>, the retry worker of
    \<open>drbd_main.c\<close>): flags, the two reference counts, every event of \<open>__req_mod\<close>, submission, completion and retry, as an inductive set of
    reachable states. The counts are exact, the application gets one answer and the right one, a freed request is
    referred to by nobody, a write that did not reach both disks is in the bitmap, and the loss of the connection finishes everything.
  \<^item> \<open>Act_Log\<close>, \<open>Act_Log_Facts\<close> (\<open>drbd_actlog.c\<close>): how the thread that submits writes activates the extents they touch: the check-out of the
    references, the commit of the transaction, the completion. They are proved correct over the interface \<open>active_set\<close>, which the
    cache of \<open>Lru_Cache\<close> implements: all extents of a write are hot before it is submitted and its references are given back exactly.

  \<^bold>\<open>Loops.\<close> Most are structural recursion. The search of \<open>__bm_find_next\<close> has a termination proof. The loop of \<open>_drbd_send_bitmap\<close> has fuel
  \<open>bm_bits + 1\<close>, as every packet advances by a bit, and the decoder of a packet of \<open>n\<close> bytes fuel \<open>8 * n + 1\<close>, as every code word has a bit; both
  are proved to return a result. The loops over extents run to an inclusive bound and do not end if it is the largest number; then the value is \<open>None\<close>.

  \<^bold>\<open>Composition.\<close> Requests call the bitmap (\<open>Call_set_out_of_sync\<close>), the activity log (\<open>Call_al_complete_io\<close>) and the sender
  (\<open>Call_queue_work\<close>); these calls are recorded in order in the state of the request. The state engine queues the work that follows a change.

  \<^bold>\<open>Not modelled.\<close> Sockets, authentication, peer requests and resync rate control (rest of \<open>drbd_receiver.c\<close> and \<open>drbd_worker.c\<close>): timing and
  I/O. The blocking variants and the resync extents of \<open>drbd_actlog.c\<close>, and its transactions on disk, of which the model only counts the writes. \<open>after_state_ch\<close>: queued as work, not run. Page and superblock I/O, the netlink interface (\<open>drbd_nl.c\<close>), status output, snapshots
  (\<open>drbd_snapshot.c\<close>, calls into an external driver), the compatibility layer, and the programs under \<open>user\<close> and \<open>benchmark\<close>. Waiting for
  conflicting writes and pulling ahead on congestion precede the modelled part of the submission of a request.
\<close>

end
